(* ===== verification/Prelude.thy ===== *)
theory Prelude
  imports Main "HOL-Library.Word" "HOL-Library.Multiset"
begin

text \<open>
  Shared material of the development: the machine integers of the C++ sources as words, byte
  buffers, the reading of \<open>Result\<close> as a sum type, big-endian encoding and decoding of words,
  and the lemma collections that the component theories use.

  Conventions.  A \<open>uintN_t\<close> is an \<open>N word\<close>; \<open>unsigned\<close> is a \<open>32 word\<close>; a \<open>size_t\<close>
  that counts bytes of a buffer is a \<open>nat\<close> (buffers are far below the wrap-around).  A
  \<open>std::string\<close>, \<open>std::vector<uint8_t>\<close>, \<open>std::array<uint8_t, n>\<close> or a binary view is
  its list of bytes.  \<open>Maybe\<close> is \<open>option\<close>, \<open>Result\<close> is a sum with the error on the left.
\<close>

unbundle bit_operations_syntax

type_synonym u8 = "8 word"
type_synonym u16 = "16 word"
type_synonym u32 = "32 word"
type_synonym u64 = "64 word"
type_synonym bytes = "8 word list"

named_theorems view_simps \<open>values of the byte-view operations under their contract\<close>
named_theorems client_simps \<open>field facts of the client operations\<close>

section \<open>Results\<close>

definition rbind :: "'e + 'a \<Rightarrow> ('a \<Rightarrow> 'e + 'b) \<Rightarrow> 'e + 'b" where
  "rbind r f = (case r of Inl e \<Rightarrow> Inl e | Inr x \<Rightarrow> f x)"

definition rmap :: "('a \<Rightarrow> 'b) \<Rightarrow> 'e + 'a \<Rightarrow> 'e + 'b" where
  "rmap f r = (case r of Inl e \<Rightarrow> Inl e | Inr x \<Rightarrow> Inr (f x))"

definition require :: "'e \<Rightarrow> 'a option \<Rightarrow> 'e + 'a" where
  "require e m = (case m of None \<Rightarrow> Inl e | Some x \<Rightarrow> Inr x)"

definition is_err :: "'e + 'a \<Rightarrow> bool" where
  "is_err r = (case r of Inl _ \<Rightarrow> True | Inr _ \<Rightarrow> False)"

definition err_list :: "'e + 'a \<Rightarrow> 'e list" where
  "err_list r = (case r of Inl e \<Rightarrow> [e] | Inr _ \<Rightarrow> [])"

lemma rbind_simps [simp]:
  "rbind (Inl e) f = Inl e" "rbind (Inr x) f = f x"
  by (simp_all add: rbind_def)

lemma rmap_simps [simp]:
  "rmap f (Inl e) = Inl e" "rmap f (Inr x) = Inr (f x)"
  by (simp_all add: rmap_def)

lemma require_simps [simp]:
  "require e None = Inl e" "require e (Some x) = Inr x"
  by (simp_all add: require_def)

lemma is_err_simps [simp]: "is_err (Inl e)" "\<not> is_err (Inr x)"
  by (simp_all add: is_err_def)

lemma err_list_simps [simp]: "err_list (Inl e) = [e]" "err_list (Inr x) = []"
  by (simp_all add: err_list_def)

lemma rbind_eq_Inr [simp]: "rbind r f = Inr y \<longleftrightarrow> (\<exists>x. r = Inr x \<and> f x = Inr y)"
  by (cases r) auto

lemma rmap_eq_Inr [simp]: "rmap f r = Inr y \<longleftrightarrow> (\<exists>x. r = Inr x \<and> f x = y)"
  by (cases r) auto

lemma rmap_eq_Inl [simp]: "rmap f r = Inl e \<longleftrightarrow> r = Inl e"
  by (cases r) auto

lemma require_eq_Inr [simp]: "require e m = Inr x \<longleftrightarrow> m = Some x"
  by (cases m) auto

section \<open>Big-endian words\<close>

primrec be_encode :: "nat \<Rightarrow> 'a::len word \<Rightarrow> bytes" where
  "be_encode 0 w = []"
| "be_encode (Suc n) w = ucast (drop_bit (8 * n) w) # be_encode n w"

definition be_decode :: "bytes \<Rightarrow> 'a::len word" where
  "be_decode bs = foldl (\<lambda>a b. push_bit 8 a OR ucast b) 0 bs"

lemma length_be_encode [simp]: "length (be_encode n w) = n"
  by (induction n) simp_all

lemma be_decode_snoc:
  "be_decode (bs @ [b]) = push_bit 8 (be_decode bs) OR (ucast b :: 'a::len word)"
  by (simp add: be_decode_def)

lemma be_encode_snoc: "be_encode (Suc n) w = be_encode n (drop_bit 8 w) @ [ucast w]"
proof (induction n)
  case 0
  then show ?case by simp
next
  case (Suc n)
  have "be_encode (Suc (Suc n)) w = ucast (drop_bit (8 * Suc n) w) # be_encode (Suc n) w"
    by simp
  also have "\<dots> = ucast (drop_bit (8 * n) (drop_bit 8 w)) # (be_encode n (drop_bit 8 w) @ [ucast w])"
    by (simp add: Suc.IH add.commute del: be_encode.simps)
  also have "\<dots> = be_encode (Suc n) (drop_bit 8 w) @ [ucast w]" by simp
  finally show ?case .
qed

lemma byte_split: "push_bit 8 (drop_bit 8 w) OR ucast (ucast w :: u8) = (w :: 'a::len word)"
  by (rule bit_word_eqI) (auto simp: bit_simps)

lemma be_decode_encode: "be_decode (be_encode n w) = take_bit (8 * n) (w :: 'a::len word)"
proof (induction n arbitrary: w)
  case 0
  then show ?case by (simp add: be_decode_def)
next
  case (Suc n)
  have "be_decode (be_encode (Suc n) w)
      = push_bit 8 (take_bit (8 * n) (drop_bit 8 w)) OR (ucast (ucast w :: u8) :: 'a word)"
    by (simp add: be_encode_snoc be_decode_snoc Suc.IH del: be_encode.simps)
  also have "\<dots> = take_bit (8 * Suc n) w"
    by (rule bit_word_eqI) (auto simp: bit_simps)
  finally show ?case .
qed

lemma be_decode_encode_full [simp]:
  "8 * n = LENGTH('a) \<Longrightarrow> be_decode (be_encode n w) = (w :: 'a::len word)"
  by (simp add: be_decode_encode take_bit_word_eq_self)

lemma drop_bit_decode_snoc:
  assumes "8 \<le> LENGTH('a)" "8 * Suc (length bs) \<le> LENGTH('a)"
    and "be_encode (length bs) (be_decode bs :: 'a::len word) = bs"
    and "take_bit (8 * length bs) (be_decode bs :: 'a word) = be_decode bs"
  shows "drop_bit 8 (be_decode (bs @ [b]) :: 'a word) = be_decode bs"
    and "ucast (be_decode (bs @ [b]) :: 'a word) = b"
proof -
  have "drop_bit 8 (push_bit 8 (take_bit (8 * length bs) (be_decode bs)) OR ucast b :: 'a word)
      = take_bit (8 * length bs) (be_decode bs)"
    using assms(1,2) by (intro bit_word_eqI) (auto simp: bit_simps dest: bit_imp_le_length)
  then show "drop_bit 8 (be_decode (bs @ [b]) :: 'a word) = be_decode bs"
    by (simp add: be_decode_snoc assms(4))
  show "ucast (be_decode (bs @ [b]) :: 'a word) = b"
    unfolding be_decode_snoc using assms(1) by (intro bit_word_eqI) (auto simp: bit_simps)
qed

lemma take_bit_be_decode:
  "8 * length bs \<le> LENGTH('a) \<Longrightarrow> take_bit (8 * length bs) (be_decode bs :: 'a::len word) = be_decode bs"
proof (induction bs rule: rev_induct)
  case Nil
  then show ?case by (simp add: be_decode_def)
next
  case (snoc b bs)
  then have IH: "take_bit (8 * length bs) (be_decode bs :: 'a word) = be_decode bs" by simp
  have "take_bit (8 * Suc (length bs)) (push_bit 8 (take_bit (8 * length bs) (be_decode bs)) OR ucast b :: 'a word)
      = push_bit 8 (take_bit (8 * length bs) (be_decode bs)) OR ucast b"
    by (rule bit_word_eqI) (auto simp: bit_simps dest: bit_imp_le_length)
  then show ?case by (simp add: be_decode_snoc IH)
qed

lemma be_encode_decode:
  "8 * length bs \<le> LENGTH('a) \<Longrightarrow> be_encode (length bs) (be_decode bs :: 'a::len word) = bs"
proof (induction bs rule: rev_induct)
  case Nil
  then show ?case by simp
next
  case (snoc b bs)
  then have IH: "be_encode (length bs) (be_decode bs :: 'a word) = bs" by simp
  have "8 \<le> LENGTH('a)" using snoc.prems by simp
  note parts = drop_bit_decode_snoc [where bs = bs and b = b, OF this _ IH take_bit_be_decode]
  show ?case using snoc.prems
    by (simp add: be_encode_snoc parts IH del: be_encode.simps)
qed

lemma be_decode_inject:
  assumes "length xs = n" "length ys = n" "8 * n \<le> LENGTH('a)"
    and "(be_decode xs :: 'a::len word) = be_decode ys"
  shows "xs = ys"
  using assms be_encode_decode [of xs, where 'a = 'a] be_encode_decode [of ys, where 'a = 'a] by simp

lemma be_encode_numeral:
  "be_encode (numeral k) w = ucast (drop_bit (8 * pred_numeral k) w) # be_encode (pred_numeral k) w"
  by (simp add: numeral_eq_Suc)

lemma be_encode_2: "be_encode 2 w = [ucast (drop_bit 8 w), ucast w]"
  by (simp add: numeral_2_eq_2)

lemma be_encode_4: "be_encode 4 w = [ucast (drop_bit 24 w), ucast (drop_bit 16 w), ucast (drop_bit 8 w), ucast w]"
  by (simp add: eval_nat_numeral)

lemma take_bit_small: "unat w < 2 ^ n \<Longrightarrow> take_bit n w = (w :: 'a::len word)"
  by (simp add: word_unat_eq_iff unsigned_take_bit_eq take_bit_nat_eq_self)

lemma unat_of_nat_small: "n < 2 ^ LENGTH('a) \<Longrightarrow> unat (of_nat n :: 'a::len word) = n"
  by (simp add: unat_of_nat take_bit_nat_eq_self)

lemma bit_small: "unat (w :: 'a::len word) < 2 ^ n \<Longrightarrow> bit w k \<Longrightarrow> k < n"
  using take_bit_small [of w n] by (metis bit_take_bit_iff)

end
