(* ===== verification/Errors.thy ===== *)
theory Errors
  imports Prelude
begin

text \<open>
  The error codes of the sources: one datatype per \<open>enum class\<close> and their union, the values a
  \<open>std::error_code\<close> can take in this program.  The \<open>ok\<close> members of the enumerations are never
  returned as errors and have no constructor here.  \<open>ValueRequired\<close> is the error that
  \<open>Maybe::require\<close> makes of an absent value; \<open>SystemError\<close> stands for the numeric codes of the
  operating system and \<open>NapiError\<close> for those of the JavaScript engine.  The codes of OpenSSL come in two
  categories, one of the library and one of the bindings.  The context strings that \<open>add_context\<close> attaches to an error on its way are not part of its code and
  do not appear.
\<close>

datatype parse_error =
    invalid_message_size
  | not_padded_attributes
  | invalid_message_len
  | invalid_magic_cookie
  | invalid_attr_size
  | invalid_mapped_addr
  | invalid_xor_mapped_addr
  | invalid_ipv4_address_size
  | invalid_ipv6_address_size
  | integrity_digest_size
  | fingerprint_crc_size
  | fingerprint_is_not_last
  | fingerprint_not_valid
  | priority_attribute_size
  | ice_controlled_size
  | ice_controlling_size
  | use_candidate_size
  | error_code_attribute_size
  | unknown_attributes_attribute_size
  | unknown_addr_family

datatype client_error =
    no_integrity_attribute_in_response
  | digest_is_not_valid
  | transaction_not_found
  | no_address_in_response
  | no_error_code_in_response
  | no_alternate_server_in_response

datatype net_error =
    invalid_address_size
  | ip_address_parse_error
  | fqdn_invalid_label_expect_letter
  | fqdn_not_fully_parsed
  | invalid_port_value

datatype rtp_error =
    packet_is_too_short
  | unknown_packet_version
  | invalid_payload_type
  | unknown_rtp_clock
  | invalid_extension_length
  | invalid_packet_padding

datatype token_error =
    no_required_token
  | expected_token_missed

datatype ice_error =
    invalid_attr_prefix
  | invalid_candidate_parts_number
  | candidate_type_absent
  | unknown_candidate_type
  | invalid_foundation_length
  | invalid_foundation_char
  | invalid_component_id_length
  | invalid_component_id_char
  | invalid_component_id_value
  | unknown_transport_type
  | invalid_priority_length
  | invalid_priority_value
  | invalid_type_preference_value
  | invalid_component_preference_value
  | invalid_local_preference_value

datatype node_error =
    unknown_stun_method
  | unknown_stun_class
  | invalid_ip_address
  | invalid_port_number

datatype error =
    ParseError parse_error
  | ClientError client_error
  | NetError net_error
  | RtpError rtp_error
  | TokenError token_error
  | IceError ice_error
  | NodeError node_error
  | ValueRequired
  | SystemError int
  | OpenSSLError int
  | NodeOpenSSLError int
  | NapiError int

type_synonym 'a result = "error + 'a"

end
