(* ===== verification/Clock.thy ===== *)
theory Clock
  imports Errors
begin

text \<open>
  Counters (\<open>stat/stat_counter.hpp\<close>), the wrapping timepoint (\<open>clock/clock_timepoint.hpp\<close>) and
  the converter from a standard clock (\<open>clock/clock_std.hpp\<close>).  A timepoint is its 64-bit count
  of microseconds; a \<open>Duration\<close> is a signed 64-bit count, written here as the integer it denotes:
  it enters a timepoint through \<open>word_of_int\<close> and leaves through \<open>sint\<close>, as the conversions of
  \<open>std::chrono\<close> do.
\<close>

section \<open>Counters\<close>

type_synonym counter = u32

definition inc :: "counter \<Rightarrow> counter" where
  "inc c = c + 1"

section \<open>Timepoints\<close>

type_synonym timepoint = u64
type_synonym duration = int

definition base_max :: u64 where
  "base_max = - 1"

definition epoch :: timepoint where
  "epoch = 0"

definition is_after :: "timepoint \<Rightarrow> timepoint \<Rightarrow> bool" where
  "is_after t other \<longleftrightarrow> other - t > base_max div 2"

definition is_before :: "timepoint \<Rightarrow> timepoint \<Rightarrow> bool" where
  "is_before t other \<longleftrightarrow> t - other > base_max div 2"

definition advance :: "timepoint \<Rightarrow> duration \<Rightarrow> timepoint" where
  "advance t d = t + word_of_int d"

definition tp_minus :: "timepoint \<Rightarrow> timepoint \<Rightarrow> duration" where
  "tp_minus t other =
     (if is_after t other then sint (t - other) else sint (- (other - t)))"

definition advance_from :: "u64 \<Rightarrow> timepoint \<Rightarrow> duration \<Rightarrow> timepoint \<times> duration" where
  \<comment> \<open>the clock's own duration has \<open>ticks\<close> ticks per microsecond; the casts compute unsigned\<close>
  "advance_from ticks t d =
     (let adv = word_of_int d div ticks
      in (t + adv, d - sint (adv * ticks)))"

lemma base_max_half: "base_max div 2 = 9223372036854775807"
  by (simp add: base_max_def)

lemma gt_half_iff_neg: "(9223372036854775807 :: u64) < w \<longleftrightarrow> sint w < 0"
proof -
  have "sint w < 0 \<longleftrightarrow> bit w 63"
    using bit_last_iff [of w] by simp
  also have "\<dots> \<longleftrightarrow> 2 ^ 63 \<le> uint w"
  proof -
    have w: "uint w < 2 ^ 64" using uint_lt2p [of w] by simp
    have "bit w 63 \<longleftrightarrow> bit (uint w) 63" by (simp add: bit_uint_iff)
    also have "\<dots> \<longleftrightarrow> odd (uint w div 2 ^ 63)" by (simp only: bit_iff_odd)
    also have "\<dots> \<longleftrightarrow> 2 ^ 63 \<le> uint w"
    proof (cases "2 ^ 63 \<le> uint w")
      case True
      then have "uint w div 2 ^ 63 = 1"
        using w by (intro int_div_pos_eq [of _ _ _ "uint w - 2 ^ 63"]) auto
      with True show ?thesis by simp
    next
      case False
      then show ?thesis by (simp add: div_pos_pos_trivial)
    qed
    finally show ?thesis .
  qed
  finally have "sint w < 0 \<longleftrightarrow> 2 ^ 63 \<le> uint w" .
  moreover have "(9223372036854775807 :: u64) < w \<longleftrightarrow> 9223372036854775807 < uint w"
    by (simp add: word_less_def)
  ultimately show ?thesis by auto
qed

lemma is_after_sint: "is_after t u \<longleftrightarrow> sint (u - t) < 0"
  by (simp add: is_after_def base_max_half gt_half_iff_neg)

lemma is_before_sint: "is_before t u \<longleftrightarrow> sint (t - u) < 0"
  by (simp add: is_before_def base_max_half gt_half_iff_neg)

lemma is_before_is_after: "is_before t u \<longleftrightarrow> is_after u t"
  by (simp add: is_before_sint is_after_sint)

lemma tp_minus_eq: "tp_minus t u = sint (t - u)"
  by (simp add: tp_minus_def)

lemma sint_word_of_int_64:
  "- (2 ^ 63) \<le> d \<Longrightarrow> d < 2 ^ 63 \<Longrightarrow> sint (word_of_int d :: u64) = d"
  by (simp add: signed_of_int signed_take_bit_int_eq_self)

lemma sint_neg_word_of_int_64:
  "- (2 ^ 63) < d \<Longrightarrow> d < 2 ^ 63 \<Longrightarrow> sint (- word_of_int d :: u64) = - d"
  using sint_word_of_int_64 [of "- d"] by simp

lemma is_after_irrefl [simp]: "\<not> is_after t t"
  by (simp add: is_after_sint)

lemma is_after_advance:
  assumes "- (2 ^ 63) < d" "d < 2 ^ 63"
  shows "is_after (advance t d) t \<longleftrightarrow> 0 < d"
  using sint_neg_word_of_int_64 [OF assms] by (simp add: is_after_sint advance_def)

lemma is_after_advance_rev:
  assumes "- (2 ^ 63) \<le> d" "d < 2 ^ 63"
  shows "is_after t (advance t d) \<longleftrightarrow> d < 0"
  using sint_word_of_int_64 [OF assms] by (simp add: is_after_sint advance_def)

lemma advance_advance: "advance (advance t a) b = advance t (a + b)"
  by (simp add: advance_def)

lemma advance_0 [simp]: "advance t 0 = t"
  by (simp add: advance_def)

lemma advance_tp_minus: "advance u (tp_minus t u) = t"
  by (simp add: advance_def tp_minus_eq)

section \<open>The converter from a standard clock\<close>

text \<open>
  \<open>ChronoClockConverter\<close> keeps the last reading of the underlying clock, the part of it that is
  below a microsecond and the timepoint.  The readings of the clock are the argument of the
  operations.
\<close>

record converter =
  cc_prev :: duration
  cc_reminder :: duration
  cc_now :: timepoint

definition converter_init :: "u64 \<Rightarrow> duration \<Rightarrow> converter" where
  "converter_init ticks clock_now =
     (let reminder = clock_now - 0;
          (now, rest) = advance_from ticks epoch reminder
      in \<lparr>cc_prev = clock_now, cc_reminder = rest, cc_now = now\<rparr>)"

definition converter_now :: "u64 \<Rightarrow> duration \<Rightarrow> converter \<Rightarrow> converter \<times> timepoint" where
  "converter_now ticks clock_now c =
     (let reminder = cc_reminder c + (clock_now - cc_prev c);
          (now, rest) = advance_from ticks (cc_now c) reminder
      in (\<lparr>cc_prev = clock_now, cc_reminder = rest, cc_now = now\<rparr>, now))"

fun converter_run :: "u64 \<Rightarrow> converter \<Rightarrow> duration list \<Rightarrow> converter" where
  "converter_run ticks c [] = c"
| "converter_run ticks c (r # rs) = converter_run ticks (fst (converter_now ticks r c)) rs"

definition converter_tracks :: "u64 \<Rightarrow> duration \<Rightarrow> converter \<Rightarrow> bool" where
  "converter_tracks ticks r c \<longleftrightarrow>
     c = \<lparr>cc_prev = r, cc_reminder = r mod uint ticks, cc_now = word_of_int (r div uint ticks)\<rparr>"

text \<open>One advance with a non-negative duration in range is integer division with remainder.\<close>

lemma advance_from_div_mod:
  assumes d: "0 \<le> d" "d < 2 ^ 63" and k: "ticks \<noteq> 0"
  shows "advance_from ticks t d = (t + word_of_int (d div uint ticks), d mod uint ticks)"
proof -
  let ?k = "uint ticks"
  have kpos: "0 < ?k" using k uint_ge_0 [of ticks] by (metis less_le uint_0_iff)
  have dw: "uint (word_of_int d :: u64) = d"
    using d by (simp add: uint_word_of_int_eq take_bit_int_eq_self)
  have adv: "(word_of_int d :: u64) div ticks = word_of_int (d div ?k)"
    by (simp add: word_div_def dw)
  have "d div ?k * ?k + d mod ?k = d" by simp
  moreover have "0 \<le> d mod ?k" using kpos by simp
  ultimately have le: "d div ?k * ?k \<le> d" by linarith
  have ge: "0 \<le> d div ?k * ?k"
    using kpos d by (simp add: pos_imp_zdiv_nonneg_iff)
  have "sint ((word_of_int d :: u64) div ticks * ticks) = d div ?k * ?k"
  proof -
    have "(word_of_int d :: u64) div ticks * ticks = word_of_int (d div ?k * ?k)"
      unfolding adv by (simp add: of_int_mult)
    then show ?thesis using sint_word_of_int_64 [of "d div ?k * ?k"] le ge d by simp
  qed
  then show ?thesis
    by (simp add: advance_from_def Let_def adv minus_div_mult_eq_mod)
qed

lemma converter_init_tracks:
  assumes "0 \<le> r" "r < 2 ^ 63" "ticks \<noteq> 0"
  shows "converter_tracks ticks r (converter_init ticks r)"
  using assms by (simp add: converter_init_def converter_tracks_def advance_from_div_mod epoch_def)

lemma converter_now_tracks:
  assumes c: "converter_tracks ticks r c" and r: "0 \<le> r" "r \<le> r'" "r' < 2 ^ 63" and k: "ticks \<noteq> 0"
  shows "converter_tracks ticks r' (fst (converter_now ticks r' c))"
proof -
  let ?k = "uint ticks"
  have kpos: "0 < ?k" using k uint_ge_0 [of ticks] by (metis less_le uint_0_iff)
  let ?q = "r div ?k" and ?m = "r mod ?k"
  have rdm: "r = ?q * ?k + ?m" by simp
  have m: "0 \<le> ?m" using kpos by simp
  have q: "0 \<le> ?q" using kpos r by (simp add: pos_imp_zdiv_nonneg_iff)
  have qk: "0 \<le> ?q * ?k" using q kpos by simp
  define d where "d = ?m + (r' - r)"
  have d_eq: "d = r' - ?q * ?k" using rdm unfolding d_def by linarith
  have d: "0 \<le> d" "d < 2 ^ 63" using m r qk unfolding d_def by (linarith, use d_eq qk r in \<open>simp add: d_def\<close>)
  have "r' = d + ?q * ?k" by (simp add: d_eq)
  then have div: "?q + d div ?k = r' div ?k" and mod: "d mod ?k = r' mod ?k"
    using kpos by simp_all
  have "advance_from ticks (cc_now c) d = (word_of_int (r' div ?k), r' mod ?k)"
    using c by (simp add: advance_from_div_mod [OF d k] converter_tracks_def mod flip: div of_int_add)
  then show ?thesis
    using c by (simp add: converter_now_def converter_tracks_def d_def Let_def)
qed

lemma converter_run_tracks:
  assumes "converter_tracks ticks r c" "0 \<le> r" "sorted (r # rs)" "\<forall>x \<in> set rs. x < 2 ^ 63" "ticks \<noteq> 0"
  shows "converter_tracks ticks (last (r # rs)) (converter_run ticks c rs)"
  using assms
proof (induction rs arbitrary: r c)
  case Nil
  then show ?case by simp
next
  case (Cons x xs)
  then have "converter_tracks ticks x (fst (converter_now ticks x c))"
    by (intro converter_now_tracks [of ticks r]) auto
  then show ?case using Cons.prems Cons.IH [of x "fst (converter_now ticks x c)"] by auto
qed

section \<open>Properties\<close>

text \<open>
  C31.  As long as two timepoints are less than half of the 64-bit range apart, the wrapping
  comparison agrees with the order of the durations they were advanced by and the difference of the
  timepoints is the exact difference of the durations, also across the wrap-around.
\<close>

theorem timepoint_order_and_difference:
  assumes "\<bar>a - b\<bar> < 2 ^ 63"
  shows "(is_after (advance t a) (advance t b) \<longleftrightarrow> b < a)
    \<and> (is_before (advance t a) (advance t b) \<longleftrightarrow> a < b)
    \<and> tp_minus (advance t a) (advance t b) = a - b"
proof -
  have diff: "sint (advance t x - advance t y) = x - y" if "\<bar>x - y\<bar> < 2 ^ 63" for x y
  proof -
    have "advance t x - advance t y = word_of_int (x - y)" by (simp add: advance_def)
    then show ?thesis using that sint_word_of_int_64 [of "x - y"] by simp
  qed
  have "sint (advance t a - advance t b) = a - b" "sint (advance t b - advance t a) = b - a"
    using diff [of a b] diff [of b a] assms by (simp_all add: abs_minus_commute)
  then show ?thesis by (simp add: is_after_sint is_before_sint tp_minus_eq)
qed

theorem timepoint_order_and_difference_witness:
  "\<bar>5 - (- 3 :: int)\<bar> < 2 ^ 63 \<and> is_after (advance 1 5) (advance 1 (- 3))
    \<and> tp_minus (advance 1 5) (advance 1 (- 3)) = 8"
  using timepoint_order_and_difference [of 5 "- 3" 1] by simp

text \<open>
  Two timepoints claim to be after each other exactly when they are half of the 64-bit range
  apart: there, and only there, the timeline order is not antisymmetric.
\<close>

theorem timepoint_after_both_ways:
  "is_after t u \<and> is_after u t \<longleftrightarrow> t - u = 9223372036854775808"
proof -
  have neg: "u - t = - (t - u)" by simp
  have "sint (- w) < 0 \<and> sint w < 0 \<longleftrightarrow> w = 9223372036854775808" for w :: u64
  proof
    assume "sint (- w) < 0 \<and> sint w < 0"
    moreover have "sint (- w) = - sint w" if "sint w \<noteq> - (2 ^ 63)"
      using that sint_neg_word_of_int_64 [of "sint w"] sint_ge [of w] sint_lt [of w] by simp
    ultimately have "sint w = - (2 ^ 63)" by linarith
    then have "word_of_int (sint w) = (word_of_int (- (2 ^ 63)) :: u64)" by simp
    then show "w = 9223372036854775808" by simp
  qed simp
  then show ?thesis by (simp only: is_after_sint neg)
qed

text \<open>
  C32.  The converter from a standard clock does not drift: after any sequence of non-decreasing
  readings its timepoint is the last reading divided by the ticks per microsecond, and the part
  that is kept back is the remainder of that division.
\<close>

theorem converter_no_drift:
  assumes "ticks \<noteq> 0" "0 \<le> r" "r < 2 ^ 63" "sorted (r # rs)" "\<forall>x \<in> set rs. x < 2 ^ 63"
  shows "cc_now (converter_run ticks (converter_init ticks r) rs) = word_of_int (last (r # rs) div uint ticks)
    \<and> cc_reminder (converter_run ticks (converter_init ticks r) rs) = last (r # rs) mod uint ticks"
proof -
  have "converter_tracks ticks (last (r # rs)) (converter_run ticks (converter_init ticks r) rs)"
    using assms by (intro converter_run_tracks converter_init_tracks) auto
  then show ?thesis by (simp add: converter_tracks_def)
qed

theorem converter_no_drift_witness:
  "cc_now (converter_run 1000 (converter_init 1000 2500) [2900, 4100]) = 4
    \<and> cc_reminder (converter_run 1000 (converter_init 1000 2500) [2900, 4100]) = 100"
  using converter_no_drift [of 1000 2500 "[2900, 4100]"] by simp

end
