(* ===== verification/Binary_View.thy ===== *)
theory Binary_View
  imports Errors
begin

text \<open>
  The byte-view interface.  \<open>util/util_binary_view.hpp\<close>, \<open>util/util_endian.hpp\<close> and
  \<open>util/util_result.hpp\<close> only re-export classes of the external package \<open>craftpp\<close>, whose code
  is not part of the repository.  Its operations are therefore a parameter of every definition
  that reads or writes bytes: a record \<open>craftpp\<close> of functions, and the locale \<open>binary_view\<close> that
  states what the sources rely on.  Where the sources do not settle a case (a one-argument
  \<open>subview\<close> at exactly the end of the view, an unchecked \<open>assured_\<close> read outside the view, which
  of several errors \<open>combine\<close> keeps, what a view reads whose object is gone) the contract leaves it open.

  \<open>concat\<close> is modelled from \<open>util/util_binary_view.cpp\<close>, the text of it that the repository has (the
  build takes the one of the package); the host/network conversions appear as
  the bytes in memory of a converted integer, because the sources only ever take such an integer
  as a byte view.
\<close>

record interval =
  i_offset :: nat
  i_count :: nat

record craftpp =
  read_u8 :: "bytes \<Rightarrow> nat \<Rightarrow> u8 option"
  read_u16be :: "bytes \<Rightarrow> nat \<Rightarrow> u16 option"
  read_u32be :: "bytes \<Rightarrow> nat \<Rightarrow> u32 option"
  read_u64be :: "bytes \<Rightarrow> nat \<Rightarrow> u64 option"
  assured_read_u8 :: "bytes \<Rightarrow> nat \<Rightarrow> u8"
  assured_read_u16be :: "bytes \<Rightarrow> nat \<Rightarrow> u16"
  assured_read_u32be :: "bytes \<Rightarrow> nat \<Rightarrow> u32"
  subview_from :: "bytes \<Rightarrow> nat \<Rightarrow> bytes option"
  subview :: "bytes \<Rightarrow> interval \<Rightarrow> bytes option"
  assured_subview :: "bytes \<Rightarrow> nat \<Rightarrow> nat \<Rightarrow> bytes"
  view_contains :: "bytes \<Rightarrow> interval \<Rightarrow> bool"
  net_u16 :: "u16 \<Rightarrow> bytes"
  net_u32 :: "u32 \<Rightarrow> bytes"
  net_u64 :: "u64 \<Rightarrow> bytes"
  pick_err :: "error list \<Rightarrow> error"
  stale_view :: "bytes \<Rightarrow> bytes" \<comment> \<open>what a view reads after the object it was made of is destroyed\<close>

definition interval_in :: "bytes \<Rightarrow> interval \<Rightarrow> bool" where
  "interval_in v iv \<longleftrightarrow> i_offset iv + i_count iv \<le> length v"

definition slice :: "bytes \<Rightarrow> nat \<Rightarrow> nat \<Rightarrow> bytes" where
  "slice v off n = take n (drop off v)"

fun view_concat :: "bytes list \<Rightarrow> bytes" where
  "view_concat [] = []"
| "view_concat (v # vs) = v @ view_concat vs"

lemma view_concat_eq [simp]: "view_concat vs = concat vs"
  by (induction vs) simp_all

definition combine2 :: "craftpp \<Rightarrow> ('a \<Rightarrow> 'b \<Rightarrow> 'c result) \<Rightarrow> 'a result \<Rightarrow> 'b result \<Rightarrow> 'c result" where
  "combine2 cv f a b =
     (case (a, b) of
        (Inr x, Inr y) \<Rightarrow> f x y
      | _ \<Rightarrow> Inl (pick_err cv (err_list a @ err_list b)))"

definition combine3 ::
    "craftpp \<Rightarrow> ('a \<Rightarrow> 'b \<Rightarrow> 'c \<Rightarrow> 'd result) \<Rightarrow> 'a result \<Rightarrow> 'b result \<Rightarrow> 'c result \<Rightarrow> 'd result" where
  "combine3 cv f a b c =
     (case (a, b, c) of
        (Inr x, Inr y, Inr z) \<Rightarrow> f x y z
      | _ \<Rightarrow> Inl (pick_err cv (err_list a @ err_list b @ err_list c)))"

lemma combine2_Inr [simp]: "combine2 cv f (Inr x) (Inr y) = f x y"
  by (simp add: combine2_def)

lemma combine3_Inr [simp]: "combine3 cv f (Inr x) (Inr y) (Inr z) = f x y z"
  by (simp add: combine3_def)

lemma combine2_eq_Inr: "combine2 cv f a b = Inr r \<longleftrightarrow> (\<exists>x y. a = Inr x \<and> b = Inr y \<and> f x y = Inr r)"
  by (cases a; cases b) (simp_all add: combine2_def)

lemma combine3_eq_Inr:
  "combine3 cv f a b c = Inr r \<longleftrightarrow> (\<exists>x y z. a = Inr x \<and> b = Inr y \<and> c = Inr z \<and> f x y z = Inr r)"
  by (cases a; cases b; cases c) (simp_all add: combine3_def)

section \<open>The contract\<close>

locale binary_view =
  fixes cv :: craftpp
  assumes read_u8_eq: "read_u8 cv v i = (if i + 1 \<le> length v then Some (v ! i) else None)"
    and read_u16be_eq: "read_u16be cv v i = (if i + 2 \<le> length v then Some (be_decode (slice v i 2)) else None)"
    and read_u32be_eq: "read_u32be cv v i = (if i + 4 \<le> length v then Some (be_decode (slice v i 4)) else None)"
    and read_u64be_eq: "read_u64be cv v i = (if i + 8 \<le> length v then Some (be_decode (slice v i 8)) else None)"
    and assured_read_u8_eq: "i + 1 \<le> length v \<Longrightarrow> assured_read_u8 cv v i = v ! i"
    and assured_read_u16be_eq: "i + 2 \<le> length v \<Longrightarrow> assured_read_u16be cv v i = be_decode (slice v i 2)"
    and assured_read_u32be_eq: "i + 4 \<le> length v \<Longrightarrow> assured_read_u32be cv v i = be_decode (slice v i 4)"
    and subview_from_in: "i < length v \<Longrightarrow> subview_from cv v i = Some (drop i v)"
    and subview_from_end: "subview_from cv v (length v) \<in> {None, Some []}"
    and subview_from_out: "length v < i \<Longrightarrow> subview_from cv v i = None"
    and subview_eq: "subview cv v iv = (if interval_in v iv then Some (slice v (i_offset iv) (i_count iv)) else None)"
    and assured_subview_eq: "i + n \<le> length v \<Longrightarrow> assured_subview cv v i n = slice v i n"
    and view_contains_eq: "view_contains cv v iv = interval_in v iv"
    and net_u16_eq: "net_u16 cv w16 = be_encode 2 w16"
    and net_u32_eq: "net_u32 cv w32 = be_encode 4 w32"
    and net_u64_eq: "net_u64 cv w64 = be_encode 8 w64"
    and pick_err_in: "es \<noteq> [] \<Longrightarrow> pick_err cv es \<in> set es"
    and stale_view_length: "length (stale_view cv v) = length v"
begin

lemmas reads [view_simps] = read_u8_eq read_u16be_eq read_u32be_eq read_u64be_eq
  assured_read_u8_eq assured_read_u16be_eq assured_read_u32be_eq
  subview_from_in subview_from_out subview_eq assured_subview_eq view_contains_eq
  net_u16_eq net_u32_eq net_u64_eq

lemma subview_from_cases:
  obtains (inside) "i < length v" "subview_from cv v i = Some (drop i v)"
  | (at_end) "i = length v" "subview_from cv v i = None \<or> subview_from cv v i = Some []"
  | (outside) "length v < i" "subview_from cv v i = None"
  using subview_from_in subview_from_end subview_from_out
  by (cases i "length v" rule: linorder_cases) auto

lemma subview_from_Some:
  assumes "subview_from cv v i = Some w"
  shows "i \<le> length v \<and> w = drop i v"
  using assms by (cases rule: subview_from_cases [of i v]) auto

lemma combine2_err:
  assumes "combine2 cv f a b = Inl e"
  shows "a = Inl e \<or> b = Inl e \<or> (\<exists>x y. a = Inr x \<and> b = Inr y \<and> f x y = Inl e)"
  using assms pick_err_in [of "err_list a @ err_list b"]
  by (cases a; cases b) (auto simp: combine2_def)

lemma combine3_err:
  assumes "combine3 cv f a b c = Inl e"
  shows "a = Inl e \<or> b = Inl e \<or> c = Inl e
    \<or> (\<exists>x y z. a = Inr x \<and> b = Inr y \<and> c = Inr z \<and> f x y z = Inl e)"
  using assms pick_err_in [of "err_list a @ err_list b @ err_list c"]
  by (cases a; cases b; cases c) (auto simp: combine3_def)

end

section \<open>A model of the contract\<close>

definition list_view :: craftpp where
  "list_view = \<lparr>
     read_u8 = (\<lambda>v i. if i + 1 \<le> length v then Some (v ! i) else None),
     read_u16be = (\<lambda>v i. if i + 2 \<le> length v then Some (be_decode (slice v i 2)) else None),
     read_u32be = (\<lambda>v i. if i + 4 \<le> length v then Some (be_decode (slice v i 4)) else None),
     read_u64be = (\<lambda>v i. if i + 8 \<le> length v then Some (be_decode (slice v i 8)) else None),
     assured_read_u8 = (\<lambda>v i. v ! i),
     assured_read_u16be = (\<lambda>v i. be_decode (slice v i 2)),
     assured_read_u32be = (\<lambda>v i. be_decode (slice v i 4)),
     subview_from = (\<lambda>v i. if i \<le> length v then Some (drop i v) else None),
     subview = (\<lambda>v iv. if interval_in v iv then Some (slice v (i_offset iv) (i_count iv)) else None),
     assured_subview = slice,
     view_contains = interval_in,
     net_u16 = be_encode 2,
     net_u32 = be_encode 4,
     net_u64 = be_encode 8,
     pick_err = hd,
     stale_view = map (\<lambda>_. 0)\<rparr>"

interpretation lv: binary_view list_view
  by unfold_locales (auto simp: list_view_def)

lemma binary_view_list_view: "binary_view list_view"
  by (rule lv.binary_view_axioms)

section \<open>Slices\<close>

lemma length_slice [simp]: "off + n \<le> length v \<Longrightarrow> length (slice v off n) = n"
  by (simp add: slice_def)

lemma slice_append_mid: "length xs = off \<Longrightarrow> length ys = n \<Longrightarrow> slice (xs @ ys @ zs) off n = ys"
  by (simp add: slice_def)

lemma slice_prefix: "n \<le> length xs \<Longrightarrow> slice (xs @ ys) 0 n = take n xs"
  by (simp add: slice_def)

lemma slice_all: "slice v 0 (length v) = v"
  by (simp add: slice_def)

end
