(* ===== verification/Net.thy ===== *)
theory Net
  imports Binary_View
begin

text \<open>
  Network addresses: \<open>net/ip/details/ip_address_tpl.hpp\<close>, \<open>net/ip/ip_address.hpp\<close>,
  \<open>net/net_endpoint.hpp\<close> and \<open>net/net_path.hpp\<close>.  A port (\<open>net/net_port.hpp\<close>) is its 16-bit
  value.  The fixed size of the address arrays, a fact of the C++ types, is the predicate
  \<open>address_wf\<close>.
\<close>

type_synonym port = u16

datatype address = AddressV4 bytes | AddressV6 bytes

definition addr_from_view :: "nat \<Rightarrow> bytes \<Rightarrow> bytes result" where
  "addr_from_view sz vv =
     (if length vv \<noteq> sz then Inl (NetError invalid_address_size) else Inr vv)"

abbreviation v4_size :: nat where "v4_size \<equiv> 4"
abbreviation v6_size :: nat where "v6_size \<equiv> 16"

fun address_view :: "address \<Rightarrow> bytes" where
  "address_view (AddressV4 v) = v"
| "address_view (AddressV6 v) = v"

fun address_wf :: "address \<Rightarrow> bool" where
  "address_wf (AddressV4 v) \<longleftrightarrow> length v = v4_size"
| "address_wf (AddressV6 v) \<longleftrightarrow> length v = v6_size"

record generic_endpoint =
  ep_address :: address
  ep_port :: port

type_synonym udp_endpoint = generic_endpoint

datatype endpoint = UdpEndpoint generic_endpoint | TcpEndpoint generic_endpoint

fun is_udp :: "endpoint \<Rightarrow> bool" where
  "is_udp (UdpEndpoint _) = True"
| "is_udp (TcpEndpoint _) = False"

fun endpoint_address :: "endpoint \<Rightarrow> address" where
  "endpoint_address (UdpEndpoint ep) = ep_address ep"
| "endpoint_address (TcpEndpoint ep) = ep_address ep"

fun endpoint_port :: "endpoint \<Rightarrow> port" where
  "endpoint_port (UdpEndpoint ep) = ep_port ep"
| "endpoint_port (TcpEndpoint ep) = ep_port ep"

record path =
  p_source :: address
  p_target :: address

lemma addr_from_view_Inr [simp]: "addr_from_view n v = Inr w \<longleftrightarrow> w = v \<and> length v = n"
  by (auto simp: addr_from_view_def)

lemma addr_from_view_Inl: "addr_from_view n v = Inl e \<Longrightarrow> e = NetError invalid_address_size"
  by (auto simp: addr_from_view_def split: if_splits)

end
