(* ===== verification/Crypto.thy ===== *)
theory Crypto
  imports Binary_View
begin

text \<open>
  HMAC and its users: \<open>crypto/crypto_hash.hpp\<close>, \<open>crypto/crypto_hmac.hpp\<close>,
  \<open>stun/stun_password.cpp\<close>, \<open>stun/stun_integrity.hpp\<close> and \<open>crypto/openssl/openssl_hash.cpp\<close>.
  The hash function is a value that the sources pass around (\<open>SHA1Hash::Func\<close>), here a function
  from a list of views to a result.  Locale \<open>sha1_function\<close> is its contract; the OpenSSL wrapper
  provides it from the contract of the EVP functions, which are outside the repository.
\<close>

type_synonym hash_func = "bytes list \<Rightarrow> bytes result"

abbreviation sha1_size :: nat where "sha1_size \<equiv> 20"
abbreviation pad_block :: nat where "pad_block \<equiv> 64"

definition hash_from_view :: "nat \<Rightarrow> bytes \<Rightarrow> bytes option" where
  "hash_from_view sz vv = (if length vv \<noteq> sz then None else Some vv)"

section \<open>HMAC\<close>

definition pad_key_init :: "u8 \<Rightarrow> bytes \<Rightarrow> bytes" where
  "pad_key_init xorv d = map (\<lambda>v. v XOR xorv) d"

text \<open>
  A key longer than a block is hashed, and the lambda returns a view of the hash value that it got as its
  argument.  The value is destroyed before the view is copied: what is copied are the octets that are
  found there then, \<open>stale_view\<close>.
\<close>

definition pad_key_from_key :: "craftpp \<Rightarrow> u8 \<Rightarrow> bytes \<Rightarrow> hash_func \<Rightarrow> bytes result" where
  "pad_key_from_key cv xorv view h =
     rmap (\<lambda>v. pad_key_init xorv (v @ replicate (pad_block - length v) 0))
       (if length view > pad_block then rmap (stale_view cv) (h [view]) else Inr view)"

abbreviation ipad_xor :: u8 where "ipad_xor \<equiv> 0x36"
abbreviation opad_xor :: u8 where "opad_xor \<equiv> 0x5C"

definition hmac_digest :: "bytes list \<Rightarrow> bytes \<Rightarrow> bytes \<Rightarrow> hash_func \<Rightarrow> bytes result" where
  "hmac_digest d opad ipad h = rbind (h (ipad # d)) (\<lambda>inner. h [opad, inner])"

section \<open>Passwords and integrity data\<close>

record password =
  pw_ipad :: bytes
  pw_opad :: bytes

text \<open>Both pad keys come from the same call of the hash, so \<open>combine\<close> has one error to choose from.\<close>

definition short_term :: "craftpp \<Rightarrow> bytes \<Rightarrow> hash_func \<Rightarrow> password result" where
  "short_term cv pwd h =
     (case (pad_key_from_key cv ipad_xor pwd h, pad_key_from_key cv opad_xor pwd h) of
        (Inr i, Inr o') \<Rightarrow> Inr \<lparr>pw_ipad = i, pw_opad = o'\<rparr>
      | (Inl e, _) \<Rightarrow> Inl e
      | (_, Inl e) \<Rightarrow> Inl e)"

record integrity_data =
  id_password :: password
  id_hash :: hash_func

type_synonym maybe_integrity = "integrity_data option"

section \<open>The contract of a SHA-1 function\<close>

locale sha1_function =
  fixes h :: hash_func
  assumes hash_concat: "concat xs = concat ys \<Longrightarrow> h xs = h ys"
    and hash_size: "h xs = Inr d \<Longrightarrow> length d = sha1_size"
begin

lemma hash_flat: "h xs = h [concat xs]"
  by (rule hash_concat) simp

lemma hmac_digest_concat:
  assumes "concat xs = concat ys"
  shows "hmac_digest xs opad ipad h = hmac_digest ys opad ipad h"
proof -
  have "h (ipad # xs) = h (ipad # ys)" using assms by (intro hash_concat) simp
  then show ?thesis by (simp add: hmac_digest_def)
qed

lemma hmac_digest_size: "hmac_digest xs opad ipad h = Inr d \<Longrightarrow> length d = sha1_size"
  by (auto simp: hmac_digest_def intro: hash_size)

lemma pad_key_size:
  assumes "binary_view cv" "pad_key_from_key cv x v h = Inr k"
  shows "length k = pad_block"
  using assms(2) hash_size [of "[v]"] binary_view.stale_view_length [OF assms(1)]
  by (auto simp: pad_key_from_key_def pad_key_init_def split: if_splits)

end

section \<open>The OpenSSL wrapper\<close>

record 'c evp =
  evp_ctx_new :: "'c option"
  evp_digest_init :: "'c \<Rightarrow> 'c option"
  evp_digest_update :: "'c \<Rightarrow> bytes \<Rightarrow> 'c option"
  evp_digest_final :: "'c \<Rightarrow> bytes option"
  err_get_error :: int

abbreviation enomem :: int where "enomem \<equiv> 12"

definition md_init :: "('c, 'm) evp_scheme \<Rightarrow> 'c result" where
  "md_init evp =
     (case evp_ctx_new evp of
        None \<Rightarrow> Inl (SystemError enomem)
      | Some ctx \<Rightarrow>
          (case evp_digest_init evp ctx of
             None \<Rightarrow> Inl (OpenSSLError (err_get_error evp))
           | Some ctx' \<Rightarrow> Inr ctx'))"

definition md_update :: "('c, 'm) evp_scheme \<Rightarrow> 'c \<Rightarrow> bytes \<Rightarrow> 'c result" where
  "md_update evp ctx view =
     (case evp_digest_update evp ctx view of
        None \<Rightarrow> Inl (OpenSSLError (err_get_error evp))
      | Some ctx' \<Rightarrow> Inr ctx')"

definition md_finalize :: "('c, 'm) evp_scheme \<Rightarrow> 'c \<Rightarrow> bytes result" where
  "md_finalize evp ctx =
     (case evp_digest_final evp ctx of
        None \<Rightarrow> Inl (OpenSSLError (err_get_error evp))
      | Some v \<Rightarrow> Inr v)"

fun md_reduce :: "('c, 'm) evp_scheme \<Rightarrow> 'c \<Rightarrow> bytes list \<Rightarrow> 'c result" where
  "md_reduce evp ctx [] = Inr ctx"
| "md_reduce evp ctx (v # vs) = rbind (md_update evp ctx v) (\<lambda>ctx'. md_reduce evp ctx' vs)"

definition md_calc :: "('c, 'm) evp_scheme \<Rightarrow> hash_func" where
  "md_calc evp input =
     rbind (md_init evp) (\<lambda>ctx. rbind (md_reduce evp ctx input) (md_finalize evp))"

locale evp_sha1 =
  fixes evp :: "'c evp"
  assumes update_empty: "evp_digest_update evp c [] = Some c"
    and update_append: "evp_digest_update evp c (a @ b) =
      Option.bind (evp_digest_update evp c a) (\<lambda>c'. evp_digest_update evp c' b)"
    and final_size: "evp_digest_final evp c = Some d \<Longrightarrow> length d = sha1_size"
begin

lemma md_reduce_concat: "md_reduce evp c vs = md_update evp c (concat vs)"
proof (induction vs arbitrary: c)
  case Nil
  then show ?case by (simp add: md_update_def update_empty)
next
  case (Cons v vs)
  then show ?case by (cases "evp_digest_update evp c v") (simp_all add: md_update_def update_append)
qed

end

sublocale evp_sha1 \<subseteq> ossl: sha1_function "md_calc evp"
proof
  show "md_calc evp xs = md_calc evp ys" if "concat xs = concat ys" for xs ys
    using that by (simp add: md_calc_def md_reduce_concat)
  show "length d = sha1_size" if "md_calc evp xs = Inr d" for xs d
    using that final_size by (auto simp: md_calc_def md_finalize_def split: option.splits)
qed

text \<open>A model of the EVP contract: a context that collects the input and a digest of fixed size.\<close>

definition buffer_evp :: "bytes evp" where
  "buffer_evp = \<lparr>evp_ctx_new = Some [], evp_digest_init = (\<lambda>_. Some []),
     evp_digest_update = (\<lambda>c v. Some (c @ v)),
     evp_digest_final = (\<lambda>c. Some (be_encode 20 (be_decode c :: 160 word))),
     err_get_error = 0\<rparr>"

interpretation buffer: evp_sha1 buffer_evp
  by unfold_locales (auto simp: buffer_evp_def)

definition buffer_sha1 :: hash_func where
  "buffer_sha1 = md_calc buffer_evp"

lemma md_reduce_buffer: "md_reduce buffer_evp c vs = Inr (c @ concat vs)"
  by (induction vs arbitrary: c) (simp_all add: md_update_def buffer_evp_def)

lemma buffer_sha1_eq: "buffer_sha1 vs = Inr (be_encode 20 (be_decode (concat vs) :: 160 word))"
  by (simp add: buffer_sha1_def md_calc_def md_init_def md_finalize_def md_reduce_buffer)
    (simp add: buffer_evp_def)

lemma sha1_buffer: "sha1_function buffer_sha1"
  unfolding buffer_sha1_def by (rule buffer.ossl.sha1_function_axioms)

section \<open>Properties\<close>

text \<open>
  The reference: HMAC of RFC 2104 over a total hash of a single string, with keys longer than the
  block hashed first.
\<close>

definition rfc2104_key :: "(bytes \<Rightarrow> bytes) \<Rightarrow> bytes \<Rightarrow> bytes" where
  "rfc2104_key H key =
     (let k = (if length key > pad_block then H key else key) in k @ replicate (pad_block - length k) 0)"

definition rfc2104_hmac :: "(bytes \<Rightarrow> bytes) \<Rightarrow> bytes \<Rightarrow> bytes \<Rightarrow> bytes" where
  "rfc2104_hmac H key txt =
     H (map (\<lambda>b. b XOR opad_xor) (rfc2104_key H key) @
        H (map (\<lambda>b. b XOR ipad_xor) (rfc2104_key H key) @ txt))"

text \<open>
  C30.  For a password of at most 64 octets \<open>Password::short_term\<close> succeeds, and with the pads that it derives
  \<open>hmac::digest\<close> over any split of the data into views is the HMAC of RFC 2104 of the concatenated data
  under the password, for every hash function that hashes the concatenation of its input.
\<close>

theorem hmac_digest_is_rfc2104:
  assumes "\<And>xs. h xs = Inr (H (concat xs))" and "length pwd \<le> 64"
  shows "\<exists>p. short_term cv pwd h = Inr p \<and>
    (\<forall>d. hmac_digest d (pw_opad p) (pw_ipad p) h = Inr (rfc2104_hmac H pwd (concat d)))"
proof -
  have key: "pad_key_from_key cv x pwd h = Inr (map (\<lambda>b. b XOR x) (rfc2104_key H pwd))" for x
    using assms(2) by (simp add: pad_key_from_key_def pad_key_init_def rfc2104_key_def)
  have "short_term cv pwd h = Inr \<lparr>pw_ipad = map (\<lambda>b. b XOR ipad_xor) (rfc2104_key H pwd),
             pw_opad = map (\<lambda>b. b XOR opad_xor) (rfc2104_key H pwd)\<rparr>"
    unfolding short_term_def key by simp
  then show ?thesis by (simp add: hmac_digest_def rfc2104_hmac_def assms(1))
qed

theorem hmac_digest_is_rfc2104_witness:
  "\<exists>p. short_term list_view [0x61, 0x62] buffer_sha1 = Inr p \<and>
     hmac_digest [[1, 2], [3]] (pw_opad p) (pw_ipad p) buffer_sha1 =
       Inr (rfc2104_hmac (\<lambda>v. be_encode 20 (be_decode v :: 160 word)) [0x61, 0x62] [1, 2, 3])"
proof -
  from hmac_digest_is_rfc2104 [where H = "\<lambda>v. be_encode 20 (be_decode v :: 160 word)", OF buffer_sha1_eq,
      of "[0x61, 0x62]" list_view] obtain p where
    p: "short_term list_view [0x61, 0x62] buffer_sha1 = Inr p"
      "\<And>d. hmac_digest d (pw_opad p) (pw_ipad p) buffer_sha1 =
        Inr (rfc2104_hmac (\<lambda>v. be_encode 20 (be_decode v :: 160 word)) [0x61, 0x62] (concat d))" by auto
  from p(1) p(2) [of "[[1, 2], [3]]"] show ?thesis by simp
qed

text \<open>
  A longer password gives other pads than RFC 2104 asks for, unless the octets of the destroyed hash value are
  still there.
\<close>

theorem long_password_pads:
  assumes "\<And>xs. h xs = Inr (H (concat xs))" and "64 < length pwd" and "length (H pwd) = 20"
    and "length (stale_view cv (H pwd)) = 20"
  shows "\<exists>p. short_term cv pwd h = Inr p \<and>
    (pw_ipad p = map (\<lambda>b. b XOR ipad_xor) (rfc2104_key H pwd) \<longleftrightarrow> stale_view cv (H pwd) = H pwd)"
proof -
  let ?pad = "\<lambda>x. map (\<lambda>b. b XOR x) (stale_view cv (H pwd) @ replicate 44 0)"
  have key: "pad_key_from_key cv x pwd h = Inr (?pad x)" for x
    using assms by (simp add: pad_key_from_key_def pad_key_init_def)
  have "inj (\<lambda>b :: u8. b XOR ipad_xor)" by (rule injI) (metis xor.assoc xor.right_neutral xor_self_eq)
  then have "?pad ipad_xor = map (\<lambda>b. b XOR ipad_xor) (rfc2104_key H pwd) \<longleftrightarrow> stale_view cv (H pwd) = H pwd"
    using assms(2,3,4) by (simp add: rfc2104_key_def inj_map_eq_map del: map_append)
  then show ?thesis by (simp add: short_term_def key)
qed

end
