(* ===== verification/Stun_Types.thy ===== *)
theory Stun_Types
  imports Clock Net Crypto
begin

text \<open>
  The parts of a STUN header: constants and registries (\<open>stun/details/stun_constants.hpp\<close>,
  \<open>stun_attr_registry.hpp\<close>, \<open>stun_method_registry.hpp\<close>), message class (\<open>stun_class.hpp\<close>), method
  (\<open>stun_method.hpp\<close>), attribute type (\<open>stun_attribute_type.hpp\<close>), transaction identifier
  (\<open>stun_transaction_id.hpp\<close>), the header and its builder (\<open>stun_header.cpp\<close>) and the parse
  statistics (\<open>stun_parse_stat.hpp\<close>).
\<close>

section \<open>Constants\<close>

definition MAGIC_COOKIE :: u32 where "MAGIC_COOKIE = 0x2112A442"
abbreviation TRANSACTION_ID_SIZE :: nat where "TRANSACTION_ID_SIZE \<equiv> 96 div 8"
abbreviation TRANSACTION_ID_SIZE_RFC3489 :: nat where "TRANSACTION_ID_SIZE_RFC3489 \<equiv> 128 div 8"
abbreviation STUN_HEADER_SIZE :: nat where "STUN_HEADER_SIZE \<equiv> 20"
abbreviation STUN_ATTR_HEADER_SIZE :: nat where "STUN_ATTR_HEADER_SIZE \<equiv> 4"
abbreviation FINGERPRINT_CRC_SIZE :: nat where "FINGERPRINT_CRC_SIZE \<equiv> 4"

type_synonym attribute_type = u16

abbreviation MAPPED_ADDRESS :: attribute_type where "MAPPED_ADDRESS \<equiv> 0x0001"
abbreviation USERNAME :: attribute_type where "USERNAME \<equiv> 0x0006"
abbreviation MESSAGE_INTEGRITY :: attribute_type where "MESSAGE_INTEGRITY \<equiv> 0x0008"
abbreviation ERROR_CODE :: attribute_type where "ERROR_CODE \<equiv> 0x0009"
abbreviation UNKNOWN_ATTRIBUTES :: attribute_type where "UNKNOWN_ATTRIBUTES \<equiv> 0x000A"
abbreviation XOR_MAPPED_ADDRESS :: attribute_type where "XOR_MAPPED_ADDRESS \<equiv> 0x0020"
abbreviation PRIORITY :: attribute_type where "PRIORITY \<equiv> 0x24"
abbreviation USE_CANDIDATE :: attribute_type where "USE_CANDIDATE \<equiv> 0x25"
abbreviation SOFTWARE :: attribute_type where "SOFTWARE \<equiv> 0x8022"
abbreviation ALTERNATE_SERVER :: attribute_type where "ALTERNATE_SERVER \<equiv> 0x8023"
abbreviation FINGERPRINT :: attribute_type where "FINGERPRINT \<equiv> 0x8028"
abbreviation ICE_CONTROLLED :: attribute_type where "ICE_CONTROLLED \<equiv> 0x8029"
abbreviation ICE_CONTROLLING :: attribute_type where "ICE_CONTROLLING \<equiv> 0x802A"
abbreviation FAMILY_IPV4 :: u8 where "FAMILY_IPV4 \<equiv> 0x01"
abbreviation FAMILY_IPV6 :: u8 where "FAMILY_IPV6 \<equiv> 0x02"
abbreviation BINDING :: u32 where "BINDING \<equiv> 0x001"

definition is_comprehension_required :: "attribute_type \<Rightarrow> bool" where
  "is_comprehension_required t \<longleftrightarrow> t \<le> 0x7FFF"

section \<open>Class and method\<close>

datatype stun_class = REQUEST | INDICATION | SUCCESS_RESPONSE | ERROR_RESPONSE

fun class_value :: "stun_class \<Rightarrow> u16" where
  "class_value REQUEST = 0"
| "class_value INDICATION = 1"
| "class_value SUCCESS_RESPONSE = 2"
| "class_value ERROR_RESPONSE = 3"

definition class_from_msg_type :: "u16 \<Rightarrow> stun_class" where
  "class_from_msg_type v =
     (let c0 = drop_bit 4 v AND 1; c1 = drop_bit 8 v AND 1; c = c0 OR push_bit 1 c1
      in if c = 0 then REQUEST
         else if c = 1 then INDICATION
         else if c = 2 then SUCCESS_RESPONSE
         else if c = 3 then ERROR_RESPONSE
         else ERROR_RESPONSE)"

definition class_to_msg_type :: "stun_class \<Rightarrow> u16" where
  "class_to_msg_type c = push_bit 4 (class_value c AND 0x1) OR push_bit 8 (drop_bit 1 (class_value c))"

type_synonym stun_method = u32

definition binding_method :: stun_method where
  "binding_method = BINDING"

definition method_from_msg_type :: "u16 \<Rightarrow> stun_method" where
  "method_from_msg_type v =
     (let m0_3 = v AND 0xF; m4_6 = drop_bit 5 v AND 0x7; m7_11 = drop_bit 9 v
      in ucast (m0_3 OR push_bit 4 m4_6 OR push_bit 7 m7_11))"

definition method_to_msg_type :: "stun_method \<Rightarrow> u16" where
  "method_to_msg_type m =
     ucast ((m AND 0xF) OR push_bit 5 (drop_bit 4 m AND 0x7) OR push_bit 9 (drop_bit 7 m))"

lemma masks: "(1 :: 'a::len word) = mask 1" "(0x7 :: 'a word) = mask 3" "(0xF :: 'a word) = mask 4"
  by (simp_all add: mask_eq_exp_minus_1)

lemma class_from_msg_type_bits:
  "class_from_msg_type v =
     (if bit v 8 then (if bit v 4 then ERROR_RESPONSE else SUCCESS_RESPONSE)
      else (if bit v 4 then INDICATION else REQUEST))"
proof -
  have "drop_bit n v AND 1 = of_bool (bit v n)" for n
    by (simp only: and_one_eq bit_iff_odd_drop_bit mod_2_eq_odd)
  then show ?thesis by (simp add: class_from_msg_type_def Let_def)
qed

lemma class_to_msg_type_exp:
  "class_to_msg_type REQUEST = 0" "class_to_msg_type INDICATION = 2 ^ 4"
  "class_to_msg_type SUCCESS_RESPONSE = 2 ^ 8" "class_to_msg_type ERROR_RESPONSE = 2 ^ 4 OR 2 ^ 8"
  by (simp_all add: class_to_msg_type_def)

lemma bit_class_to_msg_type:
  "bit (class_to_msg_type c) n \<longleftrightarrow>
     (n = 4 \<and> (c = INDICATION \<or> c = ERROR_RESPONSE)) \<or> (n = 8 \<and> (c = SUCCESS_RESPONSE \<or> c = ERROR_RESPONSE))"
  by (cases c) (auto simp only: class_to_msg_type_exp bit_0_eq bot_apply bot_bool_def bit_or_iff bit_exp_iff
      possible_bit_word stun_class.distinct len_num0 len_bit0 len_num1)

lemma bit_method_from_msg_type:
  "bit (method_from_msg_type v) n \<longleftrightarrow>
     (n < 4 \<and> bit v n) \<or> (4 \<le> n \<and> n < 7 \<and> bit v (n + 1)) \<or> (7 \<le> n \<and> bit v (n + 2))"
  by (auto simp: method_from_msg_type_def Let_def masks bit_simps dest: bit_imp_le_length)

lemma bit_method_to_msg_type:
  "bit (method_to_msg_type m) n \<longleftrightarrow> n < 16 \<and>
     ((n < 4 \<and> bit m n) \<or> (5 \<le> n \<and> n < 8 \<and> bit m (n - 1)) \<or> (9 \<le> n \<and> bit m (n - 2)))"
  by (auto simp: method_to_msg_type_def masks bit_simps)

section \<open>Transaction identifiers\<close>

type_synonym transaction_id = bytes

text \<open>
  \<open>generate\<close> fills an array of 32-bit words from the random device, in memory order.  The device is
  a function of its own state; \<open>load\<close> are the bytes of a word in memory on the host.
\<close>

fun random_words :: "('g \<Rightarrow> u32 \<times> 'g) \<Rightarrow> (u32 \<Rightarrow> bytes) \<Rightarrow> nat \<Rightarrow> 'g \<Rightarrow> bytes \<times> 'g" where
  "random_words r load 0 g = ([], g)"
| "random_words r load (Suc n) g =
     (let (v, g') = r g; (vs, g'') = random_words r load n g' in (load v @ vs, g''))"

definition tid_generate :: "('g \<Rightarrow> u32 \<times> 'g) \<Rightarrow> (u32 \<Rightarrow> bytes) \<Rightarrow> 'g \<Rightarrow> transaction_id \<times> 'g" where
  "tid_generate r load g = random_words r load (TRANSACTION_ID_SIZE div 4) g"

definition tid_generate_rfc3489 :: "('g \<Rightarrow> u32 \<times> 'g) \<Rightarrow> (u32 \<Rightarrow> bytes) \<Rightarrow> 'g \<Rightarrow> transaction_id \<times> 'g" where
  "tid_generate_rfc3489 r load g = random_words r load (TRANSACTION_ID_SIZE_RFC3489 div 4) g"

lemma length_random_words:
  "(\<And>w. length (load w) = 4) \<Longrightarrow> length (fst (random_words r load n g)) = 4 * n"
  by (induction n arbitrary: g) (simp_all add: Let_def split_beta)

section \<open>Header\<close>

record header =
  h_cls :: stun_class
  h_method :: stun_method
  h_transaction_id :: transaction_id

definition header_build :: "craftpp \<Rightarrow> header \<Rightarrow> nat \<Rightarrow> bytes" where
  "header_build cv h len =
     (let msg_type = net_u16 cv (class_to_msg_type (h_cls h) OR method_to_msg_type (h_method h));
          msg_size = net_u16 cv (of_nat len)
      in if length (h_transaction_id h) = TRANSACTION_ID_SIZE
         then view_concat [msg_type, msg_size, net_u32 cv MAGIC_COOKIE, h_transaction_id h]
         else view_concat [msg_type, msg_size, h_transaction_id h])"

section \<open>Parse statistics\<close>

record parse_stat =
  ps_success :: counter
  ps_error :: counter
  ps_invalid_size :: counter
  ps_not_padded :: counter
  ps_message_length_error :: counter
  ps_magic_cookie_error :: counter
  ps_invalid_attr_size :: counter
  ps_fingerprint_not_last :: counter
  ps_invalid_fingerprint :: counter
  ps_invalid_fingerprint_size :: counter
  ps_invalid_message_integrity :: counter
  ps_invalid_mapped_address :: counter
  ps_invalid_xor_mapped_address :: counter
  ps_invalid_ip_address :: counter
  ps_invalid_priority_size :: counter
  ps_invalid_ice_controlling_size :: counter
  ps_invalid_ice_controlled_size :: counter
  ps_invalid_use_candidate_size :: counter
  ps_invalid_error_code_size :: counter
  ps_invalid_unknown_attributes_attr_size :: counter
  ps_unknown_comprehension_required_attr :: counter

definition stat_error :: "parse_stat \<Rightarrow> parse_stat" where
  "stat_error st = st\<lparr>ps_error := inc (ps_error st)\<rparr>"

text \<open>What every error branch of the parser does to the statistics, seen from outside.\<close>

definition stat_failed :: "parse_stat \<Rightarrow> parse_stat \<Rightarrow> bool" where
  "stat_failed st st' \<longleftrightarrow> ps_success st' = ps_success st \<and> ps_error st' = ps_error st + 1"

definition zero_stat :: parse_stat where
  "zero_stat = \<lparr>ps_success = 0, ps_error = 0, ps_invalid_size = 0, ps_not_padded = 0,
     ps_message_length_error = 0, ps_magic_cookie_error = 0, ps_invalid_attr_size = 0,
     ps_fingerprint_not_last = 0, ps_invalid_fingerprint = 0, ps_invalid_fingerprint_size = 0,
     ps_invalid_message_integrity = 0, ps_invalid_mapped_address = 0, ps_invalid_xor_mapped_address = 0,
     ps_invalid_ip_address = 0, ps_invalid_priority_size = 0, ps_invalid_ice_controlling_size = 0,
     ps_invalid_ice_controlled_size = 0, ps_invalid_use_candidate_size = 0, ps_invalid_error_code_size = 0,
     ps_invalid_unknown_attributes_attr_size = 0, ps_unknown_comprehension_required_attr = 0\<rparr>"

section \<open>Properties\<close>

lemma bit_class_to_from: "bit (class_to_msg_type (class_from_msg_type v)) n \<longleftrightarrow> (n = 4 \<or> n = 8) \<and> bit v n"
  by (auto simp: bit_class_to_msg_type class_from_msg_type_bits)

lemma bit_method_to_from:
  assumes "n < 16"
  shows "bit (method_to_msg_type (method_from_msg_type v)) n \<longleftrightarrow> n \<noteq> 4 \<and> n \<noteq> 8 \<and> bit v n"
proof -
  consider "n < 4" | "n = 4" | k where "n = k + 5" "k < 3" | "n = 8" | k where "n = k + 9"
  proof -
    have "n < 4 \<or> n = 4 \<or> (5 \<le> n \<and> n < 8) \<or> n = 8 \<or> 9 \<le> n" by linarith
    moreover have "\<exists>k. n = k + 5 \<and> k < 3" if "5 \<le> n" "n < 8"
      using that by (intro exI [of _ "n - 5"]) simp
    moreover have "\<exists>k. n = k + 9" if "9 \<le> n"
      using that by (intro exI [of _ "n - 9"]) simp
    ultimately show ?thesis using that by blast
  qed
  then show ?thesis using assms
    by cases (simp_all add: bit_method_to_msg_type bit_method_from_msg_type add.commute)
qed

lemma class_from_type: "class_from_msg_type (class_to_msg_type c OR method_to_msg_type m) = c"
  by (cases c) (simp_all add: class_from_msg_type_bits bit_or_iff bit_class_to_msg_type bit_method_to_msg_type)

lemma method_from_type:
  assumes "m < 2 ^ 14"
  shows "method_from_msg_type (class_to_msg_type c OR method_to_msg_type m) = m"
proof (rule bit_word_eqI)
  fix n assume n: "n < LENGTH(32)"
  have "unat m < 2 ^ 14" using assms by (simp add: word_less_nat_alt)
  then have "take_bit 14 (unat m) = unat m" by (simp add: take_bit_nat_eq_self)
  moreover have "bit (unat m) n = bit m n" by (simp add: bit_unsigned_iff)
  ultimately have high: "bit m n \<Longrightarrow> n < 14" by (metis bit_take_bit_iff)
  show "bit (method_from_msg_type (class_to_msg_type c OR method_to_msg_type m)) n = bit m n"
  proof -
    consider "n < 4" | "4 \<le> n" "n < 7" | "7 \<le> n" by linarith
    then show ?thesis using n high
      by cases (auto simp: bit_method_from_msg_type bit_or_iff bit_class_to_msg_type bit_method_to_msg_type)
  qed
qed

text \<open>
  Every 16-bit message type is recovered from the class and the method read from it, and every
  class and 14-bit method are recovered from the message type written for them: the two bit layouts
  are inverse to each other.
\<close>

theorem msg_type_roundtrip:
  "class_to_msg_type (class_from_msg_type v) OR method_to_msg_type (method_from_msg_type v) = v
   \<and> (m < 2 ^ 14 \<longrightarrow>
        class_from_msg_type (class_to_msg_type c OR method_to_msg_type m) = c
      \<and> method_from_msg_type (class_to_msg_type c OR method_to_msg_type m) = m)"
proof -
  have "class_to_msg_type (class_from_msg_type v) OR method_to_msg_type (method_from_msg_type v) = v"
  proof (rule bit_word_eqI)
    fix n assume "n < LENGTH(16)"
    then show "bit (class_to_msg_type (class_from_msg_type v) OR method_to_msg_type (method_from_msg_type v)) n = bit v n"
      by (simp add: bit_or_iff bit_method_to_from bit_class_to_from) blast
  qed
  then show ?thesis using class_from_type method_from_type by blast
qed

theorem msg_type_roundtrip_witness:
  "class_from_msg_type (class_to_msg_type SUCCESS_RESPONSE OR method_to_msg_type 1) = SUCCESS_RESPONSE
   \<and> method_from_msg_type (class_to_msg_type SUCCESS_RESPONSE OR method_to_msg_type 1) = 1
   \<and> class_to_msg_type SUCCESS_RESPONSE OR method_to_msg_type 1 = 0x0101"
  using msg_type_roundtrip [of 0 1 SUCCESS_RESPONSE]
  by (simp add: class_to_msg_type_def method_to_msg_type_def)

end
