(* ===== verification/Stun_Address.thy ===== *)
theory Stun_Address
  imports Stun_Types
begin

text \<open>
  The XORed address of XOR-MAPPED-ADDRESS: \<open>stun/stun_address.cpp\<close>.  The sources XOR the first
  four bytes as one 32-bit word in memory with the magic cookie in network order, which is the same
  as XORing byte by byte; the remaining bytes of an IPv6 address are XORed with the transaction
  identifier in a loop that stops at the shorter of the two.
\<close>

datatype family = IPv4 | IPv6

definition family_from_uint8 :: "u8 \<Rightarrow> family result" where
  "family_from_uint8 v =
     (if v = FAMILY_IPV4 then Inr IPv4
      else if v = FAMILY_IPV6 then Inr IPv6
      else Inl (ParseError unknown_addr_family))"

fun family_to_uint8 :: "family \<Rightarrow> u8" where
  "family_to_uint8 IPv4 = FAMILY_IPV4"
| "family_to_uint8 IPv6 = FAMILY_IPV6"

datatype xored_address = V4Holder bytes | V6Holder bytes

fun xored_address_wf :: "xored_address \<Rightarrow> bool" where
  "xored_address_wf (V4Holder v) \<longleftrightarrow> length v = v4_size"
| "xored_address_wf (V6Holder v) \<longleftrightarrow> length v = v6_size"

fun xored_from_view :: "family \<Rightarrow> bytes \<Rightarrow> xored_address result" where
  "xored_from_view IPv4 vv =
     (if length vv \<noteq> v4_size then Inl (ParseError invalid_ipv4_address_size) else Inr (V4Holder vv))"
| "xored_from_view IPv6 vv =
     (if length vv \<noteq> v6_size then Inl (ParseError invalid_ipv6_address_size) else Inr (V6Holder vv))"

definition xor_magic :: "craftpp \<Rightarrow> bytes \<Rightarrow> bytes" where
  "xor_magic cv holder =
     map2 (XOR) (take 4 holder) (net_u32 cv MAGIC_COOKIE) @ drop 4 holder"

function xor_tid_loop :: "craftpp \<Rightarrow> transaction_id \<Rightarrow> nat \<Rightarrow> bytes \<Rightarrow> bytes" where
  "xor_tid_loop cv tidv i holder =
     (if i < length tidv \<and> i < length holder - 4
      then xor_tid_loop cv tidv (Suc i)
             (holder[i + 4 := holder ! (i + 4) XOR assured_read_u8 cv tidv i])
      else holder)"
  by pat_completeness auto
termination
  by (relation "measure (\<lambda>(cv, tidv, i, holder). length tidv - i)") auto

declare xor_tid_loop.simps [simp del]

fun xored_from_address :: "craftpp \<Rightarrow> address \<Rightarrow> transaction_id \<Rightarrow> xored_address" where
  "xored_from_address cv (AddressV4 v4) tid = V4Holder (xor_magic cv v4)"
| "xored_from_address cv (AddressV6 v6) tid = V6Holder (xor_tid_loop cv tid 0 (xor_magic cv v6))"

fun xored_to_address :: "craftpp \<Rightarrow> xored_address \<Rightarrow> transaction_id \<Rightarrow> address" where
  "xored_to_address cv (V4Holder v) tid = AddressV4 (xor_magic cv v)"
| "xored_to_address cv (V6Holder v) tid = AddressV6 (xor_tid_loop cv tid 0 (xor_magic cv v))"

fun xored_family :: "xored_address \<Rightarrow> family" where
  "xored_family (V4Holder _) = IPv4"
| "xored_family (V6Holder _) = IPv6"

fun xored_view :: "xored_address \<Rightarrow> bytes" where
  "xored_view (V4Holder v) = v"
| "xored_view (V6Holder v) = v"

section \<open>The loop computes a byte-wise XOR\<close>

definition xor_prefix :: "nat \<Rightarrow> bytes \<Rightarrow> bytes \<Rightarrow> bytes" where
  \<comment> \<open>XOR of the bytes from \<open>k\<close> on with the given key, up to the shorter of the two\<close>
  "xor_prefix k key v = map (\<lambda>j. if k \<le> j \<and> j - k < length key then v ! j XOR key ! (j - k) else v ! j) [0..<length v]"

lemma length_xor_prefix [simp]: "length (xor_prefix k key v) = length v"
  by (simp add: xor_prefix_def)

lemma nth_xor_prefix:
  "j < length v \<Longrightarrow> xor_prefix k key v ! j =
     (if k \<le> j \<and> j - k < length key then v ! j XOR key ! (j - k) else v ! j)"
  by (simp add: xor_prefix_def)

lemma xor_prefix_twice [simp]: "xor_prefix k key (xor_prefix k key v) = v"
  by (rule nth_equalityI) (simp_all add: nth_xor_prefix xor.assoc)

lemma xor_prefix_commute: "xor_prefix k1 key1 (xor_prefix k2 key2 v) = xor_prefix k2 key2 (xor_prefix k1 key1 v)"
  by (rule nth_equalityI) (simp_all add: nth_xor_prefix ac_simps)

context binary_view
begin

lemma xor_magic_prefix:
  assumes "4 \<le> length v"
  shows "xor_magic cv v = xor_prefix 0 (be_encode 4 MAGIC_COOKIE) v"
proof (rule nth_equalityI)
  show "length (xor_magic cv v) = length (xor_prefix 0 (be_encode 4 MAGIC_COOKIE) v)"
    using assms by (simp add: xor_magic_def net_u32_eq)
next
  fix j assume "j < length (xor_magic cv v)"
  then show "xor_magic cv v ! j = xor_prefix 0 (be_encode 4 MAGIC_COOKIE) v ! j"
    using assms by (auto simp: xor_magic_def net_u32_eq nth_append nth_xor_prefix)
qed

lemma xor_tid_loop_nth:
  "length (xor_tid_loop cv tid i v) = length v \<and>
   (\<forall>j < length v. xor_tid_loop cv tid i v ! j =
      (if 4 + i \<le> j \<and> j - 4 < length tid then v ! j XOR tid ! (j - 4) else v ! j))"
proof (induction "length tid - i" arbitrary: i v rule: less_induct)
  case less
  show ?case
  proof (cases "i < length tid \<and> i < length v - 4")
    case True
    define v' where "v' = v[i + 4 := v ! (i + 4) XOR tid ! i]"
    have step: "xor_tid_loop cv tid i v = xor_tid_loop cv tid (Suc i) v'"
      using True by (subst xor_tid_loop.simps) (simp add: assured_read_u8_eq v'_def)
    have "length tid - Suc i < length tid - i" using True by arith
    note IH = less.hyps [OF this, of v']
    have v': "length v' = length v" "\<And>j. j < length v \<Longrightarrow> v' ! j = (if j = i + 4 then v ! j XOR tid ! i else v ! j)"
      by (auto simp: v'_def nth_list_update)
    show ?thesis unfolding step using IH True by (auto simp: v')
  next
    case False
    then have "xor_tid_loop cv tid i v = v" by (subst xor_tid_loop.simps) auto
    with False show ?thesis by auto
  qed
qed

lemma xor_tid_loop_prefix: "xor_tid_loop cv tid 0 v = xor_prefix 4 tid v"
  using xor_tid_loop_nth [of tid 0 v] by (intro nth_equalityI) (auto simp: nth_xor_prefix)

lemma xored_involution:
  assumes "address_wf a"
  shows "xored_to_address cv (xored_from_address cv a tid) tid = a"
  using assms
  by (cases a) (simp_all add: xor_magic_prefix xor_tid_loop_prefix xor_prefix_commute [of 0 _ 4])

lemma xored_from_address_wf: "address_wf a \<Longrightarrow> xored_address_wf (xored_from_address cv a tid)"
  by (cases a) (simp_all add: xor_magic_prefix xor_tid_loop_prefix)

end

lemma family_roundtrip [simp]: "family_from_uint8 (family_to_uint8 f) = Inr f"
  by (cases f) (simp_all add: family_from_uint8_def)

lemma xored_from_view_roundtrip [simp]:
  "xored_address_wf x \<Longrightarrow> xored_from_view (xored_family x) (xored_view x) = Inr x"
  by (cases x) simp_all

lemma xored_from_view_Inr: "xored_from_view f v = Inr x \<Longrightarrow> xored_view x = v \<and> xored_family x = f \<and> xored_address_wf x"
  by (cases f) (auto split: if_splits)

section \<open>Properties\<close>

text \<open>
  Decoding a XORed address with the transaction identifier it was encoded with gives the
  original address, for IPv4 and IPv6 and for transaction identifiers of any length.
\<close>

theorem xored_address_roundtrip:
  assumes "binary_view cv" and "address_wf a"
  shows "xored_to_address cv (xored_from_address cv a tid) tid = a"
  using assms by (intro binary_view.xored_involution)

theorem xored_address_roundtrip_witness:
  "xored_to_address list_view (xored_from_address list_view (AddressV4 [192, 168, 1, 7]) [1, 2]) [1, 2]
     = AddressV4 [192, 168, 1, 7]
   \<and> xored_from_address list_view (AddressV4 [192, 168, 1, 7]) [1, 2] = V4Holder [225, 186, 165, 69]"
proof -
  have "address_wf (AddressV4 [192, 168, 1, 7])" by simp
  from xored_address_roundtrip [OF binary_view_list_view this, of "[1, 2]"]
  show ?thesis by (rule conjI) code_simp
qed

end
