(* ===== verification/Stun_Fingerprint.thy ===== *)
theory Stun_Fingerprint
  imports Stun_Types
begin

text \<open>
  The CRC-32 of the FINGERPRINT attribute: \<open>stun/details/stun_fingerprint.cpp\<close>.  The table-driven
  routine is shown equal to the bit-by-bit CRC with the reflected polynomial 0xEDB88320 that the
  comment above the table names.
\<close>

section \<open>The table-driven routine\<close>

definition FINGERPRINT_XOR :: u32 where "FINGERPRINT_XOR = 0x5354554e"

definition CRC32_TABLE :: "u32 list" where
  "CRC32_TABLE = [
    0x00000000, 0x77073096, 0xee0e612c, 0x990951ba, 0x076dc419, 0x706af48f,
    0xe963a535, 0x9e6495a3, 0x0edb8832, 0x79dcb8a4, 0xe0d5e91e, 0x97d2d988,
    0x09b64c2b, 0x7eb17cbd, 0xe7b82d07, 0x90bf1d91, 0x1db71064, 0x6ab020f2,
    0xf3b97148, 0x84be41de, 0x1adad47d, 0x6ddde4eb, 0xf4d4b551, 0x83d385c7,
    0x136c9856, 0x646ba8c0, 0xfd62f97a, 0x8a65c9ec, 0x14015c4f, 0x63066cd9,
    0xfa0f3d63, 0x8d080df5, 0x3b6e20c8, 0x4c69105e, 0xd56041e4, 0xa2677172,
    0x3c03e4d1, 0x4b04d447, 0xd20d85fd, 0xa50ab56b, 0x35b5a8fa, 0x42b2986c,
    0xdbbbc9d6, 0xacbcf940, 0x32d86ce3, 0x45df5c75, 0xdcd60dcf, 0xabd13d59,
    0x26d930ac, 0x51de003a, 0xc8d75180, 0xbfd06116, 0x21b4f4b5, 0x56b3c423,
    0xcfba9599, 0xb8bda50f, 0x2802b89e, 0x5f058808, 0xc60cd9b2, 0xb10be924,
    0x2f6f7c87, 0x58684c11, 0xc1611dab, 0xb6662d3d, 0x76dc4190, 0x01db7106,
    0x98d220bc, 0xefd5102a, 0x71b18589, 0x06b6b51f, 0x9fbfe4a5, 0xe8b8d433,
    0x7807c9a2, 0x0f00f934, 0x9609a88e, 0xe10e9818, 0x7f6a0dbb, 0x086d3d2d,
    0x91646c97, 0xe6635c01, 0x6b6b51f4, 0x1c6c6162, 0x856530d8, 0xf262004e,
    0x6c0695ed, 0x1b01a57b, 0x8208f4c1, 0xf50fc457, 0x65b0d9c6, 0x12b7e950,
    0x8bbeb8ea, 0xfcb9887c, 0x62dd1ddf, 0x15da2d49, 0x8cd37cf3, 0xfbd44c65,
    0x4db26158, 0x3ab551ce, 0xa3bc0074, 0xd4bb30e2, 0x4adfa541, 0x3dd895d7,
    0xa4d1c46d, 0xd3d6f4fb, 0x4369e96a, 0x346ed9fc, 0xad678846, 0xda60b8d0,
    0x44042d73, 0x33031de5, 0xaa0a4c5f, 0xdd0d7cc9, 0x5005713c, 0x270241aa,
    0xbe0b1010, 0xc90c2086, 0x5768b525, 0x206f85b3, 0xb966d409, 0xce61e49f,
    0x5edef90e, 0x29d9c998, 0xb0d09822, 0xc7d7a8b4, 0x59b33d17, 0x2eb40d81,
    0xb7bd5c3b, 0xc0ba6cad, 0xedb88320, 0x9abfb3b6, 0x03b6e20c, 0x74b1d29a,
    0xead54739, 0x9dd277af, 0x04db2615, 0x73dc1683, 0xe3630b12, 0x94643b84,
    0x0d6d6a3e, 0x7a6a5aa8, 0xe40ecf0b, 0x9309ff9d, 0x0a00ae27, 0x7d079eb1,
    0xf00f9344, 0x8708a3d2, 0x1e01f268, 0x6906c2fe, 0xf762575d, 0x806567cb,
    0x196c3671, 0x6e6b06e7, 0xfed41b76, 0x89d32be0, 0x10da7a5a, 0x67dd4acc,
    0xf9b9df6f, 0x8ebeeff9, 0x17b7be43, 0x60b08ed5, 0xd6d6a3e8, 0xa1d1937e,
    0x38d8c2c4, 0x4fdff252, 0xd1bb67f1, 0xa6bc5767, 0x3fb506dd, 0x48b2364b,
    0xd80d2bda, 0xaf0a1b4c, 0x36034af6, 0x41047a60, 0xdf60efc3, 0xa867df55,
    0x316e8eef, 0x4669be79, 0xcb61b38c, 0xbc66831a, 0x256fd2a0, 0x5268e236,
    0xcc0c7795, 0xbb0b4703, 0x220216b9, 0x5505262f, 0xc5ba3bbe, 0xb2bd0b28,
    0x2bb45a92, 0x5cb36a04, 0xc2d7ffa7, 0xb5d0cf31, 0x2cd99e8b, 0x5bdeae1d,
    0x9b64c2b0, 0xec63f226, 0x756aa39c, 0x026d930a, 0x9c0906a9, 0xeb0e363f,
    0x72076785, 0x05005713, 0x95bf4a82, 0xe2b87a14, 0x7bb12bae, 0x0cb61b38,
    0x92d28e9b, 0xe5d5be0d, 0x7cdcefb7, 0x0bdbdf21, 0x86d3d2d4, 0xf1d4e242,
    0x68ddb3f8, 0x1fda836e, 0x81be16cd, 0xf6b9265b, 0x6fb077e1, 0x18b74777,
    0x88085ae6, 0xff0f6a70, 0x66063bca, 0x11010b5c, 0x8f659eff, 0xf862ae69,
    0x616bffd3, 0x166ccf45, 0xa00ae278, 0xd70dd2ee, 0x4e048354, 0x3903b3c2,
    0xa7672661, 0xd06016f7, 0x4969474d, 0x3e6e77db, 0xaed16a4a, 0xd9d65adc,
    0x40df0b66, 0x37d83bf0, 0xa9bcae53, 0xdebb9ec5, 0x47b2cf7f, 0x30b5ffe9,
    0xbdbdf21c, 0xcabac28a, 0x53b39330, 0x24b4a3a6, 0xbad03605, 0xcdd70693,
    0x54de5729, 0x23d967bf, 0xb3667a2e, 0xc4614ab8, 0x5d681b02, 0x2a6f2b94,
    0xb40bbe37, 0xc30c8ea1, 0x5a05df1b, 0x2d02ef8d]"

definition crc32_step :: "u32 \<Rightarrow> u8 \<Rightarrow> u32" where
  "crc32_step crc v = CRC32_TABLE ! unat ((crc XOR ucast v) AND 0xff) XOR drop_bit 8 crc"

definition crc32_helper :: "bytes \<Rightarrow> u32 \<Rightarrow> u32" where
  "crc32_helper vv start = foldl crc32_step start vv"

definition crc32 :: "bytes \<Rightarrow> u32" where
  "crc32 vv = NOT (crc32_helper vv 0xffffffff)"

definition crc32_views :: "bytes list \<Rightarrow> u32" where
  "crc32_views vvv = NOT (foldl (\<lambda>crc vv. crc32_helper vv crc) 0xffffffff vvv)"

section \<open>The reference\<close>

definition crc_poly :: u32 where "crc_poly = 0xEDB88320"

definition crc_bit :: "u32 \<Rightarrow> u32" where
  "crc_bit x = (if bit x 0 then drop_bit 1 x XOR crc_poly else drop_bit 1 x)"

definition crc_byte :: "u32 \<Rightarrow> u8 \<Rightarrow> u32" where
  "crc_byte crc v = (crc_bit ^^ 8) (crc XOR ucast v)"

definition crc_reference :: "bytes \<Rightarrow> u32" where
  "crc_reference vv = NOT (foldl crc_byte 0xffffffff vv)"

section \<open>Linearity\<close>

lemma crc_bit_xor: "crc_bit (a XOR b) = crc_bit a XOR crc_bit b"
  by (simp add: crc_bit_def bit_xor_iff drop_bit_xor ac_simps)

lemma crc_bits_xor: "(crc_bit ^^ n) (a XOR b) = (crc_bit ^^ n) a XOR (crc_bit ^^ n) b"
  by (induction n) (simp_all add: crc_bit_xor)

lemma drop_push_high:
  assumes "k < 8"
  shows "drop_bit 1 (push_bit (Suc k) (drop_bit 8 y)) = push_bit k (drop_bit 8 (y :: u32))"
proof (rule bit_word_eqI)
  fix n assume "n < LENGTH(32)"
  then show "bit (drop_bit 1 (push_bit (Suc k) (drop_bit 8 y))) n = bit (push_bit k (drop_bit 8 y)) n"
    using assms by (auto simp: bit_simps simp del: push_bit_Suc dest: bit_imp_le_length)
qed

lemma crc_bits_high: "n \<le> 8 \<Longrightarrow> (crc_bit ^^ n) (push_bit 8 (drop_bit 8 y)) = push_bit (8 - n) (drop_bit 8 y)"
proof (induction n)
  case 0
  then show ?case by simp
next
  case (Suc n)
  then obtain k where k: "8 - n = Suc k" "8 - Suc n = k" "k < 8" by (cases "8 - n") auto
  have "\<not> bit (push_bit (Suc k) (drop_bit 8 y)) 0" unfolding bit_push_bit_iff by simp
  moreover have "drop_bit 1 (push_bit (Suc k) (drop_bit 8 y)) = push_bit k (drop_bit 8 y)"
    using \<open>k < 8\<close> by (rule drop_push_high)
  ultimately show ?case using Suc k by (simp add: crc_bit_def)
qed

lemma crc_bit_numeral:
  "crc_bit 0 = 0" "crc_bit 1 = 0xEDB88320"
  "crc_bit (numeral (Num.Bit0 k)) = drop_bit 1 (numeral (Num.Bit0 k))"
  "crc_bit (numeral (Num.Bit1 k)) = drop_bit 1 (numeral (Num.Bit1 k)) XOR 0xEDB88320"
  by (simp_all add: crc_bit_def crc_poly_def)

lemma funpow_8: "(f ^^ 8) x = f (f (f (f (f (f (f (f x)))))))"
  by (simp add: eval_nat_numeral)

lemma upt_256: "[0..<256] = [
    0, 1, 2, 3, 4, 5, 6, 7, 8, 9, 10, 11, 12, 13, 14, 15, 16, 17, 18, 19, 20, 21, 22, 23,
    24, 25, 26, 27, 28, 29, 30, 31, 32, 33, 34, 35, 36, 37, 38, 39, 40, 41, 42, 43, 44, 45, 46, 47,
    48, 49, 50, 51, 52, 53, 54, 55, 56, 57, 58, 59, 60, 61, 62, 63, 64, 65, 66, 67, 68, 69, 70, 71,
    72, 73, 74, 75, 76, 77, 78, 79, 80, 81, 82, 83, 84, 85, 86, 87, 88, 89, 90, 91, 92, 93, 94, 95,
    96, 97, 98, 99, 100, 101, 102, 103, 104, 105, 106, 107, 108, 109, 110, 111, 112, 113, 114, 115, 116, 117, 118, 119,
    120, 121, 122, 123, 124, 125, 126, 127, 128, 129, 130, 131, 132, 133, 134, 135, 136, 137, 138, 139, 140, 141, 142, 143,
    144, 145, 146, 147, 148, 149, 150, 151, 152, 153, 154, 155, 156, 157, 158, 159, 160, 161, 162, 163, 164, 165, 166, 167,
    168, 169, 170, 171, 172, 173, 174, 175, 176, 177, 178, 179, 180, 181, 182, 183, 184, 185, 186, 187, 188, 189, 190, 191,
    192, 193, 194, 195, 196, 197, 198, 199, 200, 201, 202, 203, 204, 205, 206, 207, 208, 209, 210, 211, 212, 213, 214, 215,
    216, 217, 218, 219, 220, 221, 222, 223, 224, 225, 226, 227, 228, 229, 230, 231, 232, 233, 234, 235, 236, 237, 238, 239,
    240, 241, 242, 243, 244, 245, 246, 247, 248, 249, 250, 251, 252, 253, 254, 255]"
  by code_simp

lemma crc_table_entries: "CRC32_TABLE = map (\<lambda>i. (crc_bit ^^ 8) (word_of_nat i)) [0..<256]"
  by (simp add: CRC32_TABLE_def crc_bit_numeral funpow_8 upt_256)

lemma low_byte_split: "x = (x AND 0xff) XOR push_bit 8 (drop_bit 8 (x :: u32))"
proof -
  have ff: "(0xff :: u32) = mask 8" by (simp add: mask_eq_exp_minus_1)
  show ?thesis unfolding ff by (rule bit_word_eqI) (auto simp: bit_simps)
qed

lemma low_byte_bound: "unat (x AND 0xff :: u32) < 256"
proof -
  have "x AND 0xff \<le> 0xff" by (rule word_and_le1)
  then show ?thesis by (simp add: word_le_nat_alt)
qed

lemma crc32_step_eq: "crc32_step crc v = crc_byte crc v"
proof -
  let ?x = "crc XOR ucast v"
  have "drop_bit 8 (ucast v :: u32) = 0"
    by (rule bit_word_eqI) (auto simp: bit_simps dest: bit_imp_le_length)
  then have high: "drop_bit 8 ?x = drop_bit 8 crc" by (simp add: drop_bit_xor)
  have "CRC32_TABLE ! unat (?x AND 0xff) = (crc_bit ^^ 8) (?x AND 0xff)"
    using low_byte_bound [of ?x] by (simp add: crc_table_entries)
  moreover have "(crc_bit ^^ 8) ?x = (crc_bit ^^ 8) (?x AND 0xff) XOR drop_bit 8 crc"
  proof -
    have "(crc_bit ^^ 8) ?x = (crc_bit ^^ 8) ((?x AND 0xff) XOR push_bit 8 (drop_bit 8 ?x))"
      using low_byte_split [of ?x] by (rule arg_cong)
    then show ?thesis unfolding crc_bits_xor high by (simp add: crc_bits_high)
  qed
  ultimately show ?thesis
    by (simp add: crc32_step_def crc_byte_def)
qed

lemma crc32_helper_append: "crc32_helper (xs @ ys) c = crc32_helper ys (crc32_helper xs c)"
  by (simp add: crc32_helper_def)

lemma crc32_views_concat: "crc32_views vvv = crc32 (concat vvv)"
proof -
  have "foldl (\<lambda>crc vv. crc32_helper vv crc) c vvv = crc32_helper (concat vvv) c" for c
    by (induction vvv arbitrary: c) (simp_all add: crc32_helper_append, simp add: crc32_helper_def)
  then show ?thesis by (simp add: crc32_views_def crc32_def)
qed

section \<open>Properties\<close>

text \<open>
  C29.  The table-driven CRC over any list of views is the bit-by-bit CRC-32 with the polynomial
  0xEDB88320 of the concatenated bytes: all 256 table entries are right, and splitting the input
  into views does not change the result.
\<close>

theorem crc32_matches_polynomial:
  "crc32_views vvv = crc_reference (concat vvv) \<and> crc32 vv = crc_reference vv"
proof -
  have "crc32 v = crc_reference v" for v
    by (simp add: crc32_def crc_reference_def crc32_helper_def crc32_step_eq [abs_def])
  then show ?thesis by (simp add: crc32_views_concat)
qed

end
