(* ===== verification/Stun_Attribute.thy ===== *)
theory Stun_Attribute
  imports Stun_Address Stun_Fingerprint
begin

text \<open>
  The attributes of a STUN message: \<open>stun/stun_attribute.hpp\<close> and \<open>stun/stun_attribute.cpp\<close>.  One
  parser and one builder per attribute, the dispatch on the attribute type, and the constructor
  \<open>Attribute::create\<close>.  The parsers take the statistics by reference; here they return the updated
  statistics beside the result.
\<close>

section \<open>Data\<close>

datatype attr_value =
    XorMappedAddressAttribute xored_address port
  | MappedAddressAttribute address port
  | UsernameAttribute bytes
  | SoftwareAttribute bytes
  | MessageIntegityAttribute bytes
  | FingerprintAttribute u32
  | PriorityAttribute u32
  | IceControllingAttribute u64
  | IceControlledAttribute u64
  | UseCandidateAttribute
  | UnknownAttributesAttribute "attribute_type list"
  | ErrorCodeAttribute u32 "bytes option"
  | AlternateServerAttribute address port

abbreviation TryAlternate :: u32 where "TryAlternate \<equiv> 300"
abbreviation BadRequest :: u32 where "BadRequest \<equiv> 400"
abbreviation Unauthorized :: u32 where "Unauthorized \<equiv> 401"
abbreviation UnknownAttribute_code :: u32 where "UnknownAttribute_code \<equiv> 420"

record attribute =
  a_type :: attribute_type
  a_value :: attr_value

record unknown_attribute =
  ua_type :: attribute_type
  ua_data :: bytes

datatype parse_result = Known attribute | Unknown unknown_attribute

fun attr_type_of :: "attr_value \<Rightarrow> attribute_type" where
  "attr_type_of (XorMappedAddressAttribute _ _) = XOR_MAPPED_ADDRESS"
| "attr_type_of (MappedAddressAttribute _ _) = MAPPED_ADDRESS"
| "attr_type_of (UsernameAttribute _) = USERNAME"
| "attr_type_of (SoftwareAttribute _) = SOFTWARE"
| "attr_type_of (MessageIntegityAttribute _) = MESSAGE_INTEGRITY"
| "attr_type_of (FingerprintAttribute _) = FINGERPRINT"
| "attr_type_of (PriorityAttribute _) = PRIORITY"
| "attr_type_of (IceControllingAttribute _) = ICE_CONTROLLING"
| "attr_type_of (IceControlledAttribute _) = ICE_CONTROLLED"
| "attr_type_of UseCandidateAttribute = USE_CANDIDATE"
| "attr_type_of (UnknownAttributesAttribute _) = UNKNOWN_ATTRIBUTES"
| "attr_type_of (ErrorCodeAttribute _ _) = ERROR_CODE"
| "attr_type_of (AlternateServerAttribute _ _) = ALTERNATE_SERVER"

definition attribute_create :: "attr_value \<Rightarrow> attribute" where
  "attribute_create v = \<lparr>a_type = attr_type_of v, a_value = v\<rparr>"

section \<open>Parsers\<close>

definition mapped_addr_of_family :: "u8 \<Rightarrow> bytes \<Rightarrow> address result" where
  "mapped_addr_of_family fam addr_view =
     (if fam = FAMILY_IPV4 then rmap AddressV4 (addr_from_view v4_size addr_view)
      else if fam = FAMILY_IPV6 then rmap AddressV6 (addr_from_view v6_size addr_view)
      else Inl (ParseError unknown_addr_family))"

definition mapped_address_parse :: "craftpp \<Rightarrow> bytes \<Rightarrow> parse_stat \<Rightarrow> parse_stat \<times> (address \<times> port) result" where
  "mapped_address_parse cv vv st =
     (let family_rv = require ValueRequired (read_u8 cv vv 1);
          port_rv = require ValueRequired (read_u16be cv vv 2);
          addr_view_rv = require ValueRequired (subview_from cv vv 4)
      in case (family_rv, port_rv, addr_view_rv) of
           (Inr fam, Inr port, Inr addr_view) \<Rightarrow>
             (case mapped_addr_of_family fam addr_view of
                Inl err \<Rightarrow>
                  (st\<lparr>ps_error := inc (ps_error st), ps_invalid_ip_address := inc (ps_invalid_ip_address st)\<rparr>, Inl err)
              | Inr addr \<Rightarrow> (st, Inr (addr, port)))
         | _ \<Rightarrow> (st, Inl (pick_err cv (err_list family_rv @ err_list port_rv @ err_list addr_view_rv))))"

definition xor_mapped_address_parse ::
    "craftpp \<Rightarrow> bytes \<Rightarrow> parse_stat \<Rightarrow> parse_stat \<times> (xored_address \<times> port) result" where
  "xor_mapped_address_parse cv vv st =
     (let family_rv = rbind (require ValueRequired (read_u8 cv vv 1)) family_from_uint8
      in case require ValueRequired (read_u16be cv vv 2) of
           Inl err \<Rightarrow>
             (st\<lparr>ps_error := inc (ps_error st),
                 ps_invalid_xor_mapped_address := inc (ps_invalid_xor_mapped_address st)\<rparr>, Inl err)
         | Inr xport \<Rightarrow>
             (let port = ucast (ucast xport XOR drop_bit 16 MAGIC_COOKIE);
                  xaddr_view_rv = require ValueRequired (subview_from cv vv 4)
              in case combine2 cv xored_from_view family_rv xaddr_view_rv of
                   Inl err \<Rightarrow>
                     (st\<lparr>ps_error := inc (ps_error st),
                         ps_invalid_ip_address := inc (ps_invalid_ip_address st)\<rparr>, Inl err)
                 | Inr xaddr \<Rightarrow> (st, Inr (xaddr, port))))"

definition software_parse :: "bytes \<Rightarrow> parse_stat \<Rightarrow> parse_stat \<times> bytes result" where
  "software_parse vv st = (st, Inr vv)"

definition username_parse :: "bytes \<Rightarrow> parse_stat \<Rightarrow> parse_stat \<times> bytes result" where
  "username_parse vv st = (st, Inr vv)"

definition message_integrity_parse :: "bytes \<Rightarrow> parse_stat \<Rightarrow> parse_stat \<times> bytes result" where
  "message_integrity_parse vv st =
     (case hash_from_view sha1_size vv of
        None \<Rightarrow>
          (st\<lparr>ps_error := inc (ps_error st),
              ps_invalid_message_integrity := inc (ps_invalid_message_integrity st)\<rparr>,
           Inl (ParseError integrity_digest_size))
      | Some d \<Rightarrow> (st, Inr d))"

definition fingerprint_parse :: "craftpp \<Rightarrow> bytes \<Rightarrow> parse_stat \<Rightarrow> parse_stat \<times> u32 result" where
  "fingerprint_parse cv vv st =
     (case read_u32be cv vv 0 of
        None \<Rightarrow>
          (st\<lparr>ps_error := inc (ps_error st),
              ps_invalid_fingerprint_size := inc (ps_invalid_fingerprint_size st)\<rparr>,
           Inl (ParseError fingerprint_crc_size))
      | Some crc \<Rightarrow> (st, Inr (crc XOR FINGERPRINT_XOR)))"

definition priority_parse :: "craftpp \<Rightarrow> bytes \<Rightarrow> parse_stat \<Rightarrow> parse_stat \<times> u32 result" where
  "priority_parse cv vv st =
     (case read_u32be cv vv 0 of
        None \<Rightarrow>
          (st\<lparr>ps_error := inc (ps_error st), ps_invalid_priority_size := inc (ps_invalid_priority_size st)\<rparr>,
           Inl (ParseError priority_attribute_size))
      | Some p \<Rightarrow> (st, Inr p))"

definition ice_controlling_parse :: "craftpp \<Rightarrow> bytes \<Rightarrow> parse_stat \<Rightarrow> parse_stat \<times> u64 result" where
  "ice_controlling_parse cv vv st =
     (case read_u64be cv vv 0 of
        None \<Rightarrow>
          (st\<lparr>ps_error := inc (ps_error st),
              ps_invalid_ice_controlling_size := inc (ps_invalid_ice_controlling_size st)\<rparr>,
           Inl (ParseError ice_controlling_size))
      | Some t \<Rightarrow> (st, Inr t))"

definition ice_controlled_parse :: "craftpp \<Rightarrow> bytes \<Rightarrow> parse_stat \<Rightarrow> parse_stat \<times> u64 result" where
  "ice_controlled_parse cv vv st =
     (case read_u64be cv vv 0 of
        None \<Rightarrow>
          (st\<lparr>ps_error := inc (ps_error st),
              ps_invalid_ice_controlled_size := inc (ps_invalid_ice_controlled_size st)\<rparr>,
           Inl (ParseError ice_controlled_size))
      | Some t \<Rightarrow> (st, Inr t))"

definition use_candidate_parse :: "bytes \<Rightarrow> parse_stat \<Rightarrow> parse_stat \<times> unit result" where
  "use_candidate_parse vv st =
     (if length vv \<noteq> 0
      then (st\<lparr>ps_error := inc (ps_error st),
               ps_invalid_use_candidate_size := inc (ps_invalid_use_candidate_size st)\<rparr>,
            Inl (ParseError use_candidate_size))
      else (st, Inr ()))"

definition unknown_attributes_parse ::
    "craftpp \<Rightarrow> bytes \<Rightarrow> parse_stat \<Rightarrow> parse_stat \<times> attribute_type list result" where
  "unknown_attributes_parse cv vv st =
     (if length vv mod 2 \<noteq> 0
      then (st\<lparr>ps_error := inc (ps_error st),
               ps_invalid_unknown_attributes_attr_size := inc (ps_invalid_unknown_attributes_attr_size st)\<rparr>,
            Inl (ParseError unknown_attributes_attribute_size))
      else (st, Inr (map (\<lambda>i. assured_read_u16be cv vv (i * 2)) [0..<length vv div 2])))"

definition error_code_parse ::
    "craftpp \<Rightarrow> bytes \<Rightarrow> parse_stat \<Rightarrow> parse_stat \<times> (u32 \<times> bytes option) result" where
  "error_code_parse cv v st =
     (let maybe_reason = subview_from cv v 4
      in case read_u32be cv v 0 of
           None \<Rightarrow>
             (st\<lparr>ps_error := inc (ps_error st), ps_invalid_error_code_size := inc (ps_invalid_error_code_size st)\<rparr>,
              Inl (ParseError error_code_attribute_size))
         | Some first_word \<Rightarrow>
             (st, Inr (drop_bit 8 first_word * 100 + (first_word AND 0xFF), maybe_reason)))"

definition alternate_server_parse ::
    "craftpp \<Rightarrow> bytes \<Rightarrow> parse_stat \<Rightarrow> parse_stat \<times> (address \<times> port) result" where
  "alternate_server_parse cv view st = mapped_address_parse cv view st"

definition create_attr :: "attribute_type \<Rightarrow> ('a \<Rightarrow> attr_value) \<Rightarrow> parse_stat \<times> 'a result \<Rightarrow> parse_stat \<times> parse_result result" where
  "create_attr t mk r = (fst r, rmap (\<lambda>x. Known \<lparr>a_type = t, a_value = mk x\<rparr>) (snd r))"

definition attribute_parse ::
    "craftpp \<Rightarrow> bytes \<Rightarrow> attribute_type \<Rightarrow> parse_stat \<Rightarrow> parse_stat \<times> parse_result result" where
  "attribute_parse cv vv t st =
     (if t = MAPPED_ADDRESS then create_attr t (\<lambda>(a, p). MappedAddressAttribute a p) (mapped_address_parse cv vv st)
      else if t = XOR_MAPPED_ADDRESS then
        create_attr t (\<lambda>(a, p). XorMappedAddressAttribute a p) (xor_mapped_address_parse cv vv st)
      else if t = USERNAME then create_attr t UsernameAttribute (username_parse vv st)
      else if t = SOFTWARE then create_attr t SoftwareAttribute (software_parse vv st)
      else if t = MESSAGE_INTEGRITY then create_attr t MessageIntegityAttribute (message_integrity_parse vv st)
      else if t = FINGERPRINT then create_attr t FingerprintAttribute (fingerprint_parse cv vv st)
      else if t = PRIORITY then create_attr t PriorityAttribute (priority_parse cv vv st)
      else if t = ICE_CONTROLLING then create_attr t IceControllingAttribute (ice_controlling_parse cv vv st)
      else if t = ICE_CONTROLLED then create_attr t IceControlledAttribute (ice_controlled_parse cv vv st)
      else if t = USE_CANDIDATE then create_attr t (\<lambda>_. UseCandidateAttribute) (use_candidate_parse vv st)
      else if t = ERROR_CODE then create_attr t (\<lambda>(c, r). ErrorCodeAttribute c r) (error_code_parse cv vv st)
      else if t = ALTERNATE_SERVER then
        create_attr t (\<lambda>(a, p). AlternateServerAttribute a p) (alternate_server_parse cv vv st)
      else if t = UNKNOWN_ATTRIBUTES then
        create_attr t UnknownAttributesAttribute (unknown_attributes_parse cv vv st)
      else (st, Inr (Unknown \<lparr>ua_type = t, ua_data = vv\<rparr>)))"

section \<open>Builders\<close>

definition mapped_address_build :: "craftpp \<Rightarrow> address \<Rightarrow> port \<Rightarrow> bytes" where
  "mapped_address_build cv addr port =
     (let (fam, view) = (case addr of AddressV4 a \<Rightarrow> (FAMILY_IPV4, a) | AddressV6 a \<Rightarrow> (FAMILY_IPV6, a));
          first_word = net_u32 cv (ucast port OR drop_bit 16 (ucast fam))
      in view_concat [first_word, view])"

definition xor_mapped_address_build :: "craftpp \<Rightarrow> xored_address \<Rightarrow> port \<Rightarrow> bytes" where
  "xor_mapped_address_build cv addr port =
     (let xport = (ucast (ucast port XOR drop_bit 16 MAGIC_COOKIE) :: u16);
          fam = family_to_uint8 (xored_family addr);
          first_word = net_u32 cv (ucast xport OR push_bit 16 (ucast fam))
      in view_concat [first_word, xored_view addr])"

definition unknown_attributes_build :: "craftpp \<Rightarrow> attribute_type list \<Rightarrow> bytes" where
  "unknown_attributes_build cv types = view_concat (map (net_u16 cv) types)"

definition error_code_build :: "craftpp \<Rightarrow> u32 \<Rightarrow> bytes option \<Rightarrow> bytes" where
  "error_code_build cv code reason =
     (let first_word = net_u32 cv (push_bit 8 (code div 100) OR (code mod 100))
      in view_concat [first_word, (case reason of Some r \<Rightarrow> r | None \<Rightarrow> [])])"

definition alternate_server_build :: "craftpp \<Rightarrow> address \<Rightarrow> port \<Rightarrow> bytes" where
  "alternate_server_build cv addr port = mapped_address_build cv addr port"

definition known_types :: "attribute_type list" where
  "known_types = [MAPPED_ADDRESS, XOR_MAPPED_ADDRESS, USERNAME, SOFTWARE, MESSAGE_INTEGRITY, FINGERPRINT,
     PRIORITY, ICE_CONTROLLING, ICE_CONTROLLED, USE_CANDIDATE, ERROR_CODE, ALTERNATE_SERVER, UNKNOWN_ATTRIBUTES]"

fun attr_value_wf :: "attr_value \<Rightarrow> bool" where
  "attr_value_wf (XorMappedAddressAttribute a _) = xored_address_wf a"
| "attr_value_wf (MappedAddressAttribute a _) = address_wf a"
| "attr_value_wf (AlternateServerAttribute a _) = address_wf a"
| "attr_value_wf (MessageIntegityAttribute d) = (length d = sha1_size)"
| "attr_value_wf _ = True"

definition attribute_wf :: "attribute \<Rightarrow> bool" where
  "attribute_wf a \<longleftrightarrow> a_type a = attr_type_of (a_value a) \<and> attr_value_wf (a_value a)"

section \<open>What the parsers return\<close>

lemmas attr_parser_defs = mapped_address_parse_def xor_mapped_address_parse_def software_parse_def
  username_parse_def message_integrity_parse_def fingerprint_parse_def priority_parse_def
  ice_controlling_parse_def ice_controlled_parse_def use_candidate_parse_def
  unknown_attributes_parse_def error_code_parse_def alternate_server_parse_def

definition parser_ok :: "parse_stat \<Rightarrow> parse_stat \<times> 'a result \<Rightarrow> bool" where
  \<comment> \<open>a success leaves the statistics alone; a failure counts one error, but for a missing value\<close>
  "parser_ok st r \<longleftrightarrow>
     (case snd r of
        Inr _ \<Rightarrow> fst r = st
      | Inl e \<Rightarrow> stat_failed st (fst r) \<or> (e = ValueRequired \<and> fst r = st))"

lemma parser_ok_create_attr [simp]: "parser_ok st (create_attr t mk r) \<longleftrightarrow> parser_ok st r"
  by (cases "snd r") (simp_all add: parser_ok_def create_attr_def)

lemma parser_ok_simple:
  "parser_ok st (software_parse vv st)"
  "parser_ok st (username_parse vv st)"
  "parser_ok st (message_integrity_parse vv st)"
  "parser_ok st (fingerprint_parse cv vv st)"
  "parser_ok st (priority_parse cv vv st)"
  "parser_ok st (ice_controlling_parse cv vv st)"
  "parser_ok st (ice_controlled_parse cv vv st)"
  "parser_ok st (use_candidate_parse vv st)"
  "parser_ok st (unknown_attributes_parse cv vv st)"
  "parser_ok st (error_code_parse cv vv st)"
  by (auto simp: parser_ok_def attr_parser_defs Let_def stat_failed_def inc_def split: option.split)

lemma parser_ok_xor_mapped: "parser_ok st (xor_mapped_address_parse cv vv st)"
  by (auto simp: parser_ok_def xor_mapped_address_parse_def Let_def stat_failed_def inc_def split: sum.split)

context binary_view
begin

lemma pick_value_required:
  "set es \<subseteq> {ValueRequired} \<Longrightarrow> es \<noteq> [] \<Longrightarrow> pick_err cv es = ValueRequired"
  using pick_err_in [of es] by auto

lemma parser_ok_mapped: "parser_ok st (mapped_address_parse cv vv st)"
  unfolding mapped_address_parse_def
  by (cases "read_u8 cv vv 1"; cases "read_u16be cv vv 2"; cases "subview_from cv vv 4")
    (auto simp: Let_def parser_ok_def stat_failed_def inc_def pick_value_required split: sum.split)

lemma parser_ok_attribute: "parser_ok st (attribute_parse cv vv t st)"
  by (auto simp: attribute_parse_def parser_ok_simple parser_ok_xor_mapped parser_ok_mapped
      alternate_server_parse_def) (simp add: parser_ok_def)

end

lemma mapped_addr_of_family_wf: "mapped_addr_of_family f v = Inr a \<Longrightarrow> address_wf a"
  by (auto simp: mapped_addr_of_family_def split: if_splits)

lemma mapped_address_parse_wf: "mapped_address_parse cv vv st = (st', Inr (a, p)) \<Longrightarrow> address_wf a"
  by (auto simp: mapped_address_parse_def Let_def mapped_addr_of_family_wf split: sum.splits)

lemma xor_mapped_address_parse_wf: "xor_mapped_address_parse cv vv st = (st', Inr (a, p)) \<Longrightarrow> xored_address_wf a"
  by (auto simp: xor_mapped_address_parse_def Let_def combine2_eq_Inr dest: xored_from_view_Inr split: sum.splits)

lemma message_integrity_parse_wf: "message_integrity_parse vv st = (st', Inr d) \<Longrightarrow> length d = sha1_size"
  by (auto simp: message_integrity_parse_def hash_from_view_def split: if_splits)

lemma create_attr_Inr:
  "create_attr t mk r = (st', Inr pr) \<longleftrightarrow> (\<exists>x. r = (st', Inr x) \<and> pr = Known \<lparr>a_type = t, a_value = mk x\<rparr>)"
  by (cases r; cases "snd r") (auto simp: create_attr_def)

lemma attribute_parse_known:
  assumes "attribute_parse cv vv t st = (st', Inr (Known a))"
  shows "attribute_wf a \<and> a_type a = t"
  using assms
  by (auto simp: attribute_parse_def attribute_wf_def create_attr_Inr alternate_server_parse_def
      split: if_splits
      dest: mapped_address_parse_wf xor_mapped_address_parse_wf message_integrity_parse_wf)

lemma attribute_parse_unknown:
  assumes "attribute_parse cv vv t st = (st', Inr (Unknown u))"
  shows "u = \<lparr>ua_type = t, ua_data = vv\<rparr> \<and> t \<notin> set known_types \<and> st' = st"
  using assms
  by (auto simp: attribute_parse_def known_types_def create_attr_Inr split: if_splits)

lemma attribute_parse_unknown_type:
  "t \<notin> set known_types \<Longrightarrow> attribute_parse cv vv t st = (st, Inr (Unknown \<lparr>ua_type = t, ua_data = vv\<rparr>))"
  by (simp add: attribute_parse_def known_types_def)

lemma known_type_of: "attr_type_of v \<in> set known_types"
  by (cases v) (simp_all add: known_types_def)

section \<open>Round trips\<close>

fun reason_text :: "bytes option \<Rightarrow> bytes" where
  "reason_text None = []"
| "reason_text (Some r) = r"

fun attr_equiv :: "attr_value \<Rightarrow> attr_value \<Rightarrow> bool" where
  \<comment> \<open>equality, but for an absent reason phrase, which is the same as an empty one\<close>
  "attr_equiv (ErrorCodeAttribute c r) v =
     (case v of ErrorCodeAttribute c' r' \<Rightarrow> c' = c \<and> reason_text r' = reason_text r | _ \<Rightarrow> False)"
| "attr_equiv u v = (v = u)"

fun attr_encode :: "craftpp \<Rightarrow> attr_value \<Rightarrow> bytes" where
  "attr_encode cv (XorMappedAddressAttribute a p) = xor_mapped_address_build cv a p"
| "attr_encode cv (MappedAddressAttribute a p) = mapped_address_build cv a p"
| "attr_encode cv (UsernameAttribute n) = n"
| "attr_encode cv (SoftwareAttribute n) = n"
| "attr_encode cv (MessageIntegityAttribute d) = d"
| "attr_encode cv (FingerprintAttribute c) = net_u32 cv (c XOR FINGERPRINT_XOR)"
| "attr_encode cv (PriorityAttribute p) = net_u32 cv p"
| "attr_encode cv (IceControllingAttribute t) = net_u64 cv t"
| "attr_encode cv (IceControlledAttribute t) = net_u64 cv t"
| "attr_encode cv UseCandidateAttribute = []"
| "attr_encode cv (UnknownAttributesAttribute ts) = unknown_attributes_build cv ts"
| "attr_encode cv (ErrorCodeAttribute c r) = error_code_build cv c r"
| "attr_encode cv (AlternateServerAttribute a p) = alternate_server_build cv a p"

fun encodable :: "attr_value \<Rightarrow> bool" where
  "encodable (MappedAddressAttribute _ _) = False"
| "encodable (AlternateServerAttribute _ _) = False"
| "encodable (ErrorCodeAttribute c _) = (c < 1677721600)"
| "encodable _ = True"

lemma slice_concat_words:
  "i < length ts \<Longrightarrow> slice (concat (map (be_encode 2) ts)) (i * 2) 2 = be_encode 2 (ts ! i)"
proof (induction ts arbitrary: i)
  case Nil
  then show ?case by simp
next
  case (Cons t ts)
  then show ?case by (cases i) (simp_all add: slice_def)
qed

lemma length_concat_words: "length (concat (map (be_encode 2) ts)) = 2 * length ts"
  by (induction ts) simp_all

lemma first_word_fields:
  fixes w :: u32
  shows "(be_encode 4 w @ xs) ! Suc 0 = ucast (drop_bit 16 w)"
    and "be_decode (slice (be_encode 4 w @ xs) 2 2) = (ucast w :: u16)"
    and "be_decode (slice (be_encode 4 w @ xs) 0 4) = w"
proof -
  have "slice (be_encode 4 w @ xs) 2 2 = be_encode 2 (ucast w :: u16)"
    by (simp add: slice_def be_encode_4 be_encode_2) (intro conjI bit_word_eqI; auto simp: bit_simps)
  then show "be_decode (slice (be_encode 4 w @ xs) 2 2) = (ucast w :: u16)" by simp
qed (simp_all add: slice_def be_encode_4, simp add: be_encode_4 [symmetric])

lemma xor_port_twice: "ucast (ucast (ucast (ucast p XOR k :: u32) :: u16) XOR k :: u32) = (p :: u16)"
  by (rule bit_word_eqI) (auto simp: bit_simps)

lemma xor_first_word:
  fixes x :: u16 and f :: u8
  shows "ucast (drop_bit 16 (ucast x OR push_bit 16 (ucast f)) :: u32) = f"
    and "ucast (ucast x OR push_bit 16 (ucast f) :: u32) = x"
  by (rule bit_word_eqI; auto simp: bit_simps dest: bit_imp_le_length)+

lemma error_code_word:
  fixes c :: u32
  assumes "c < 1677721600"
  shows "drop_bit 8 (push_bit 8 (c div 100) OR c mod 100) * 100
           + ((push_bit 8 (c div 100) OR c mod 100) AND 0xFF) = c"
proof -
  define q r where "q = c div 100" and "r = c mod 100"
  have c: "q * 100 + r = c" unfolding q_def r_def by (rule div_mult_mod_eq)
  have "unat c < 1677721600" using assms by (simp add: word_less_nat_alt)
  then have q: "unat q < 2 ^ 24" by (simp add: q_def unat_div less_mult_imp_div_less)
  have r: "unat r < 2 ^ 8" by (simp add: r_def unat_mod)
  have ff: "(0xFF :: u32) = mask 8" by (simp add: mask_eq_exp_minus_1)
  have "drop_bit 8 (push_bit 8 q OR r) = q"
    by (rule bit_word_eqI) (auto simp: bit_simps dest: bit_small [OF q] bit_small [OF r])
  moreover have "(push_bit 8 q OR r) AND 0xFF = r"
    unfolding ff by (rule bit_word_eqI) (auto simp: bit_simps dest: bit_small [OF r])
  ultimately show ?thesis using c by (simp flip: q_def r_def)
qed

context binary_view
begin

lemma attr_roundtrip_xor:
  assumes "xored_address_wf a"
  shows "xor_mapped_address_parse cv (xor_mapped_address_build cv a p) st = (st, Inr (a, p))"
proof -
  have len: "4 < length (xored_view a) + 4" using assms by (cases a) simp_all
  show ?thesis
    unfolding xor_mapped_address_parse_def xor_mapped_address_build_def Let_def
    using len assms
    by (simp add: net_u32_eq read_u8_eq read_u16be_eq subview_from_in first_word_fields
        xor_first_word xor_port_twice del: drop_bit_or)
qed

lemma attr_roundtrip_error:
  assumes "c < 1677721600"
  shows "\<exists>r'. error_code_parse cv (error_code_build cv c r) st = (st, Inr (c, r')) \<and> reason_text r' = reason_text r"
proof -
  let ?b = "error_code_build cv c r"
  have b: "?b = be_encode 4 (push_bit 8 (c div 100) OR c mod 100) @ reason_text r"
    by (cases r) (simp_all add: error_code_build_def Let_def net_u32_eq)
  have "reason_text (subview_from cv ?b 4) = reason_text r"
    by (cases rule: subview_from_cases [of 4 ?b]) (auto simp: b)
  then show ?thesis
    by (simp add: error_code_parse_def Let_def b read_u32be_eq first_word_fields error_code_word [OF assms]
        del: drop_bit_or)
qed

lemma attr_roundtrip_unknown_attributes:
  "unknown_attributes_parse cv (unknown_attributes_build cv ts) st = (st, Inr ts)"
proof -
  have "assured_read_u16be cv (concat (map (be_encode 2) ts)) (i * 2) = ts ! i" if "i < length ts" for i
    using that by (subst assured_read_u16be_eq) (simp_all add: length_concat_words slice_concat_words)
  then have "map (\<lambda>i. assured_read_u16be cv (concat (map (be_encode 2) ts)) (i * 2)) [0..<length ts] = ts"
    by (intro nth_equalityI) simp_all
  then show ?thesis
    by (simp add: unknown_attributes_parse_def unknown_attributes_build_def net_u16_eq [abs_def]
        length_concat_words)
qed

lemma attribute_roundtrip:
  assumes "encodable v" "attr_value_wf v"
  shows "\<exists>v'. attribute_parse cv (attr_encode cv v) (attr_type_of v) st
           = (st, Inr (Known \<lparr>a_type = attr_type_of v, a_value = v'\<rparr>)) \<and> attr_equiv v v'"
proof (cases v)
  case (ErrorCodeAttribute c r)
  with assms obtain r' where
    "error_code_parse cv (error_code_build cv c r) st = (st, Inr (c, r'))" "reason_text r' = reason_text r"
    using attr_roundtrip_error [of c r st] by auto
  then show ?thesis using ErrorCodeAttribute by (simp add: attribute_parse_def create_attr_def)
qed (use assms in \<open>simp_all add: attribute_parse_def create_attr_def attr_roundtrip_xor
      attr_roundtrip_unknown_attributes fingerprint_parse_def priority_parse_def ice_controlling_parse_def
      ice_controlled_parse_def use_candidate_parse_def username_parse_def software_parse_def
      message_integrity_parse_def hash_from_view_def net_u32_eq net_u64_eq read_u32be_eq read_u64be_eq
      slice_def xor.assoc\<close>)

lemma mapped_build_family_lost:
  assumes "address_wf a"
  shows "mapped_address_parse cv (mapped_address_build cv a p) st =
    (st\<lparr>ps_error := inc (ps_error st), ps_invalid_ip_address := inc (ps_invalid_ip_address st)\<rparr>,
     Inl (ParseError unknown_addr_family))"
proof -
  have fam: "drop_bit 16 (ucast p OR drop_bit 16 (ucast f :: u32)) = (0 :: u32)" for f :: u8
    by (rule bit_word_eqI) (auto simp: bit_simps dest: bit_imp_le_length)
  obtain w where b: "mapped_address_build cv a p = be_encode 4 w @ address_view a"
    and w: "drop_bit 16 w = (0 :: u32)"
    using fam by (cases a) (auto simp: mapped_address_build_def Let_def net_u32_eq)
  have "4 < length (be_encode 4 w @ address_view a)" using assms by (cases a) simp_all
  then show ?thesis
    unfolding b mapped_address_parse_def Let_def mapped_addr_of_family_def
    by (simp add: read_u8_eq read_u16be_eq subview_from_in first_word_fields w)
qed

end

section \<open>Properties\<close>

text \<open>
  C28.  Every attribute that the library builds, apart from the two plain-address attributes, is read
  back by the dispatching parser as itself, without touching the statistics: for all values of the
  C++ types and for error codes below \<open>2 ^ 24 * 100\<close>.
\<close>

theorem attribute_parse_build:
  assumes "binary_view cv" "encodable v" "attr_value_wf v"
  shows "\<exists>v'. attribute_parse cv (attr_encode cv v) (attr_type_of v) st
           = (st, Inr (Known \<lparr>a_type = attr_type_of v, a_value = v'\<rparr>)) \<and> attr_equiv v v'"
  using assms by (intro binary_view.attribute_roundtrip)

theorem attribute_parse_build_witness:
  "attribute_parse list_view (attr_encode list_view (PriorityAttribute 7)) PRIORITY zero_stat
     = (zero_stat, Inr (Known \<lparr>a_type = PRIORITY, a_value = PriorityAttribute 7\<rparr>))"
  using attribute_parse_build [OF binary_view_list_view, of "PriorityAttribute 7" zero_stat] by simp

text \<open>
  C33.  MAPPED-ADDRESS and ALTERNATE-SERVER do not survive the round trip: the builder shifts the
  address family out of the first word, so the library's own parser rejects every such attribute it
  builds with an unknown address family.
\<close>

theorem mapped_address_build_unparseable:
  assumes "binary_view cv" "address_wf a"
  shows "snd (attribute_parse cv (attr_encode cv (MappedAddressAttribute a p)) MAPPED_ADDRESS st)
           = Inl (ParseError unknown_addr_family)
       \<and> snd (attribute_parse cv (attr_encode cv (AlternateServerAttribute a p)) ALTERNATE_SERVER st)
           = Inl (ParseError unknown_addr_family)"
  using assms
  by (simp add: attribute_parse_def create_attr_def alternate_server_parse_def alternate_server_build_def
      binary_view.mapped_build_family_lost)

theorem mapped_address_build_unparseable_witness:
  "snd (attribute_parse list_view (attr_encode list_view (MappedAddressAttribute (AddressV4 [10, 0, 0, 1]) 80))
     MAPPED_ADDRESS zero_stat) = Inl (ParseError unknown_addr_family)"
proof -
  have "address_wf (AddressV4 [10, 0, 0, 1])" by simp
  from mapped_address_build_unparseable [OF binary_view_list_view this] show ?thesis by blast
qed

text \<open>
  Whatever the bytes, an attribute that the parser accepts has the type that was asked for, a
  value of the matching kind and arrays of the declared sizes; a success leaves the statistics
  unchanged and a failure counts exactly one error, unless the failure is a missing value.
\<close>

theorem attribute_parse_sound:
  assumes "binary_view cv" "attribute_parse cv vv t st = (st', r)"
  shows "case r of
      Inr (Known a) \<Rightarrow> attribute_wf a \<and> a_type a = t \<and> st' = st
    | Inr (Unknown u) \<Rightarrow> u = \<lparr>ua_type = t, ua_data = vv\<rparr> \<and> t \<notin> set known_types \<and> st' = st
    | Inl e \<Rightarrow> stat_failed st st' \<or> (e = ValueRequired \<and> st' = st)"
proof -
  have "parser_ok st (st', r)"
    using binary_view.parser_ok_attribute [OF assms(1), of st vv t] assms(2) by simp
  then show ?thesis
    using assms(2) attribute_parse_known attribute_parse_unknown
    by (fastforce simp: parser_ok_def split: sum.splits parse_result.splits)
qed

theorem attribute_parse_sound_witness:
  "attribute_parse list_view [0, 0, 0, 9] PRIORITY zero_stat
     = (zero_stat, Inr (Known \<lparr>a_type = PRIORITY, a_value = PriorityAttribute 9\<rparr>))
   \<and> attribute_wf \<lparr>a_type = PRIORITY, a_value = PriorityAttribute 9\<rparr>"
proof -
  have p: "attribute_parse list_view [0, 0, 0, 9] PRIORITY zero_stat
     = (zero_stat, Inr (Known \<lparr>a_type = PRIORITY, a_value = PriorityAttribute 9\<rparr>))"
    by code_simp
  from attribute_parse_sound [OF binary_view_list_view p] p show ?thesis by simp
qed

end
