(* ===== verification/Stun_Attribute_Set.thy ===== *)
theory Stun_Attribute_Set
  imports Stun_Attribute
begin

text \<open>
  The attribute container and the message builder: \<open>stun/stun_attribute_set.hpp\<close> and
  \<open>stun/stun_attribute_set.cpp\<close>.  The \<open>unordered_map\<close> from attribute types to attributes is an
  association list with distinct keys; the order in which the sources iterate over it is not
  specified by the language, so the builder takes it as a parameter \<open>ord\<close> of which locale
  \<open>map_order\<close> only says that it visits every entry once.

  An accessor such as \<open>integrity()\<close> looks an attribute up and dereferences the pointer that
  \<open>std::get_if\<close> returns; with a value of another kind the pointer is null and the behaviour
  undefined, which is \<open>the None\<close> here.  \<open>attrs_wf\<close> is the invariant that rules it out.
\<close>

type_synonym attr_map = "(attribute_type \<times> attribute) list"

record attribute_set =
  as_map :: attr_map
  as_unknown :: "unknown_attribute list"

definition empty_set :: attribute_set where
  "empty_set = \<lparr>as_map = [], as_unknown = []\<rparr>"

definition emplace :: "attribute \<Rightarrow> attribute_set \<Rightarrow> attribute_set" where
  "emplace a s =
     (if map_of (as_map s) (a_type a) \<noteq> None then s
      else s\<lparr>as_map := as_map s @ [(a_type a, a)]\<rparr>)"

definition emplace_unknown :: "unknown_attribute \<Rightarrow> attribute_set \<Rightarrow> attribute_set" where
  "emplace_unknown u s = s\<lparr>as_unknown := as_unknown s @ [u]\<rparr>"

definition set_create :: "attr_value list \<Rightarrow> unknown_attribute list \<Rightarrow> attribute_set" where
  "set_create ka ua = fold emplace_unknown ua (fold (\<lambda>v. emplace (attribute_create v)) ka empty_set)"

section \<open>Accessors\<close>

fun as_integrity :: "attr_value \<Rightarrow> bytes option" where
  "as_integrity (MessageIntegityAttribute d) = Some d"
| "as_integrity _ = None"

fun as_username :: "attr_value \<Rightarrow> bytes option" where
  "as_username (UsernameAttribute n) = Some n"
| "as_username _ = None"

fun as_software :: "attr_value \<Rightarrow> bytes option" where
  "as_software (SoftwareAttribute n) = Some n"
| "as_software _ = None"

fun as_xor_mapped :: "attr_value \<Rightarrow> (xored_address \<times> port) option" where
  "as_xor_mapped (XorMappedAddressAttribute a p) = Some (a, p)"
| "as_xor_mapped _ = None"

fun as_mapped :: "attr_value \<Rightarrow> (address \<times> port) option" where
  "as_mapped (MappedAddressAttribute a p) = Some (a, p)"
| "as_mapped _ = None"

fun as_priority :: "attr_value \<Rightarrow> u32 option" where
  "as_priority (PriorityAttribute p) = Some p"
| "as_priority _ = None"

fun as_ice_controlling :: "attr_value \<Rightarrow> u64 option" where
  "as_ice_controlling (IceControllingAttribute t) = Some t"
| "as_ice_controlling _ = None"

fun as_ice_controlled :: "attr_value \<Rightarrow> u64 option" where
  "as_ice_controlled (IceControlledAttribute t) = Some t"
| "as_ice_controlled _ = None"

fun as_error_code :: "attr_value \<Rightarrow> (u32 \<times> bytes option) option" where
  "as_error_code (ErrorCodeAttribute c r) = Some (c, r)"
| "as_error_code _ = None"

fun as_unknown_attributes :: "attr_value \<Rightarrow> attribute_type list option" where
  "as_unknown_attributes (UnknownAttributesAttribute ts) = Some ts"
| "as_unknown_attributes _ = None"

fun as_alternate_server :: "attr_value \<Rightarrow> (address \<times> port) option" where
  "as_alternate_server (AlternateServerAttribute a p) = Some (a, p)"
| "as_alternate_server _ = None"

fun as_fingerprint :: "attr_value \<Rightarrow> u32 option" where
  "as_fingerprint (FingerprintAttribute c) = Some c"
| "as_fingerprint _ = None"

definition access :: "attribute_type \<Rightarrow> (attr_value \<Rightarrow> 'a option) \<Rightarrow> attribute_set \<Rightarrow> 'a option" where
  "access t as s = map_option (\<lambda>a. the (as (a_value a))) (map_of (as_map s) t)"

definition get_integrity :: "attribute_set \<Rightarrow> bytes option" where
  "get_integrity = access MESSAGE_INTEGRITY as_integrity"
definition get_username :: "attribute_set \<Rightarrow> bytes option" where
  "get_username = access USERNAME as_username"
definition get_software :: "attribute_set \<Rightarrow> bytes option" where
  "get_software = access SOFTWARE as_software"
definition get_xor_mapped :: "attribute_set \<Rightarrow> (xored_address \<times> port) option" where
  "get_xor_mapped = access XOR_MAPPED_ADDRESS as_xor_mapped"
definition get_mapped :: "attribute_set \<Rightarrow> (address \<times> port) option" where
  "get_mapped = access MAPPED_ADDRESS as_mapped"
definition get_priority :: "attribute_set \<Rightarrow> u32 option" where
  "get_priority = access PRIORITY as_priority"
definition get_ice_controlling :: "attribute_set \<Rightarrow> u64 option" where
  "get_ice_controlling = access ICE_CONTROLLING as_ice_controlling"
definition get_ice_controlled :: "attribute_set \<Rightarrow> u64 option" where
  "get_ice_controlled = access ICE_CONTROLLED as_ice_controlled"
definition get_error_code :: "attribute_set \<Rightarrow> (u32 \<times> bytes option) option" where
  "get_error_code = access ERROR_CODE as_error_code"
definition get_unknown_attributes :: "attribute_set \<Rightarrow> attribute_type list option" where
  "get_unknown_attributes = access UNKNOWN_ATTRIBUTES as_unknown_attributes"
definition get_alternate_server :: "attribute_set \<Rightarrow> (address \<times> port) option" where
  "get_alternate_server = access ALTERNATE_SERVER as_alternate_server"

definition has_use_candidate :: "attribute_set \<Rightarrow> bool" where
  "has_use_candidate s \<longleftrightarrow> map_of (as_map s) USE_CANDIDATE \<noteq> None"

definition has_fingerprint :: "attribute_set \<Rightarrow> bool" where
  "has_fingerprint s \<longleftrightarrow> map_of (as_map s) FINGERPRINT \<noteq> None"

definition unknown_comprehension_required :: "attribute_set \<Rightarrow> attribute_type list" where
  "unknown_comprehension_required s = map ua_type (filter (\<lambda>p. is_comprehension_required (ua_type p)) (as_unknown s))"

section \<open>Building a message\<close>

type_synonym build_state = "bytes list \<times> u32"

definition add_attr :: "craftpp \<Rightarrow> attribute_type \<Rightarrow> bytes \<Rightarrow> build_state \<Rightarrow> build_state" where
  "add_attr cv t view b =
     (let (views, total_size) = b;
          views = views @ [net_u32 cv (push_bit 16 (ucast t) OR of_nat (length view))];
          total_size = total_size + 4
      in if length view \<noteq> 0
         then let views = views @ [view]; total_size = total_size + of_nat (length view)
              in if length view mod 4 \<noteq> 0
                 then let padding_size = 4 - length view mod 4
                      in (views @ [replicate padding_size 0], total_size + of_nat padding_size)
                 else (views, total_size)
         else (views, total_size))"

fun visit_value :: "craftpp \<Rightarrow> attr_value \<Rightarrow> bytes option" where
  "visit_value cv (UsernameAttribute n) = Some n"
| "visit_value cv (SoftwareAttribute n) = Some n"
| "visit_value cv (XorMappedAddressAttribute a p) = Some (xor_mapped_address_build cv a p)"
| "visit_value cv (MappedAddressAttribute a p) = Some (mapped_address_build cv a p)"
| "visit_value cv (PriorityAttribute p) = Some (net_u32 cv p)"
| "visit_value cv (IceControllingAttribute t) = Some (net_u64 cv t)"
| "visit_value cv (IceControlledAttribute t) = Some (net_u64 cv t)"
| "visit_value cv UseCandidateAttribute = Some []"
| "visit_value cv (ErrorCodeAttribute c r) = Some (error_code_build cv c r)"
| "visit_value cv (UnknownAttributesAttribute ts) = Some (unknown_attributes_build cv ts)"
| "visit_value cv (AlternateServerAttribute a p) = Some (alternate_server_build cv a p)"
| "visit_value cv (MessageIntegityAttribute _) = None"
| "visit_value cv (FingerprintAttribute _) = None"

definition add_known :: "craftpp \<Rightarrow> attribute_type \<times> attribute \<Rightarrow> build_state \<Rightarrow> build_state" where
  "add_known cv p b =
     (case visit_value cv (a_value (snd p)) of
        None \<Rightarrow> b
      | Some vec \<Rightarrow> add_attr cv (fst p) vec b)"

definition add_unknown :: "craftpp \<Rightarrow> unknown_attribute \<Rightarrow> build_state \<Rightarrow> build_state" where
  "add_unknown cv u b = add_attr cv (ua_type u) (ua_data u) b"

definition add_integrity :: "craftpp \<Rightarrow> header \<Rightarrow> integrity_data \<Rightarrow> build_state \<Rightarrow> build_state result" where
  "add_integrity cv hdr i b =
     (let (views, total_size) = b;
          fake_header = header_build cv hdr (unat total_size + STUN_ATTR_HEADER_SIZE + sha1_size);
          p = id_password i
      in rmap (\<lambda>d. add_attr cv MESSAGE_INTEGRITY d b)
           (hmac_digest (fake_header # views) (pw_opad p) (pw_ipad p) (id_hash i)))"

definition add_fingerprint :: "craftpp \<Rightarrow> header \<Rightarrow> build_state \<Rightarrow> bytes \<times> build_state" where
  "add_fingerprint cv hdr b =
     (let (views, total_size) = b;
          real_header = header_build cv hdr (unat total_size + FINGERPRINT_CRC_SIZE + STUN_ATTR_HEADER_SIZE);
          fp = crc32_views (real_header # views) XOR FINGERPRINT_XOR
      in (real_header, add_attr cv FINGERPRINT (net_u32 cv fp) b))"

definition no_fingerprint :: "craftpp \<Rightarrow> header \<Rightarrow> build_state \<Rightarrow> bytes \<times> build_state" where
  "no_fingerprint cv hdr b = (header_build cv hdr (unat (snd b)), b)"

definition set_build ::
    "craftpp \<Rightarrow> (attr_map \<Rightarrow> attr_map) \<Rightarrow> attribute_set \<Rightarrow> header \<Rightarrow> maybe_integrity \<Rightarrow> bytes result" where
  "set_build cv ord s hdr mi =
     (let b = fold (add_unknown cv) (as_unknown s) (fold (add_known cv) (ord (as_map s)) ([], 0))
      in rbind (case mi of None \<Rightarrow> Inr b | Some i \<Rightarrow> add_integrity cv hdr i b) (\<lambda>b.
         (let (real_header, views, _) =
               (if map_of (as_map s) FINGERPRINT \<noteq> None then add_fingerprint cv hdr b
                else no_fingerprint cv hdr b)
          in Inr (view_concat (real_header # views)))))"

locale map_order =
  fixes ord :: "attr_map \<Rightarrow> attr_map"
  assumes ord_mset: "mset (ord m) = mset m"
begin

lemma set_ord: "set (ord m) = set m"
  by (metis ord_mset set_mset_mset)

lemma distinct_ord: "distinct (map fst (ord m)) \<longleftrightarrow> distinct (map fst m)"
  by (metis mset_map ord_mset mset_eq_imp_distinct_iff)

lemma map_of_ord:
  assumes "distinct (map fst m)"
  shows "map_of (ord m) = map_of m"
proof
  fix k
  have "map_of (ord m) k = Some v \<longleftrightarrow> map_of m k = Some v" for v
    using assms by (simp add: map_of_eq_Some_iff distinct_ord set_ord)
  then show "map_of (ord m) k = map_of m k" by (metis not_None_eq)
qed

end

text \<open>Insertion order, and reverse insertion order, are two such orders.\<close>

interpretation id_order: map_order "\<lambda>m. m"
  by unfold_locales simp

interpretation rev_order: map_order rev
  by unfold_locales simp

lemma map_order_id: "map_order (\<lambda>m. m)"
  by (rule id_order.map_order_axioms)

lemma map_order_rev: "map_order rev"
  by (rule rev_order.map_order_axioms)

section \<open>The invariant of the container\<close>

definition attrs_wf :: "attribute_set \<Rightarrow> bool" where
  "attrs_wf s \<longleftrightarrow> distinct (map fst (as_map s)) \<and>
     (\<forall>(t, a) \<in> set (as_map s). t = a_type a \<and> attribute_wf a)"

lemma attrs_wf_empty [simp]: "attrs_wf empty_set"
  by (simp add: attrs_wf_def empty_set_def)

lemma emplace_wf: "attrs_wf s \<Longrightarrow> attribute_wf a \<Longrightarrow> attrs_wf (emplace a s)"
  by (auto simp: attrs_wf_def emplace_def map_of_eq_None_iff image_iff)

lemma emplace_unknown_wf [simp]: "attrs_wf (emplace_unknown u s) \<longleftrightarrow> attrs_wf s"
  by (simp add: attrs_wf_def emplace_unknown_def)

lemma attribute_create_wf: "attr_value_wf v \<Longrightarrow> attribute_wf (attribute_create v)"
  by (simp add: attribute_wf_def attribute_create_def)

lemma fold_emplace_wf: "attrs_wf s \<Longrightarrow> \<forall>v \<in> set ka. attr_value_wf v \<Longrightarrow> attrs_wf (fold (\<lambda>v. emplace (attribute_create v)) ka s)"
  by (induction ka arbitrary: s) (simp_all add: emplace_wf attribute_create_wf)

lemma fold_emplace_unknown_wf [simp]: "attrs_wf (fold emplace_unknown ua s) \<longleftrightarrow> attrs_wf s"
  by (induction ua arbitrary: s) simp_all

lemma set_create_wf: "\<forall>v \<in> set ka. attr_value_wf v \<Longrightarrow> attrs_wf (set_create ka ua)"
  by (simp add: set_create_def fold_emplace_wf)

lemma map_of_emplace:
  "map_of (as_map (emplace a s)) t =
     (if t = a_type a \<and> map_of (as_map s) t = None then Some a else map_of (as_map s) t)"
  by (auto simp: emplace_def map_add_def split: option.splits)

lemma as_unknown_emplace [simp]: "as_unknown (emplace a s) = as_unknown s"
  by (simp add: emplace_def)

lemma as_map_emplace_unknown [simp]: "as_map (emplace_unknown u s) = as_map s"
  by (simp add: emplace_unknown_def)

lemma as_unknown_emplace_unknown [simp]: "as_unknown (emplace_unknown u s) = as_unknown s @ [u]"
  by (simp add: emplace_unknown_def)

lemma attrs_wf_lookup:
  "attrs_wf s \<Longrightarrow> map_of (as_map s) t = Some a \<Longrightarrow> a_type a = t \<and> attribute_wf a"
  by (auto simp: attrs_wf_def dest: map_of_SomeD)

section \<open>What the builder appends\<close>

definition padding_of :: "bytes \<Rightarrow> bytes" where
  "padding_of v = (if length v mod 4 = 0 then [] else replicate (4 - length v mod 4) 0)"

definition tlv :: "attribute_type \<times> bytes \<Rightarrow> bytes" where
  "tlv tp = be_encode 4 (push_bit 16 (ucast (fst tp)) OR of_nat (length (snd tp)) :: u32) @ snd tp @ padding_of (snd tp)"

definition known_items :: "craftpp \<Rightarrow> attr_map \<Rightarrow> (attribute_type \<times> bytes) list" where
  "known_items cv m = List.map_filter (\<lambda>(t, a). map_option (Pair t) (visit_value cv (a_value a))) m"

definition set_items :: "craftpp \<Rightarrow> (attr_map \<Rightarrow> attr_map) \<Rightarrow> attribute_set \<Rightarrow> (attribute_type \<times> bytes) list" where
  "set_items cv ord s = known_items cv (ord (as_map s)) @ map (\<lambda>u. (ua_type u, ua_data u)) (as_unknown s)"

definition body_size :: "(attribute_type \<times> bytes) list \<Rightarrow> nat" where
  "body_size items = length (concat (map tlv items))"

lemma length_tlv: "length (tlv tp) = 4 + length (snd tp) + length (padding_of (snd tp))"
  by (simp add: tlv_def)

lemma length_tlv_mod4: "length (tlv tp) mod 4 = 0"
proof -
  have pad: "(4 + n + (4 - n mod 4)) mod 4 = 0" for n :: nat by presburger
  show ?thesis using pad [of "length (snd tp)"] by (simp add: length_tlv padding_of_def mod_add_eq)
qed

lemma body_size_mod4: "body_size items mod 4 = 0"
  unfolding body_size_def by (induction items) (simp_all add: length_tlv_mod4 mod_add_eq [symmetric, of "length (tlv _)"])

lemma body_size_simps [simp]:
  "body_size [] = 0" "body_size (x # xs) = length (tlv x) + body_size xs"
  "body_size (xs @ ys) = body_size xs + body_size ys"
  by (simp_all add: body_size_def)

context binary_view
begin

lemma add_attr_tlv:
  "concat (fst (add_attr cv t v b)) = concat (fst b) @ tlv (t, v)
   \<and> snd (add_attr cv t v b) = snd b + of_nat (length (tlv (t, v)))"
  by (cases b; cases v) (simp_all add: add_attr_def Let_def tlv_def padding_of_def net_u32_eq)

lemma fold_add_attr:
  "concat (fst (fold (\<lambda>(t, v). add_attr cv t v) items b)) = concat (fst b) @ concat (map tlv items)
   \<and> snd (fold (\<lambda>(t, v). add_attr cv t v) items b) = snd b + of_nat (body_size items)"
proof (induction items arbitrary: b)
  case Nil
  then show ?case by simp
next
  case (Cons x xs)
  then show ?case using add_attr_tlv [of "fst x" "snd x" b] by (simp add: split_beta)
qed

lemma fold_add_known: "fold (add_known cv) m b = fold (\<lambda>(t, v). add_attr cv t v) (known_items cv m) b"
  by (induction m arbitrary: b)
    (auto simp: known_items_def add_known_def map_filter_simps split: option.split)

lemma fold_add_unknown:
  "fold (add_unknown cv) us b = fold (\<lambda>(t, v). add_attr cv t v) (map (\<lambda>u. (ua_type u, ua_data u)) us) b"
  by (induction us arbitrary: b) (simp_all add: add_unknown_def)

lemma collected_items:
  "fold (add_unknown cv) (as_unknown s) (fold (add_known cv) (ord (as_map s)) ([], 0))
     = fold (\<lambda>(t, v). add_attr cv t v) (set_items cv ord s) ([], 0)"
  by (simp add: fold_add_known fold_add_unknown set_items_def)

end

end
