(* ===== verification/Stun_Message.thy ===== *)
theory Stun_Message
  imports Stun_Attribute_Set
begin

text \<open>
  The message: \<open>stun/stun_message.hpp\<close> and \<open>stun/stun_message.cpp\<close>.  Raw attributes and the loop
  that collects them, the parser of a whole message, the check of MESSAGE-INTEGRITY and the builder.
\<close>

section \<open>Raw attributes\<close>

record raw_attr =
  ra_type :: u16
  ra_length :: u16
  ra_value :: bytes

definition raw_attr_parse :: "craftpp \<Rightarrow> bytes \<Rightarrow> nat \<Rightarrow> raw_attr result" where
  "raw_attr_parse cv vv offset =
     (let type_rv = require ValueRequired (read_u16be cv vv offset);
          length_rv = require ValueRequired (read_u16be cv vv (offset + 2));
          attr_view_rv = rbind length_rv (\<lambda>len.
            require ValueRequired (subview cv vv \<lparr>i_offset = offset + 4, i_count = unat len\<rparr>))
      in combine3 cv (\<lambda>t len v. Inr \<lparr>ra_type = t, ra_length = len, ra_value = v\<rparr>)
           type_rv length_rv attr_view_rv)"

definition aligned_length :: "raw_attr \<Rightarrow> nat" where
  "aligned_length r =
     (let align = (if unat (ra_length r) mod 4 = 0 then 0 else 1);
          align_length = (unat (ra_length r) div 4 + align) * 4
      in align_length + STUN_ATTR_HEADER_SIZE)"

record parse_attrs_result =
  pa_attrs :: "parse_result list"
  pa_integrity :: "interval option"
  pa_fingerprint :: "interval option"

function raw_attrs_loop ::
    "craftpp \<Rightarrow> bytes \<Rightarrow> nat \<Rightarrow> raw_attr list \<Rightarrow> interval option \<Rightarrow> interval option \<Rightarrow> parse_stat
     \<Rightarrow> parse_stat \<times> (raw_attr list \<times> interval option \<times> interval option) result" where
  "raw_attrs_loop cv vv attr_offset raw_attrs mi mf st =
     (if attr_offset < length vv
      then (case raw_attr_parse cv vv attr_offset of
              Inl _ \<Rightarrow>
                (st\<lparr>ps_error := inc (ps_error st), ps_invalid_attr_size := inc (ps_invalid_attr_size st)\<rparr>,
                 Inl (ParseError invalid_attr_size))
            | Inr raw_attr \<Rightarrow>
                (if ra_type raw_attr = FINGERPRINT
                 then (if attr_offset + aligned_length raw_attr < length vv
                       then (st\<lparr>ps_error := inc (ps_error st),
                                ps_fingerprint_not_last := inc (ps_fingerprint_not_last st)\<rparr>,
                             Inl (ParseError fingerprint_is_not_last))
                       else raw_attrs_loop cv vv (attr_offset + aligned_length raw_attr)
                              (raw_attrs @ [raw_attr]) mi (Some \<lparr>i_offset = 0, i_count = attr_offset\<rparr>) st)
                 else if ra_type raw_attr = MESSAGE_INTEGRITY
                 then raw_attrs_loop cv vv (attr_offset + aligned_length raw_attr)
                        (raw_attrs @ [raw_attr]) (Some \<lparr>i_offset = 0, i_count = attr_offset\<rparr>) mf st
                 else if mi = None
                 then raw_attrs_loop cv vv (attr_offset + aligned_length raw_attr)
                        (raw_attrs @ [raw_attr]) mi mf st
                 else raw_attrs_loop cv vv (attr_offset + aligned_length raw_attr) raw_attrs mi mf st))
      else (st, Inr (raw_attrs, mi, mf)))"
  by pat_completeness auto
termination
  by (relation "measure (\<lambda>(cv, vv, off, _). length vv - off)") (auto simp: aligned_length_def Let_def)

declare raw_attrs_loop.simps [simp del]

fun parse_raw_attrs :: "craftpp \<Rightarrow> raw_attr list \<Rightarrow> parse_stat \<Rightarrow> parse_stat \<times> parse_result list result" where
  "parse_raw_attrs cv [] st = (st, Inr [])"
| "parse_raw_attrs cv (r # rs) st =
     (case attribute_parse cv (ra_value r) (ra_type r) st of
        (st', Inl e) \<Rightarrow> (st', Inl e)
      | (st', Inr a) \<Rightarrow>
          (case parse_raw_attrs cv rs st' of
             (st'', Inl e) \<Rightarrow> (st'', Inl e)
           | (st'', Inr as) \<Rightarrow> (st'', Inr (a # as))))"

definition parse_attrs :: "craftpp \<Rightarrow> bytes \<Rightarrow> nat \<Rightarrow> parse_stat \<Rightarrow> parse_stat \<times> parse_attrs_result result" where
  "parse_attrs cv vv attr_offset st =
     (case raw_attrs_loop cv vv attr_offset [] None None st of
        (st', Inl e) \<Rightarrow> (st', Inl e)
      | (st', Inr (raw_attrs, mi, mf)) \<Rightarrow>
          (case parse_raw_attrs cv raw_attrs st' of
             (st'', Inl e) \<Rightarrow> (st'', Inl e)
           | (st'', Inr attrs) \<Rightarrow>
               (st'', Inr \<lparr>pa_attrs = attrs, pa_integrity = mi, pa_fingerprint = mf\<rparr>)))"

section \<open>Messages\<close>

record message =
  m_header :: header
  m_attribute_set :: attribute_set
  m_is_rfc3489 :: bool
  m_integrity_interval :: "interval option"

fun collect_attr :: "parse_result \<Rightarrow> attribute_set \<times> u32 option \<Rightarrow> attribute_set \<times> u32 option" where
  "collect_attr (Unknown u) (attrs, fp) = (emplace_unknown u attrs, fp)"
| "collect_attr (Known a) (attrs, fp) =
     (emplace a attrs, (case as_fingerprint (a_value a) of Some c \<Rightarrow> Some c | None \<Rightarrow> fp))"

definition fingerprint_is_valid :: "craftpp \<Rightarrow> bytes \<Rightarrow> u32 option \<Rightarrow> interval option \<Rightarrow> bool" where
  "fingerprint_is_valid cv vv fp mf =
     (case fp of
        None \<Rightarrow> True
      | Some v \<Rightarrow>
          (case Option.bind mf (subview cv vv) of
             None \<Rightarrow> False
           | Some covered \<Rightarrow> crc32 covered = v))"

definition message_parse :: "craftpp \<Rightarrow> bytes \<Rightarrow> parse_stat \<Rightarrow> parse_stat \<times> message result" where
  "message_parse cv vv st =
     (if length vv < STUN_HEADER_SIZE
      then (st\<lparr>ps_error := inc (ps_error st), ps_invalid_size := inc (ps_invalid_size st)\<rparr>,
            Inl (ParseError invalid_message_size))
      else
        let msg_type = assured_read_u16be cv vv 0;
            msg_length = assured_read_u16be cv vv 2;
            magic_cookie = assured_read_u32be cv vv 4
        in if msg_length AND 0x3 \<noteq> 0
           then (st\<lparr>ps_error := inc (ps_error st), ps_not_padded := inc (ps_not_padded st)\<rparr>,
                 Inl (ParseError not_padded_attributes))
           else if unat msg_length \<noteq> length vv - STUN_HEADER_SIZE
           then (st\<lparr>ps_error := inc (ps_error st), ps_message_length_error := inc (ps_message_length_error st)\<rparr>,
                 Inl (ParseError invalid_message_len))
           else
             let cls = class_from_msg_type msg_type;
                 is_rfc3489 = (cls = REQUEST \<and> magic_cookie \<noteq> MAGIC_COOKIE)
             in if \<not> is_rfc3489 \<and> magic_cookie \<noteq> MAGIC_COOKIE
                then (st\<lparr>ps_error := inc (ps_error st), ps_magic_cookie_error := inc (ps_magic_cookie_error st)\<rparr>,
                      Inl (ParseError invalid_magic_cookie))
                else
                  let transaction_id =
                        (if \<not> is_rfc3489 then assured_subview cv vv 8 TRANSACTION_ID_SIZE
                         else assured_subview cv vv 4 TRANSACTION_ID_SIZE_RFC3489)
                  in case parse_attrs cv vv STUN_HEADER_SIZE st of
                       (st', Inl e) \<Rightarrow> (st', Inl e)
                     | (st', Inr r) \<Rightarrow>
                         (case fold collect_attr (pa_attrs r) (empty_set, None) of
                            (attrs, fingerprint_value) \<Rightarrow>
                              if \<not> fingerprint_is_valid cv vv fingerprint_value (pa_fingerprint r)
                              then (st'\<lparr>ps_error := inc (ps_error st'),
                                        ps_invalid_fingerprint := inc (ps_invalid_fingerprint st')\<rparr>,
                                    Inl (ParseError fingerprint_not_valid))
                              else (st'\<lparr>ps_success := inc (ps_success st')\<rparr>,
                                    Inr \<lparr>m_header = \<lparr>h_cls = cls, h_method = method_from_msg_type msg_type,
                                                      h_transaction_id = transaction_id\<rparr>,
                                         m_attribute_set = attrs,
                                         m_is_rfc3489 = is_rfc3489,
                                         m_integrity_interval = pa_integrity r\<rparr>)))"

definition message_is_valid :: "craftpp \<Rightarrow> message \<Rightarrow> bytes \<Rightarrow> integrity_data \<Rightarrow> bool option result" where
  "message_is_valid cv m dat idata =
     (case Option.bind (m_integrity_interval m) (subview cv dat) of
        None \<Rightarrow> Inr None
      | Some c \<Rightarrow>
          (let integrity_message_len = length c + STUN_ATTR_HEADER_SIZE + sha1_size - STUN_HEADER_SIZE
           in case (subview_from cv c 4, get_integrity (m_attribute_set m)) of
                (Some without_4byte_header, Some digest) \<Rightarrow>
                  (let hdr = [dat ! 0, dat ! 1,
                              word_of_nat ((integrity_message_len div 256) mod 256),
                              word_of_nat (integrity_message_len mod 256)];
                       p = id_password idata
                   in rmap (\<lambda>d. Some (d = digest))
                        (hmac_digest [hdr, without_4byte_header] (pw_opad p) (pw_ipad p) (id_hash idata)))
              | _ \<Rightarrow> Inr None))"

definition message_build ::
    "craftpp \<Rightarrow> (attr_map \<Rightarrow> attr_map) \<Rightarrow> message \<Rightarrow> maybe_integrity \<Rightarrow> bytes result" where
  "message_build cv ord m mi = set_build cv ord (m_attribute_set m) (m_header m) mi"

definition is_alternate_server :: "message \<Rightarrow> bool" where
  "is_alternate_server m =
     (if h_cls (m_header m) \<noteq> ERROR_RESPONSE then False
      else case get_error_code (m_attribute_set m) of
             None \<Rightarrow> False
           | Some (code, _) \<Rightarrow> code = TryAlternate)"

section \<open>The loop over raw attributes\<close>

lemma aligned_length_pos: "4 \<le> aligned_length r"
  by (simp add: aligned_length_def Let_def)

lemma raw_attrs_loop_stat:
  "parser_ok st (raw_attrs_loop cv vv off raws mi mf st)"
proof (induction cv vv off raws mi mf st rule: raw_attrs_loop.induct)
  case (1 cv vv off raws mi mf st)
  show ?case
    using 1 by (subst raw_attrs_loop.simps)
      (auto simp: parser_ok_def stat_failed_def inc_def split: sum.split)
qed

definition after_integrity_ok :: "raw_attr list \<Rightarrow> bool" where
  \<comment> \<open>behind the first MESSAGE-INTEGRITY only MESSAGE-INTEGRITY and FINGERPRINT are kept\<close>
  "after_integrity_ok rs \<longleftrightarrow>
     (\<forall>i j. i < j \<longrightarrow> j < length rs \<longrightarrow> ra_type (rs ! i) = MESSAGE_INTEGRITY \<longrightarrow>
        ra_type (rs ! j) \<in> {MESSAGE_INTEGRITY, FINGERPRINT})"

lemma after_integrity_ok_snoc:
  "after_integrity_ok rs \<Longrightarrow>
   (\<exists>x \<in> set rs. ra_type x = MESSAGE_INTEGRITY) \<longrightarrow> ra_type r \<in> {MESSAGE_INTEGRITY, FINGERPRINT} \<Longrightarrow>
   after_integrity_ok (rs @ [r])"
  by (auto simp: after_integrity_ok_def nth_append less_Suc_eq)

lemma raw_attrs_loop_step:
  assumes "off < length vv" "raw_attr_parse cv vv off = Inr r"
  shows "raw_attrs_loop cv vv off raws mi mf st =
    (if ra_type r = FINGERPRINT
     then (if off + aligned_length r < length vv
           then (st\<lparr>ps_error := inc (ps_error st), ps_fingerprint_not_last := inc (ps_fingerprint_not_last st)\<rparr>,
                 Inl (ParseError fingerprint_is_not_last))
           else raw_attrs_loop cv vv (off + aligned_length r) (raws @ [r]) mi (Some \<lparr>i_offset = 0, i_count = off\<rparr>) st)
     else if ra_type r = MESSAGE_INTEGRITY
     then raw_attrs_loop cv vv (off + aligned_length r) (raws @ [r]) (Some \<lparr>i_offset = 0, i_count = off\<rparr>) mf st
     else if mi = None
     then raw_attrs_loop cv vv (off + aligned_length r) (raws @ [r]) mi mf st
     else raw_attrs_loop cv vv (off + aligned_length r) raws mi mf st)"
  using assms by (subst raw_attrs_loop.simps) simp

lemma raw_attrs_loop_end: "\<not> off < length vv \<Longrightarrow> raw_attrs_loop cv vv off raws mi mf st = (st, Inr (raws, mi, mf))"
  by (subst raw_attrs_loop.simps) simp

text \<open>The invariant rule of the loop: what holds before and is kept by the four kinds of step holds after.\<close>

lemma raw_attrs_loop_invariant:
  assumes "raw_attrs_loop cv vv off raws mi mf st = (st', Inr (raws', mi', mf'))"
    and "P off raws mi mf"
    and fp: "\<And>off raws mi mf r. P off raws mi mf \<Longrightarrow> off < length vv \<Longrightarrow> raw_attr_parse cv vv off = Inr r \<Longrightarrow>
      ra_type r = FINGERPRINT \<Longrightarrow> length vv \<le> off + aligned_length r \<Longrightarrow>
      P (off + aligned_length r) (raws @ [r]) mi (Some \<lparr>i_offset = 0, i_count = off\<rparr>)"
    and int: "\<And>off raws mi mf r. P off raws mi mf \<Longrightarrow> off < length vv \<Longrightarrow> raw_attr_parse cv vv off = Inr r \<Longrightarrow>
      ra_type r = MESSAGE_INTEGRITY \<Longrightarrow>
      P (off + aligned_length r) (raws @ [r]) (Some \<lparr>i_offset = 0, i_count = off\<rparr>) mf"
    and keep: "\<And>off raws mf r. P off raws None mf \<Longrightarrow> off < length vv \<Longrightarrow> raw_attr_parse cv vv off = Inr r \<Longrightarrow>
      ra_type r \<notin> {FINGERPRINT, MESSAGE_INTEGRITY} \<Longrightarrow> P (off + aligned_length r) (raws @ [r]) None mf"
    and skip: "\<And>off raws iv mf r. P off raws (Some iv) mf \<Longrightarrow> off < length vv \<Longrightarrow> raw_attr_parse cv vv off = Inr r \<Longrightarrow>
      ra_type r \<notin> {FINGERPRINT, MESSAGE_INTEGRITY} \<Longrightarrow> P (off + aligned_length r) raws (Some iv) mf"
  shows "\<exists>off'. P off' raws' mi' mf' \<and> length vv \<le> off'"
  using assms(1,2)
proof (induction "length vv - off" arbitrary: off raws mi mf rule: less_induct)
  case less
  show ?case
  proof (cases "off < length vv")
    case False
    then show ?thesis using less.prems by (auto simp: raw_attrs_loop_end)
  next
    case True
    then obtain r where r: "raw_attr_parse cv vv off = Inr r"
      using less.prems(1) by (subst (asm) raw_attrs_loop.simps) (auto split: sum.splits)
    have dec: "length vv - (off + aligned_length r) < length vv - off"
      using True aligned_length_pos [of r] by arith
    consider (f) "ra_type r = FINGERPRINT" "length vv \<le> off + aligned_length r"
      | (i) "ra_type r = MESSAGE_INTEGRITY" | (k) "ra_type r \<notin> {FINGERPRINT, MESSAGE_INTEGRITY}" "mi = None"
      | (s) iv where "ra_type r \<notin> {FINGERPRINT, MESSAGE_INTEGRITY}" "mi = Some iv"
      using less.prems(1) by (cases mi) (auto simp: raw_attrs_loop_step [OF True r] not_less split: if_splits)
    then show ?thesis
      using less.prems less.hyps [OF dec] fp [OF less.prems(2) True r] int [OF less.prems(2) True r]
        keep [OF _ True r] skip [OF _ True r]
      by cases (auto simp: raw_attrs_loop_step [OF True r])
  qed
qed

lemma raw_attrs_loop_after_integrity:
  assumes "raw_attrs_loop cv vv off [] None None st = (st', Inr (raws', mi', mf'))"
  shows "after_integrity_ok raws' \<and> (mi' \<noteq> None \<longleftrightarrow> (\<exists>x \<in> set raws'. ra_type x = MESSAGE_INTEGRITY))"
proof -
  have "\<exists>off'. (after_integrity_ok raws' \<and> (mi' \<noteq> None \<longleftrightarrow> (\<exists>x \<in> set raws'. ra_type x = MESSAGE_INTEGRITY)))
      \<and> length vv \<le> off'"
    by (rule raw_attrs_loop_invariant [OF assms, where P = "\<lambda>_ rs mi _. after_integrity_ok rs
        \<and> (mi \<noteq> None \<longleftrightarrow> (\<exists>x \<in> set rs. ra_type x = MESSAGE_INTEGRITY))"])
      (auto intro: after_integrity_ok_snoc simp: after_integrity_ok_def [of "[]"])
  then show ?thesis by blast
qed

definition interval_ok :: "bytes \<Rightarrow> interval option \<Rightarrow> bool" where
  "interval_ok vv mi \<longleftrightarrow>
     (case mi of None \<Rightarrow> True
      | Some iv \<Rightarrow> i_offset iv = 0 \<and> STUN_HEADER_SIZE \<le> i_count iv \<and> i_count iv < length vv)"

lemma raw_attrs_loop_intervals:
  assumes "raw_attrs_loop cv vv STUN_HEADER_SIZE [] None None st = (st', Inr (raws', mi', mf'))"
  shows "interval_ok vv mi' \<and> interval_ok vv mf'
    \<and> (\<forall>x \<in> set raws'. ra_type x = FINGERPRINT \<longrightarrow> mf' \<noteq> None)"
proof -
  have "\<exists>off'. (STUN_HEADER_SIZE \<le> off' \<and> interval_ok vv mi' \<and> interval_ok vv mf'
      \<and> (\<forall>x \<in> set raws'. ra_type x = FINGERPRINT \<longrightarrow> mf' \<noteq> None)) \<and> length vv \<le> off'"
    by (rule raw_attrs_loop_invariant [OF assms, where P = "\<lambda>off rs mi mf. STUN_HEADER_SIZE \<le> off
        \<and> interval_ok vv mi \<and> interval_ok vv mf \<and> (\<forall>x \<in> set rs. ra_type x = FINGERPRINT \<longrightarrow> mf \<noteq> None)"])
      (auto simp: interval_ok_def)
  then show ?thesis by blast
qed

section \<open>The parser as a whole\<close>

lemma parser_ok_pair [simp]:
  "parser_ok st (st', Inr x) \<longleftrightarrow> st' = st"
  "parser_ok st (st', Inl e) \<longleftrightarrow> stat_failed st st' \<or> (e = ValueRequired \<and> st' = st)"
  by (simp_all add: parser_ok_def)

lemma parse_raw_attrs_stat:
  assumes "binary_view cv"
  shows "parser_ok st (parse_raw_attrs cv rs st)"
proof (induction rs)
  case (Cons r rs)
  obtain st1 x where a: "attribute_parse cv (ra_value r) (ra_type r) st = (st1, x)" by force
  obtain st2 y where b: "parse_raw_attrs cv rs st = (st2, y)" by force
  have "parser_ok st (st1, x)" using binary_view.parser_ok_attribute [OF assms, of st] a by metis
  then show ?case using Cons a b by (cases x; cases y) auto
qed simp

lemma parse_raw_attrs_all:
  assumes "parse_raw_attrs cv rs st = (st', Inr as)"
  shows "list_all2 (\<lambda>r a. \<exists>s s'. attribute_parse cv (ra_value r) (ra_type r) s = (s', Inr a)) rs as"
  using assms
proof (induction rs arbitrary: st as)
  case (Cons r rs)
  obtain st1 x where a: "attribute_parse cv (ra_value r) (ra_type r) st = (st1, x)" by force
  obtain st2 y where b: "parse_raw_attrs cv rs st1 = (st2, y)" by force
  show ?case using Cons.prems Cons.IH [of st1] a b by (cases x; cases y) auto
qed simp

lemma parse_attrs_stat:
  assumes "binary_view cv"
  shows "parser_ok st (parse_attrs cv vv off st)"
proof -
  obtain st1 x where a: "raw_attrs_loop cv vv off [] None None st = (st1, x)" by force
  have ok: "parser_ok st (st1, x)" using raw_attrs_loop_stat [of st cv vv off "[]" None None] a by simp
  show ?thesis
  proof (cases x)
    case (Inl e)
    then show ?thesis using a ok by (simp add: parse_attrs_def)
  next
    case (Inr t)
    obtain rs mi mf where t: "t = (rs, mi, mf)" by (cases t)
    obtain st2 y where b: "parse_raw_attrs cv rs st = (st2, y)" by force
    have "parser_ok st (st2, y)" using parse_raw_attrs_stat [OF assms, of st rs] b by simp
    then show ?thesis using a ok Inr t b by (cases y) (simp_all add: parse_attrs_def)
  qed
qed

definition message_parse_counted :: "parse_stat \<Rightarrow> parse_stat \<times> message result \<Rightarrow> bool" where
  "message_parse_counted st r \<longleftrightarrow>
     (case snd r of
        Inr _ \<Rightarrow> fst r = st\<lparr>ps_success := ps_success st + 1\<rparr>
      | Inl e \<Rightarrow> stat_failed st (fst r) \<or> (e = ValueRequired \<and> fst r = st))"

lemma message_parse_counts:
  assumes "binary_view cv"
  shows "message_parse_counted st (message_parse cv vv st)"
proof -
  obtain st1 x where a: "parse_attrs cv vv STUN_HEADER_SIZE st = (st1, x)" by force
  have "parser_ok st (st1, x)" using parse_attrs_stat [OF assms, of st vv STUN_HEADER_SIZE] a by simp
  then show ?thesis
    by (cases x)
      (auto simp: message_parse_def message_parse_counted_def Let_def stat_failed_def inc_def a split: prod.split)
qed

lemma fold_collect_wf:
  assumes "\<forall>a. Known a \<in> set rs \<longrightarrow> attribute_wf a" "attrs_wf s"
  shows "attrs_wf (fst (fold collect_attr rs (s, fp)))"
  using assms
proof (induction rs arbitrary: s fp)
  case (Cons r rs)
  then show ?case by (cases r) (auto intro: emplace_wf)
qed simp

end
