(* ===== verification/Sha1.thy ===== *)
theory Sha1
  imports Crypto
begin

text \<open>
  SHA-1 as FIPS 180-4 defines it, as a function that meets the contract \<open>sha1_function\<close>.  The sources take
  SHA-1 from OpenSSL, whose code is not modelled; this one serves to run the models on published test
  data.  A word is an integer below \<open>2 ^ 32\<close>.
\<close>

section \<open>The algorithm\<close>

definition rotl :: "nat \<Rightarrow> int \<Rightarrow> int" where
  "rotl n w = take_bit 32 (push_bit n w) OR drop_bit (32 - n) w"

text \<open>The function and the constant of round \<open>t\<close>.\<close>

definition sha1_f :: "nat \<Rightarrow> int \<Rightarrow> int \<Rightarrow> int \<Rightarrow> int \<times> int" where
  "sha1_f t b c d =
     (if t < 20 then ((b AND c) OR ((b XOR 0xFFFFFFFF) AND d), 0x5A827999)
      else if t < 40 then (b XOR c XOR d, 0x6ED9EBA1)
      else if t < 60 then ((b AND c) OR (b AND d) OR (c AND d), 0x8F1BBCDC)
      else (b XOR c XOR d, 0xCA62C1D6))"

type_synonym sha1_state = "int \<times> int \<times> int \<times> int \<times> int"

definition sha1_round :: "nat \<Rightarrow> int \<Rightarrow> sha1_state \<Rightarrow> sha1_state" where
  "sha1_round t w s =
     (case s of (a, b, c, d, e) \<Rightarrow>
        case sha1_f t b c d of (f, k) \<Rightarrow> (take_bit 32 (rotl 5 a + f + e + k + w), a, rotl 30 b, c, d))"

text \<open>The rounds from \<open>t\<close> on, with the sixteen words of the message schedule that begin at \<open>t\<close>.\<close>

fun sha1_rounds :: "nat \<Rightarrow> nat \<Rightarrow> int list \<Rightarrow> sha1_state \<Rightarrow> sha1_state" where
  "sha1_rounds 0 t ws s = s"
| "sha1_rounds (Suc n) t ws s =
     sha1_rounds n (Suc t) (tl ws @ [rotl 1 (ws ! 13 XOR ws ! 8 XOR ws ! 2 XOR ws ! 0)]) (sha1_round t (ws ! 0) s)"

fun sha1_words :: "bytes \<Rightarrow> int list" where
  "sha1_words (a # b # c # d # bs) = (((uint a * 256 + uint b) * 256 + uint c) * 256 + uint d) # sha1_words bs"
| "sha1_words _ = []"

definition sha1_block :: "bytes \<Rightarrow> sha1_state \<Rightarrow> sha1_state" where
  "sha1_block blk s =
     (case (s, sha1_rounds 80 0 (sha1_words blk) s) of
        ((a, b, c, d, e), (a', b', c', d', e')) \<Rightarrow>
          (take_bit 32 (a + a'), take_bit 32 (b + b'), take_bit 32 (c + c'), take_bit 32 (d + d'), take_bit 32 (e + e')))"

fun sha1_blocks :: "nat \<Rightarrow> bytes \<Rightarrow> sha1_state \<Rightarrow> sha1_state" where
  "sha1_blocks 0 m s = s"
| "sha1_blocks (Suc n) m s = sha1_blocks n (drop 64 m) (sha1_block (take 64 m) s)"

definition sha1_pad :: "bytes \<Rightarrow> bytes" where
  "sha1_pad m = m @ [0x80] @ replicate ((119 - length m mod 64) mod 64) 0 @
     map (\<lambda>k. word_of_int (8 * int (length m) div k))
       [0x100000000000000, 0x1000000000000, 0x10000000000, 0x100000000, 0x1000000, 0x10000, 0x100, 1]"

definition word_bytes :: "int \<Rightarrow> bytes" where
  "word_bytes w = [word_of_int (w div 2 ^ 24), word_of_int (w div 2 ^ 16), word_of_int (w div 2 ^ 8), word_of_int w]"

definition sha1_bytes :: "bytes \<Rightarrow> bytes" where
  "sha1_bytes m =
     (let p = sha1_pad m in
      case sha1_blocks (length p div 64) p (0x67452301, 0xEFCDAB89, 0x98BADCFE, 0x10325476, 0xC3D2E1F0) of
        (a, b, c, d, e) \<Rightarrow> word_bytes a @ word_bytes b @ word_bytes c @ word_bytes d @ word_bytes e)"

definition sha1_fips :: hash_func where
  "sha1_fips input = Inr (sha1_bytes (concat input))"

section \<open>The contract\<close>

lemma sha1_pad_blocks: "length (sha1_pad m) mod 64 = 0"
proof -
  have "(119 - r) mod 64 + 9 + r = (if r < 56 then 64 else 128)" if "r < 64" for r :: nat
  proof (cases "r < 56")
    case True
    then have "119 - r = 55 - r + 64" by simp
    then have "(119 - r) mod 64 = (55 - r) mod 64" by (simp only: mod_add_self2)
    then show ?thesis using True by simp
  next
    case False
    then have "(119 - r) mod 64 = 119 - r" using that by (intro mod_less) simp
    then show ?thesis using that False by simp
  qed
  then have "((119 - length m mod 64) mod 64 + 9 + length m mod 64) mod 64 = 0" by simp
  then have "((119 - length m mod 64) mod 64 + 9 + length m) mod 64 = 0" by (simp only: mod_add_right_eq)
  then show ?thesis by (simp add: sha1_pad_def algebra_simps)
qed

interpretation fips: sha1_function sha1_fips
proof
  show "sha1_fips xs = sha1_fips ys" if "concat xs = concat ys" for xs ys using that by (simp add: sha1_fips_def)
  show "length d = sha1_size" if "sha1_fips xs = Inr d" for xs d
    using that by (auto simp: sha1_fips_def sha1_bytes_def word_bytes_def Let_def split: prod.splits)
qed

section \<open>Published test data\<close>

text \<open>FIPS 180: the digests of \<open>abc\<close> and of the empty message.\<close>

lemma sha1_abc: "sha1_fips [[0x61], [0x62, 0x63]] = Inr
    [0xA9, 0x99, 0x3E, 0x36, 0x47, 0x06, 0x81, 0x6A, 0xBA, 0x3E, 0x25, 0x71, 0x78, 0x50, 0xC2, 0x6C, 0x9C, 0xD0, 0xD8, 0x9D]"
  by code_simp

lemma sha1_empty: "sha1_fips [] = Inr
    [0xDA, 0x39, 0xA3, 0xEE, 0x5E, 0x6B, 0x4B, 0x0D, 0x32, 0x55, 0xBF, 0xEF, 0x95, 0x60, 0x18, 0x90, 0xAF, 0xD8, 0x07, 0x09]"
  by code_simp

end
