(* ===== verification/Stun_Roundtrip.thy ===== *)
theory Stun_Roundtrip
  imports Stun_Message Sha1
begin

text \<open>
  What the parser makes of a message that the builder made.  The body of a built message is a
  sequence of items (type, payload), each laid out by \<open>tlv\<close>; the loop over raw attributes reads the
  items back one by one, the attribute parsers recover the values, and the checksum and the digest
  that the builder appends are those that the parser and \<open>Message::is_valid\<close> recompute.
\<close>

section \<open>Messages that can be built\<close>

definition header_wf :: "header \<Rightarrow> bool" where
  \<comment> \<open>a 14-bit method, and an identifier of 96 bits, or of 128 bits for a request of RFC 3489\<close>
  "header_wf h \<longleftrightarrow> h_method h < 2 ^ 14 \<and>
     (length (h_transaction_id h) = TRANSACTION_ID_SIZE \<or>
      length (h_transaction_id h) = TRANSACTION_ID_SIZE_RFC3489 \<and> h_cls h = REQUEST \<and>
        be_decode (take 4 (h_transaction_id h)) \<noteq> MAGIC_COOKIE)"

definition set_buildable :: "craftpp \<Rightarrow> attribute_set \<Rightarrow> bool" where
  "set_buildable cv s \<longleftrightarrow> attrs_wf s \<and>
     (\<forall>(t, a) \<in> set (as_map s). encodable (a_value a)) \<and>
     (\<forall>u \<in> set (as_unknown s). ua_type u \<notin> set known_types) \<and>
     body_size (set_items cv (\<lambda>m. m) s) + 32 < 65536"

abbreviation is_tail_type :: "attribute_type \<Rightarrow> bool" where
  "is_tail_type t \<equiv> t = MESSAGE_INTEGRITY \<or> t = FINGERPRINT"

section \<open>Reading one item\<close>

abbreviation raw_of :: "attribute_type \<times> bytes \<Rightarrow> raw_attr" where
  "raw_of tv \<equiv> \<lparr>ra_type = fst tv, ra_length = of_nat (length (snd tv)), ra_value = snd tv\<rparr>"

lemma tlv_word_fields:
  assumes "n < 65536"
  shows "be_encode 4 (push_bit 16 (ucast (t :: u16)) OR of_nat n :: u32) = be_encode 2 t @ be_encode 2 (of_nat n :: u16)"
proof -
  have u: "ucast (of_nat n :: u16) = (of_nat n :: u32)"
    using assms by (simp add: unsigned_of_nat take_bit_nat_eq_self)
  show ?thesis
    unfolding be_encode_4 be_encode_2
    by (auto intro!: bit_word_eqI simp: bit_simps u [symmetric] dest: bit_imp_le_length)
qed

lemma length_padding: "length v + length (padding_of v) = (length v div 4 + (if length v mod 4 = 0 then 0 else 1)) * 4"
  unfolding padding_of_def by simp presburger

lemma aligned_length_raw:
  assumes "length (snd tv) < 65536"
  shows "aligned_length (raw_of tv) = length (tlv tv)"
  using assms length_padding [of "snd tv"]
  by (simp add: aligned_length_def Let_def length_tlv unat_of_nat_small)

context binary_view
begin

lemma raw_attr_parse_tlv:
  assumes "length (snd tv) < 65536"
  shows "raw_attr_parse cv (pre @ tlv tv @ post) (length pre) = Inr (raw_of tv)"
proof -
  let ?vv = "pre @ tlv tv @ post"
  have v: "?vv = pre @ be_encode 2 (fst tv) @ be_encode 2 (of_nat (length (snd tv)) :: u16) @ snd tv
      @ padding_of (snd tv) @ post"
    unfolding tlv_def by (simp add: tlv_word_fields [OF assms])
  have s1: "slice ?vv (length pre) 2 = be_encode 2 (fst tv)"
    unfolding v by (rule slice_append_mid) simp_all
  have s2: "slice ?vv (length pre + 2) 2 = be_encode 2 (of_nat (length (snd tv)) :: u16)"
    unfolding v by (subst append_assoc [symmetric], rule slice_append_mid) simp_all
  have s3: "slice ?vv (length pre + 4) (length (snd tv)) = snd tv"
    unfolding v by (subst append_assoc [symmetric], subst append_assoc [symmetric], rule slice_append_mid) simp_all
  have "read_u16be cv ?vv (length pre) = Some (fst tv)"
    by (simp add: read_u16be_eq s1 length_tlv)
  moreover have "read_u16be cv ?vv (length pre + 2) = Some (of_nat (length (snd tv)))"
    using s2 by (simp add: read_u16be_eq length_tlv)
  moreover have "subview cv ?vv \<lparr>i_offset = length pre + 4, i_count = length (snd tv)\<rparr> = Some (snd tv)"
    by (simp add: subview_eq interval_in_def s3 length_tlv)
  ultimately show ?thesis using assms by (simp add: raw_attr_parse_def Let_def unat_of_nat_small)
qed

lemma loop_item:
  assumes "length (snd tv) < 65536" "vv = pre @ tlv tv @ post" "off = length pre"
  shows "off < length vv" "raw_attr_parse cv vv off = Inr (raw_of tv)"
  using raw_attr_parse_tlv [OF assms(1), of pre post] assms(2,3) by (simp_all add: length_tlv)

lemma loop_items:
  assumes "\<forall>tv \<in> set items. length (snd tv) < 65536 \<and> \<not> is_tail_type (fst tv)"
  shows "raw_attrs_loop cv (pre @ concat (map tlv items) @ post) (length pre) raws None mf st =
    raw_attrs_loop cv (pre @ concat (map tlv items) @ post) (length pre + body_size items)
      (raws @ map raw_of items) None mf st"
  using assms
proof (induction items arbitrary: pre raws)
  case (Cons tv items)
  let ?vv = "pre @ concat (map tlv (tv # items)) @ post"
  have len: "length (snd tv) < 65536" using Cons.prems by simp
  have vv: "?vv = pre @ tlv tv @ concat (map tlv items) @ post" by simp
  have "raw_attrs_loop cv ?vv (length pre) raws None mf st
      = raw_attrs_loop cv ?vv (length pre + length (tlv tv)) (raws @ [raw_of tv]) None mf st"
    using Cons.prems
    by (simp only: raw_attrs_loop_step [OF loop_item [OF len vv refl]] aligned_length_raw [OF len]) simp
  also have "\<dots> = raw_attrs_loop cv ?vv (length pre + body_size (tv # items))
      (raws @ map raw_of (tv # items)) None mf st"
    using Cons.IH [of "pre @ tlv tv" "raws @ [raw_of tv]"] Cons.prems by (simp add: add.assoc)
  finally show ?case .
qed simp

end

section \<open>The attributes as they are parsed\<close>

definition item_parses :: "craftpp \<Rightarrow> parse_stat \<Rightarrow> attribute_type \<times> bytes \<Rightarrow> parse_result \<Rightarrow> bool" where
  "item_parses cv st tv pr \<longleftrightarrow> attribute_parse cv (snd tv) (fst tv) st = (st, Inr pr)"

definition known_of :: "parse_result list \<Rightarrow> attr_map" where
  "known_of prs = List.map_filter (\<lambda>pr. case pr of Known a \<Rightarrow> Some (a_type a, a) | Unknown _ \<Rightarrow> None) prs"

definition unknown_of :: "parse_result list \<Rightarrow> unknown_attribute list" where
  "unknown_of prs = List.map_filter (\<lambda>pr. case pr of Unknown u \<Rightarrow> Some u | Known _ \<Rightarrow> None) prs"

lemma parse_raw_items:
  "list_all2 (item_parses cv st) items prs \<Longrightarrow> parse_raw_attrs cv (map raw_of items) st = (st, Inr prs)"
  by (induction items prs rule: list_all2_induct) (simp_all add: item_parses_def)

lemma known_of_simps [simp]:
  "known_of [] = []" "known_of (Known a # prs) = (a_type a, a) # known_of prs"
  "known_of (Unknown u # prs) = known_of prs" "known_of (prs @ qs) = known_of prs @ known_of qs"
  by (simp_all add: known_of_def map_filter_simps map_filter_def)

lemma unknown_of_simps [simp]:
  "unknown_of [] = []" "unknown_of (Unknown u # prs) = u # unknown_of prs"
  "unknown_of (Known a # prs) = unknown_of prs" "unknown_of (prs @ qs) = unknown_of prs @ unknown_of qs"
  by (simp_all add: unknown_of_def map_filter_simps map_filter_def)

lemma collect_lookup:
  "map_of (as_map (fst (fold collect_attr prs (s, fp)))) = map_of (known_of prs) ++ map_of (as_map s)"
proof (induction prs arbitrary: s fp)
  case (Cons pr prs)
  show ?case
  proof (cases pr)
    case (Known a)
    have "map_of (as_map (emplace a s)) = [a_type a \<mapsto> a] ++ map_of (as_map s)"
      by (rule ext) (auto simp: map_of_emplace map_add_def split: option.split)
    then show ?thesis using Known Cons.IH
      by (auto simp: map_add_def fun_eq_iff split: option.split)
  qed (simp add: Cons.IH)
qed simp

lemma collect_unknown:
  "as_unknown (fst (fold collect_attr prs (s, fp))) = as_unknown s @ unknown_of prs"
proof (induction prs arbitrary: s fp)
  case (Cons pr prs)
  then show ?case by (cases pr) simp_all
qed simp

lemma collect_fingerprint:
  assumes "\<And>a. Known a \<in> set prs \<Longrightarrow> as_fingerprint (a_value a) = None"
  shows "snd (fold collect_attr prs (s, fp)) = fp"
  using assms
proof (induction prs arbitrary: s fp)
  case (Cons pr prs)
  then show ?case by (cases pr) simp_all
qed simp

text \<open>Two lookups agree when both are absent or the attributes are equal up to \<open>attr_equiv\<close>.\<close>

definition lookup_equiv :: "attribute option \<Rightarrow> attribute option \<Rightarrow> bool" where
  "lookup_equiv x y \<longleftrightarrow>
     (case (x, y) of
        (None, None) \<Rightarrow> True
      | (Some a, Some b) \<Rightarrow> a_type b = a_type a \<and> attr_equiv (a_value a) (a_value b)
      | _ \<Rightarrow> False)"

lemma visit_value_encode:
  "\<not> is_tail_type (attr_type_of v) \<Longrightarrow> visit_value cv v = Some (attr_encode cv v)"
  "is_tail_type (attr_type_of v) \<Longrightarrow> visit_value cv v = None"
  by (cases v; simp)+

lemma known_items_simps [simp]:
  "known_items cv [] = []"
  "known_items cv ((t, a) # m) =
     (case visit_value cv (a_value a) of None \<Rightarrow> known_items cv m | Some v \<Rightarrow> (t, v) # known_items cv m)"
  by (simp_all add: known_items_def map_filter_simps split: option.split)

lemma known_items_memD:
  "(t, v) \<in> set (known_items cv m) \<Longrightarrow> \<exists>a. (t, a) \<in> set m \<and> visit_value cv (a_value a) = Some v"
proof (induction m)
  case (Cons e m)
  then show ?case by (cases e; cases "visit_value cv (a_value (snd e))") (simp; blast)+
qed simp

lemma as_fingerprint_type: "as_fingerprint v \<noteq> None \<Longrightarrow> attr_type_of v = FINGERPRINT"
  by (cases v) simp_all

lemma attr_equiv_type: "attr_equiv v v' \<Longrightarrow> attr_type_of v' = attr_type_of v"
  by (cases v; cases v') simp_all

context binary_view
begin

lemma known_items_parse:
  assumes "\<forall>(t, a) \<in> set m. t = a_type a \<and> attribute_wf a \<and> encodable (a_value a)"
  shows "\<exists>prs. list_all2 (item_parses cv st) (known_items cv m) prs \<and>
    (\<forall>t. \<not> is_tail_type t \<longrightarrow> lookup_equiv (map_of m t) (map_of (known_of prs) t)) \<and>
    unknown_of prs = [] \<and> (\<forall>t. is_tail_type t \<longrightarrow> map_of (known_of prs) t = None) \<and>
    (\<forall>a. Known a \<in> set prs \<longrightarrow> as_fingerprint (a_value a) = None)"
  using assms
proof (induction m)
  case Nil
  then show ?case by (intro exI [of _ "[]"]) (simp add: lookup_equiv_def)
next
  case (Cons e m)
  obtain t a where e: "e = (t, a)" by force
  have wf: "t = attr_type_of (a_value a)" "a_type a = t" "attr_value_wf (a_value a)" "encodable (a_value a)"
    using Cons.prems by (auto simp: e attribute_wf_def)
  from Cons obtain prs where IH: "list_all2 (item_parses cv st) (known_items cv m) prs"
    "\<forall>t. \<not> is_tail_type t \<longrightarrow> lookup_equiv (map_of m t) (map_of (known_of prs) t)"
    "unknown_of prs = []" "\<forall>t. is_tail_type t \<longrightarrow> map_of (known_of prs) t = None"
    "\<forall>a. Known a \<in> set prs \<longrightarrow> as_fingerprint (a_value a) = None" by auto
  show ?case
  proof (cases "is_tail_type t")
    case True
    then show ?thesis using IH wf(1)
      by (intro exI [of _ prs]) (auto simp: e visit_value_encode(2))
  next
    case False
    obtain v' where v': "attribute_parse cv (attr_encode cv (a_value a)) t st
        = (st, Inr (Known \<lparr>a_type = t, a_value = v'\<rparr>))" "attr_equiv (a_value a) v'"
      using attribute_roundtrip [OF wf(4,3), of st] wf(1) by auto
    have nf: "as_fingerprint v' = None"
      using False attr_equiv_type [OF v'(2)] as_fingerprint_type [of v'] wf(1) by metis
    have vis: "visit_value cv (a_value a) = Some (attr_encode cv (a_value a))"
      using False wf(1) by (simp add: visit_value_encode(1))
    have "item_parses cv st (t, attr_encode cv (a_value a)) (Known \<lparr>a_type = t, a_value = v'\<rparr>)"
      using v'(1) by (simp add: item_parses_def)
    then show ?thesis using IH wf(2) v'(2) False nf
      by (intro exI [of _ "Known \<lparr>a_type = t, a_value = v'\<rparr> # prs"])
        (auto simp: e vis lookup_equiv_def)
  qed
qed

lemma unknown_items_parse:
  assumes "\<forall>u \<in> set us. ua_type u \<notin> set known_types"
  shows "list_all2 (item_parses cv st) (map (\<lambda>u. (ua_type u, ua_data u)) us) (map Unknown us)"
  using assms by (induction us) (simp_all add: item_parses_def attribute_parse_unknown_type)

end

lemma unknown_of_map [simp]: "unknown_of (map Unknown us) = us" "known_of (map Unknown us) = []"
  by (induction us) simp_all

section \<open>The bytes of a built message\<close>

lemma payload_le_body: "tv \<in> set items \<Longrightarrow> length (snd tv) + 4 \<le> body_size items"
  by (induction items) (auto simp: length_tlv)

lemma body_size_sum: "body_size items = sum_list (map (\<lambda>tv. length (tlv tv)) items)"
  by (induction items) simp_all

lemma body_size_mset:
  assumes "mset items = mset items'"
  shows "body_size items = body_size items'"
proof -
  have "body_size xs = sum_mset (image_mset (\<lambda>tv. length (tlv tv)) (mset xs))" for xs
    by (simp add: body_size_sum sum_mset_sum_list flip: mset_map)
  then show ?thesis using assms by simp
qed

lemma mset_known_items: "mset m = mset m' \<Longrightarrow> mset (known_items cv m) = mset (known_items cv m')"
proof -
  have "mset (known_items cv m) =
      image_mset the (filter_mset (\<lambda>x. x \<noteq> None) (image_mset (\<lambda>(t, a). map_option (Pair t) (visit_value cv (a_value a))) (mset m)))" for m
    by (simp add: known_items_def map_filter_def flip: mset_map mset_filter) (simp add: filter_map o_def)
  then show "mset m = mset m' \<Longrightarrow> ?thesis" by simp
qed

lemma set_buildable_items:
  assumes "map_order ord" "set_buildable cv s"
  shows "body_size (set_items cv ord s) + 32 < 65536"
    and "\<forall>tv \<in> set (set_items cv ord s). length (snd tv) < 65536 \<and> \<not> is_tail_type (fst tv)"
proof -
  have m: "mset (set_items cv ord s) = mset (set_items cv (\<lambda>m. m) s)"
    using mset_known_items [OF map_order.ord_mset [OF assms(1)], of cv "as_map s"] by (simp add: set_items_def)
  have "body_size (set_items cv ord s) = body_size (set_items cv (\<lambda>m. m) s)"
    using m by (rule body_size_mset)
  then show size: "body_size (set_items cv ord s) + 32 < 65536" using assms(2) by (simp add: set_buildable_def)
  have known: "\<not> is_tail_type t" if "(t, v) \<in> set (known_items cv m)" "attrs_wf s" "set m \<subseteq> set (as_map s)" for t v m
  proof -
    from that(1) obtain a where a: "(t, a) \<in> set m" "visit_value cv (a_value a) = Some v"
      by (blast dest: known_items_memD)
    then have "t = attr_type_of (a_value a)" using that(2,3) unfolding attrs_wf_def attribute_wf_def by fastforce
    then show ?thesis using a(2) visit_value_encode(2) [of "a_value a" cv] by auto
  qed
  have "\<not> is_tail_type (fst tv)" if "tv \<in> set (set_items cv ord s)" for tv
    using that assms(2) known [of "fst tv" "snd tv" "ord (as_map s)"] map_order.set_ord [OF assms(1)]
    by (auto simp: set_items_def set_buildable_def known_types_def)
  then show "\<forall>tv \<in> set (set_items cv ord s). length (snd tv) < 65536 \<and> \<not> is_tail_type (fst tv)"
    using size payload_le_body by fastforce
qed

definition mi_items :: "bytes option \<Rightarrow> (attribute_type \<times> bytes) list" where
  "mi_items d = (case d of None \<Rightarrow> [] | Some x \<Rightarrow> [(MESSAGE_INTEGRITY, x)])"

lemma length_header_build:
  assumes "binary_view cv" "header_wf h"
  shows "length (header_build cv h n) = STUN_HEADER_SIZE"
  using assms by (auto simp: header_build_def Let_def header_wf_def binary_view.net_u16_eq binary_view.net_u32_eq)

text \<open>
  The digest of MESSAGE-INTEGRITY covers the header, with the length up to and including the
  attribute, and the body before it; the checksum of FINGERPRINT the final header and everything
  before it.
\<close>

definition digest_of :: "craftpp \<Rightarrow> header \<Rightarrow> bytes \<Rightarrow> integrity_data \<Rightarrow> bytes result" where
  "digest_of cv h body i =
     hmac_digest [header_build cv h (length body + STUN_ATTR_HEADER_SIZE + sha1_size), body]
       (pw_opad (id_password i)) (pw_ipad (id_password i)) (id_hash i)"

definition built_bytes :: "craftpp \<Rightarrow> header \<Rightarrow> bytes \<Rightarrow> bool \<Rightarrow> bytes" where
  "built_bytes cv h body fp =
     (if fp
      then (let hdr = header_build cv h (length body + 8)
            in hdr @ body @ tlv (FINGERPRINT, be_encode 4 (crc32 (hdr @ body) XOR FINGERPRINT_XOR)))
      else header_build cv h (length body) @ body)"

context binary_view
begin

lemma set_build_tail:
  assumes "concat (fst b) = body" "snd b = of_nat (length body)" "length body + 8 < 65536"
  shows "(let (real_header, views, _) = (if fp then add_fingerprint cv hdr b else no_fingerprint cv hdr b)
          in Inr (view_concat (real_header # views))) = (Inr (built_bytes cv hdr body fp) :: bytes result)"
proof -
  have n: "unat (snd b) = length body" using assms(2,3) by (simp add: unat_of_nat_small)
  show ?thesis
    using add_attr_tlv [of FINGERPRINT _ b] assms(1) n
    by (cases b) (simp add: built_bytes_def add_fingerprint_def no_fingerprint_def Let_def split_beta
        crc32_views_concat net_u32_eq add.commute)
qed

lemma add_integrity_eq:
  assumes "sha1_function (id_hash i)" "concat (fst b) = body" "snd b = of_nat (length body)"
    "length body + 24 < 65536"
  shows "add_integrity cv hdr i b = rmap (\<lambda>d. add_attr cv MESSAGE_INTEGRITY d b) (digest_of cv hdr body i)"
proof -
  have n: "unat (snd b) = length body" using assms(3,4) by (simp add: unat_of_nat_small)
  have "hmac_digest (hd # fst b) op ip (id_hash i) = hmac_digest [hd, body] op ip (id_hash i)" for hd op ip
    by (rule sha1_function.hmac_digest_concat [OF assms(1)]) (simp add: assms(2))
  then show ?thesis using n by (cases b) (simp add: add_integrity_def digest_of_def Let_def)
qed

lemma set_build_bytes:
  assumes "map_order ord" "set_buildable cv s" "\<forall>i. mi = Some i \<longrightarrow> sha1_function (id_hash i)"
  shows "set_build cv ord s hdr mi =
    (let body = concat (map tlv (set_items cv ord s)); fp = has_fingerprint s
     in case mi of
          None \<Rightarrow> Inr (built_bytes cv hdr body fp)
        | Some i \<Rightarrow> rmap (\<lambda>d. built_bytes cv hdr (body @ tlv (MESSAGE_INTEGRITY, d)) fp) (digest_of cv hdr body i))"
proof -
  let ?body = "concat (map tlv (set_items cv ord s))"
  let ?b = "fold (\<lambda>(t, v). add_attr cv t v) (set_items cv ord s) ([], 0)"
  have b: "concat (fst ?b) = ?body" "snd ?b = of_nat (length ?body)"
    using fold_add_attr [of "set_items cv ord s" "([], 0)"] by (simp_all add: body_size_def)
  have len: "length ?body + 32 < 65536"
    using set_buildable_items(1) [OF assms(1,2)] by (simp add: body_size_def)
  show ?thesis
  proof (cases mi)
    case None
    then show ?thesis using set_build_tail [OF b] len
      by (simp add: set_build_def collected_items has_fingerprint_def Let_def)
  next
    case (Some i)
    then have sha: "sha1_function (id_hash i)" using assms(3) by simp
    have int: "add_integrity cv hdr i ?b = rmap (\<lambda>d. add_attr cv MESSAGE_INTEGRITY d ?b) (digest_of cv hdr ?body i)"
      using add_integrity_eq [OF sha b] len by simp
    show ?thesis
    proof (cases "digest_of cv hdr ?body i")
      case (Inr d)
      have d: "length d = sha1_size"
        using Inr sha1_function.hmac_digest_size [OF sha] by (simp add: digest_of_def)
      let ?c = "add_attr cv MESSAGE_INTEGRITY d ?b"
      have "concat (fst ?c) = ?body @ tlv (MESSAGE_INTEGRITY, d)" "snd ?c = of_nat (length (?body @ tlv (MESSAGE_INTEGRITY, d)))"
        using add_attr_tlv [of MESSAGE_INTEGRITY d ?b] b by simp_all
      then show ?thesis using Some Inr int len d set_build_tail [of ?c "?body @ tlv (MESSAGE_INTEGRITY, d)"]
        by (simp add: set_build_def collected_items has_fingerprint_def Let_def length_tlv padding_of_def)
    qed (simp add: Some set_build_def collected_items int Let_def)
  qed
qed

end

section \<open>Parsing the built bytes\<close>

abbreviation msg_type_of :: "header \<Rightarrow> u16" where
  "msg_type_of h \<equiv> class_to_msg_type (h_cls h) OR method_to_msg_type (h_method h)"

lemma of_nat_mod4_mask: "n mod 4 = 0 \<Longrightarrow> (of_nat n :: u16) AND 0x3 = 0"
proof -
  assume n: "n mod 4 = 0"
  have "(3 :: u16) = mask 2" by (simp add: mask_eq_exp_minus_1)
  then have "(of_nat n :: u16) AND 0x3 = take_bit 2 (of_nat n)" by (simp add: take_bit_eq_mask)
  also have "\<dots> = of_nat (take_bit 2 n)" by (simp add: take_bit_of_nat)
  finally show ?thesis using n by (simp add: take_bit_eq_mod)
qed

text \<open>What the parser reads from the header of \<open>hdr @ body\<close>.\<close>

definition header_reads :: "craftpp \<Rightarrow> header \<Rightarrow> bytes \<Rightarrow> bool" where
  "header_reads cv h vv \<longleftrightarrow>
     assured_read_u16be cv vv 0 = msg_type_of h \<and> assured_read_u16be cv vv 2 = of_nat (length vv - STUN_HEADER_SIZE) \<and>
     (if length (h_transaction_id h) = TRANSACTION_ID_SIZE
      then assured_read_u32be cv vv 4 = MAGIC_COOKIE \<and>
           assured_subview cv vv 8 TRANSACTION_ID_SIZE = h_transaction_id h
      else assured_read_u32be cv vv 4 \<noteq> MAGIC_COOKIE \<and> h_cls h = REQUEST \<and>
           assured_subview cv vv 4 TRANSACTION_ID_SIZE_RFC3489 = h_transaction_id h)"

context binary_view
begin

lemma header_reads_build:
  assumes "header_wf h"
  shows "header_reads cv h (header_build cv h (length body) @ body)"
proof -
  let ?l = "of_nat (length body) :: u16"
  let ?t = "h_transaction_id h"
  let ?vv = "header_build cv h (length body) @ body"
  have len: "length (header_build cv h (length body)) = STUN_HEADER_SIZE"
    by (rule length_header_build [OF binary_view_axioms assms])
  obtain mid where vv: "?vv = be_encode 2 (msg_type_of h) @ be_encode 2 ?l @ mid @ body"
    and mid: "if length ?t = TRANSACTION_ID_SIZE then mid = be_encode 4 MAGIC_COOKIE @ ?t else mid = ?t"
    by (rule that [of "if length ?t = TRANSACTION_ID_SIZE then be_encode 4 MAGIC_COOKIE @ ?t else ?t"])
      (simp_all add: header_build_def Let_def net_u16_eq net_u32_eq)
  have s0: "slice ?vv 0 2 = be_encode 2 (msg_type_of h)"
    using slice_append_mid [of "[]" 0 "be_encode 2 (msg_type_of h)" 2 "be_encode 2 ?l @ mid @ body"] by (simp add: vv)
  have s2: "slice ?vv 2 2 = be_encode 2 ?l" unfolding vv by (rule slice_append_mid) simp_all
  have r0: "assured_read_u16be cv ?vv 0 = msg_type_of h" and r2: "assured_read_u16be cv ?vv 2 = ?l"
    using assured_read_u16be_eq [of 0 ?vv] assured_read_u16be_eq [of 2 ?vv] by (simp_all add: len s0 s2)
  show ?thesis
  proof (cases "length ?t = TRANSACTION_ID_SIZE")
    case True
    then have vv': "?vv = (be_encode 2 (msg_type_of h) @ be_encode 2 ?l) @ be_encode 4 MAGIC_COOKIE @ ?t @ body"
      using vv mid by simp
    have s4: "slice ?vv 4 4 = be_encode 4 MAGIC_COOKIE"
      unfolding vv' by (rule slice_append_mid) simp_all
    have s8: "slice ?vv 8 TRANSACTION_ID_SIZE = ?t"
      unfolding vv' using True
      by (subst append_assoc [symmetric]) (rule slice_append_mid; simp)
    show ?thesis using True r0 r2 len s4 s8
      by (simp add: header_reads_def assured_read_u32be_eq assured_subview_eq)
  next
    case False
    then have t: "length ?t = TRANSACTION_ID_SIZE_RFC3489" "h_cls h = REQUEST" "be_decode (take 4 ?t) \<noteq> MAGIC_COOKIE"
      using assms by (auto simp: header_wf_def)
    have vv': "?vv = (be_encode 2 (msg_type_of h) @ be_encode 2 ?l) @ take 4 ?t @ drop 4 ?t @ body"
      using False vv mid by simp
    have s4: "slice ?vv 4 4 = take 4 ?t"
      unfolding vv' by (rule slice_append_mid) (simp_all add: t)
    have "?vv = (be_encode 2 (msg_type_of h) @ be_encode 2 ?l) @ ?t @ body" using False vv mid by simp
    then have s16: "slice ?vv 4 TRANSACTION_ID_SIZE_RFC3489 = ?t"
      using t by (simp only:) (rule slice_append_mid; simp)
    show ?thesis using False t r0 r2 len s4 s16
      by (simp add: header_reads_def assured_read_u32be_eq assured_subview_eq)
  qed
qed

lemma message_parse_reads:
  assumes "header_wf h" "header_reads cv h vv" "STUN_HEADER_SIZE \<le> length vv"
    "length vv - STUN_HEADER_SIZE < 65536"
    "(length vv - STUN_HEADER_SIZE) mod 4 = 0"
    and attrs: "parse_attrs cv vv STUN_HEADER_SIZE st = (st, Inr r)"
    and fp: "fingerprint_is_valid cv vv (snd (fold collect_attr (pa_attrs r) (empty_set, None))) (pa_fingerprint r)"
  shows "message_parse cv vv st =
    (st\<lparr>ps_success := ps_success st + 1\<rparr>,
     Inr \<lparr>m_header = h, m_attribute_set = fst (fold collect_attr (pa_attrs r) (empty_set, None)),
          m_is_rfc3489 = (length (h_transaction_id h) \<noteq> TRANSACTION_ID_SIZE),
          m_integrity_interval = pa_integrity r\<rparr>)"
proof -
  have m: "h_method h < 2 ^ 14" using assms(1) by (simp add: header_wf_def)
  have len: "unat (assured_read_u16be cv vv 2) = length vv - STUN_HEADER_SIZE"
    using assms(2,4) by (simp add: header_reads_def unat_of_nat_small)
  have pad: "assured_read_u16be cv vv 2 AND 0x3 = 0"
    using assms(2,5) by (simp add: header_reads_def of_nat_mod4_mask)
  have cm: "class_from_msg_type (assured_read_u16be cv vv 0) = h_cls h"
    "method_from_msg_type (assured_read_u16be cv vv 0) = h_method h"
    using assms(2) class_from_type method_from_type [OF m] by (simp_all add: header_reads_def)
  show ?thesis
    using assms(2,3) len pad cm attrs fp
    by (auto simp: message_parse_def header_reads_def Let_def inc_def split_beta split: if_splits)
qed

lemma loop_mi:
  assumes "length d = sha1_size" "vv = pre @ tlv (MESSAGE_INTEGRITY, d) @ post"
  shows "raw_attrs_loop cv vv (length pre) raws mi mf st =
    raw_attrs_loop cv vv (length pre + 24) (raws @ [raw_of (MESSAGE_INTEGRITY, d)])
      (Some \<lparr>i_offset = 0, i_count = length pre\<rparr>) mf st"
proof -
  have len: "length (snd (MESSAGE_INTEGRITY, d)) < 65536" using assms(1) by simp
  have "aligned_length (raw_of (MESSAGE_INTEGRITY, d)) = 24"
    using aligned_length_raw [OF len] assms(1) by (simp add: length_tlv padding_of_def)
  then show ?thesis by (simp add: raw_attrs_loop_step [OF loop_item [OF len assms(2) refl]])
qed

lemma loop_fp:
  assumes "length c = FINGERPRINT_CRC_SIZE" "vv = pre @ tlv (FINGERPRINT, c)"
  shows "raw_attrs_loop cv vv (length pre) raws mi mf st =
    (st, Inr (raws @ [raw_of (FINGERPRINT, c)], mi, Some \<lparr>i_offset = 0, i_count = length pre\<rparr>))"
proof -
  have len: "length (snd (FINGERPRINT, c)) < 65536" using assms(1) by simp
  have vv: "vv = pre @ tlv (FINGERPRINT, c) @ []" using assms by simp
  have "aligned_length (raw_of (FINGERPRINT, c)) = 8"
    using aligned_length_raw [OF len] assms(1) by (simp add: length_tlv padding_of_def)
  moreover have "length vv = length pre + 8" using assms by (simp add: length_tlv padding_of_def)
  ultimately show ?thesis
    by (simp add: raw_attrs_loop_step [OF loop_item [OF len vv refl]] raw_attrs_loop_end)
qed

end

section \<open>The items of the tail\<close>

definition fp_items :: "u32 option \<Rightarrow> (attribute_type \<times> bytes) list" where
  "fp_items c = (case c of None \<Rightarrow> [] | Some x \<Rightarrow> [(FINGERPRINT, be_encode 4 (x XOR FINGERPRINT_XOR))])"

definition tail_attrs :: "bytes option \<Rightarrow> u32 option \<Rightarrow> parse_result list" where
  "tail_attrs d c =
     (case d of None \<Rightarrow> [] | Some x \<Rightarrow> [Known (attribute_create (MessageIntegityAttribute x))]) @
     (case c of None \<Rightarrow> [] | Some x \<Rightarrow> [Known (attribute_create (FingerprintAttribute x))])"

abbreviation prefix_interval :: "nat \<Rightarrow> 'a option \<Rightarrow> interval option" where
  "prefix_interval n x \<equiv> map_option (\<lambda>_. \<lparr>i_offset = 0, i_count = n\<rparr>) x"

abbreviation digest_ok :: "bytes option \<Rightarrow> bool" where
  "digest_ok d \<equiv> (case d of None \<Rightarrow> True | Some x \<Rightarrow> length x = sha1_size)"

context binary_view
begin

lemma loop_built:
  assumes items: "\<forall>tv \<in> set items. length (snd tv) < 65536 \<and> \<not> is_tail_type (fst tv)"
    and d: "digest_ok d"
    and vv: "vv = hdr @ concat (map tlv (items @ mi_items d @ fp_items c))"
  shows "raw_attrs_loop cv vv (length hdr) [] None None st =
    (st, Inr (map raw_of (items @ mi_items d @ fp_items c),
       prefix_interval (length hdr + body_size items) d,
       prefix_interval (length hdr + body_size (items @ mi_items d)) c))"
proof -
  let ?l = "raw_attrs_loop cv vv"
  have 1: "?l (length hdr) [] None None st
      = ?l (length hdr + body_size items) (map raw_of items) None None st"
    using loop_items [OF items, of hdr "concat (map tlv (mi_items d @ fp_items c))" "[]"] vv by simp
  have 2: "\<dots> = ?l (length hdr + body_size (items @ mi_items d)) (map raw_of (items @ mi_items d))
      (prefix_interval (length hdr + body_size items) d) None st"
  proof (cases d)
    case (Some x)
    have "vv = (hdr @ concat (map tlv items)) @ tlv (MESSAGE_INTEGRITY, x) @ concat (map tlv (fp_items c))"
      using vv Some by (simp add: mi_items_def)
    from loop_mi [OF _ this] show ?thesis
      using Some d by (simp add: mi_items_def body_size_def length_tlv padding_of_def add.assoc)
  qed (simp add: mi_items_def)
  have 3: "?l (length hdr + body_size (items @ mi_items d)) raws mi None st =
      (st, Inr (raws @ map raw_of (fp_items c), mi, prefix_interval (length hdr + body_size (items @ mi_items d)) c))"
    for raws mi
  proof (cases c)
    case None
    then show ?thesis using vv by (simp add: fp_items_def raw_attrs_loop_end body_size_def)
  next
    case (Some x)
    have "vv = (hdr @ concat (map tlv (items @ mi_items d))) @ tlv (FINGERPRINT, be_encode 4 (x XOR FINGERPRINT_XOR))"
      using vv Some by (simp add: fp_items_def)
    from loop_fp [OF _ this] show ?thesis
      using Some by (simp add: fp_items_def body_size_def)
  qed
  show ?thesis unfolding 1 2 3 by simp
qed

lemma tail_items_parse:
  assumes "digest_ok d"
  shows "list_all2 (item_parses cv st) (mi_items d @ fp_items c) (tail_attrs d c)"
  using assms
  by (cases d; cases c)
    (simp_all add: mi_items_def fp_items_def tail_attrs_def item_parses_def attribute_parse_def create_attr_def
      message_integrity_parse_def hash_from_view_def fingerprint_parse_def read_u32be_eq slice_def
      attribute_create_def xor.assoc)

lemma parse_attrs_built:
  assumes items: "\<forall>tv \<in> set items. length (snd tv) < 65536 \<and> \<not> is_tail_type (fst tv)"
    and d: "digest_ok d"
    and vv: "vv = hdr @ concat (map tlv (items @ mi_items d @ fp_items c))"
    and prs: "list_all2 (item_parses cv st) items prs"
  shows "parse_attrs cv vv (length hdr) st =
    (st, Inr \<lparr>pa_attrs = prs @ tail_attrs d c,
       pa_integrity = prefix_interval (length hdr + body_size items) d,
       pa_fingerprint = prefix_interval (length hdr + body_size (items @ mi_items d)) c\<rparr>)"
proof -
  have "list_all2 (item_parses cv st) (items @ mi_items d @ fp_items c) (prs @ tail_attrs d c)"
    using prs tail_items_parse [OF d] by (rule list_all2_appendI)
  from parse_raw_items [OF this] show ?thesis
    by (simp add: parse_attrs_def loop_built [OF items d vv] del: map_append)
qed

end

lemma collect_tail:
  assumes "\<forall>a. Known a \<in> set prs \<longrightarrow> as_fingerprint (a_value a) = None"
    and "\<forall>t. is_tail_type t \<longrightarrow> map_of (known_of prs) t = None"
  shows "snd (fold collect_attr (prs @ tail_attrs d c) (empty_set, None)) = c"
    and "map_of (as_map (fst (fold collect_attr (prs @ tail_attrs d c) (empty_set, None)))) t =
      (if t = MESSAGE_INTEGRITY then map_option (\<lambda>x. attribute_create (MessageIntegityAttribute x)) d
       else if t = FINGERPRINT then map_option (\<lambda>x. attribute_create (FingerprintAttribute x)) c
       else map_of (known_of prs) t)"
proof -
  obtain s where s: "fold collect_attr prs (empty_set, None) = (s, None)"
    using collect_fingerprint [of prs empty_set None] assms(1) by (cases "fold collect_attr prs (empty_set, None)") auto
  show "snd (fold collect_attr (prs @ tail_attrs d c) (empty_set, None)) = c"
    by (cases d; cases c) (simp_all add: s tail_attrs_def attribute_create_def)
  show "map_of (as_map (fst (fold collect_attr (prs @ tail_attrs d c) (empty_set, None)))) t =
      (if t = MESSAGE_INTEGRITY then map_option (\<lambda>x. attribute_create (MessageIntegityAttribute x)) d
       else if t = FINGERPRINT then map_option (\<lambda>x. attribute_create (FingerprintAttribute x)) c
       else map_of (known_of prs) t)"
    unfolding collect_lookup using assms(2)
    by (cases d; cases c)
      (auto simp: tail_attrs_def empty_set_def attribute_create_def map_add_def split: option.split)
qed

lemma unknown_of_tail [simp]: "unknown_of (tail_attrs d c) = []"
  by (cases d; cases c) (simp_all add: tail_attrs_def)

text \<open>The same bytes as a header and a sequence of items.\<close>

lemma built_bytes_items:
  obtains c where "(c \<noteq> None) = fp"
    "built_bytes cv h (concat (map tlv items)) fp =
       header_build cv h (body_size (items @ fp_items c)) @ concat (map tlv (items @ fp_items c))"
    "\<And>x. c = Some x \<Longrightarrow> x = crc32 (header_build cv h (body_size (items @ fp_items c)) @ concat (map tlv items))"
proof (cases fp)
  case True
  let ?x = "crc32 (header_build cv h (body_size items + 8) @ concat (map tlv items))"
  have "body_size (items @ fp_items (Some y)) = body_size items + 8" for y
    by (simp add: fp_items_def length_tlv padding_of_def)
  then show ?thesis using True
    by (intro that [of "Some ?x"]) (simp_all add: built_bytes_def Let_def fp_items_def body_size_def)
next
  case False
  then show ?thesis by (intro that [of None]) (simp_all add: built_bytes_def fp_items_def body_size_def)
qed

definition same_content :: "attribute_set \<Rightarrow> attribute_set \<Rightarrow> bool" where
  \<comment> \<open>MESSAGE-INTEGRITY aside, the same attributes; of FINGERPRINT only the presence is kept\<close>
  "same_content s s' \<longleftrightarrow> as_unknown s' = as_unknown s \<and> has_fingerprint s' = has_fingerprint s \<and>
     (\<forall>t. t \<notin> {MESSAGE_INTEGRITY, FINGERPRINT} \<longrightarrow> lookup_equiv (map_of (as_map s) t) (map_of (as_map s') t))"

context binary_view
begin

lemma items_parse:
  assumes "map_order ord" "set_buildable cv s"
  obtains prs where "list_all2 (item_parses cv st) (set_items cv ord s) prs"
    "\<forall>a. Known a \<in> set prs \<longrightarrow> as_fingerprint (a_value a) = None"
    "\<forall>t. is_tail_type t \<longrightarrow> map_of (known_of prs) t = None"
    "\<forall>t. \<not> is_tail_type t \<longrightarrow> lookup_equiv (map_of (as_map s) t) (map_of (known_of prs) t)"
    "unknown_of prs = as_unknown s"
proof -
  have wf: "attrs_wf s" "\<forall>(t, a) \<in> set (as_map s). encodable (a_value a)"
    "\<forall>u \<in> set (as_unknown s). ua_type u \<notin> set known_types"
    using assms(2) by (simp_all add: set_buildable_def)
  have lookup: "map_of (ord (as_map s)) = map_of (as_map s)"
    using map_order.map_of_ord [OF assms(1)] wf(1) by (simp add: attrs_wf_def)
  have "\<forall>(t, a) \<in> set (ord (as_map s)). t = a_type a \<and> attribute_wf a \<and> encodable (a_value a)"
    using wf map_order.set_ord [OF assms(1)] by (fastforce simp: attrs_wf_def)
  from known_items_parse [OF this, of st] obtain prs where
    prs: "list_all2 (item_parses cv st) (known_items cv (ord (as_map s))) prs" "unknown_of prs = []"
      "\<forall>t. \<not> is_tail_type t \<longrightarrow> lookup_equiv (map_of (as_map s) t) (map_of (known_of prs) t)"
      "\<forall>t. is_tail_type t \<longrightarrow> map_of (known_of prs) t = None"
      "\<forall>a. Known a \<in> set prs \<longrightarrow> as_fingerprint (a_value a) = None"
    unfolding lookup by blast
  show ?thesis
    using prs list_all2_appendI [OF prs(1) unknown_items_parse [OF wf(3), of st]]
    by (intro that [of "prs @ map Unknown (as_unknown s)"]) (auto simp: set_items_def)
qed

lemma built_parse:
  assumes ord: "map_order ord" and s: "set_buildable cv s" and h: "header_wf h" and d: "digest_ok d"
  obtains m' where
    "message_parse cv (built_bytes cv h (concat (map tlv (set_items cv ord s @ mi_items d))) (has_fingerprint s)) st
       = (st\<lparr>ps_success := ps_success st + 1\<rparr>, Inr m')"
    "m_header m' = h" "m_is_rfc3489 m' = (length (h_transaction_id h) \<noteq> TRANSACTION_ID_SIZE)"
    "same_content s (m_attribute_set m')"
    "map_of (as_map (m_attribute_set m')) MESSAGE_INTEGRITY
       = map_option (\<lambda>x. attribute_create (MessageIntegityAttribute x)) d"
    "m_integrity_interval m' = prefix_interval (STUN_HEADER_SIZE + body_size (set_items cv ord s)) d"
proof -
  let ?items = "set_items cv ord s"
  obtain prs where prs: "list_all2 (item_parses cv st) ?items prs"
    and tail: "\<forall>a. Known a \<in> set prs \<longrightarrow> as_fingerprint (a_value a) = None"
      "\<forall>t. is_tail_type t \<longrightarrow> map_of (known_of prs) t = None"
    and content: "\<forall>t. \<not> is_tail_type t \<longrightarrow> lookup_equiv (map_of (as_map s) t) (map_of (known_of prs) t)"
      "unknown_of prs = as_unknown s"
    using items_parse [OF ord s] by blast
  obtain c where c: "(c \<noteq> None) = has_fingerprint s"
    "built_bytes cv h (concat (map tlv (?items @ mi_items d))) (has_fingerprint s)
       = header_build cv h (body_size ((?items @ mi_items d) @ fp_items c)) @ concat (map tlv ((?items @ mi_items d) @ fp_items c))"
    "\<And>x. c = Some x \<Longrightarrow> x = crc32 (header_build cv h (body_size ((?items @ mi_items d) @ fp_items c))
       @ concat (map tlv (?items @ mi_items d)))"
    by (rule built_bytes_items [where fp = "has_fingerprint s" and items = "?items @ mi_items d" and cv = cv and h = h]) blast
  let ?all = "?items @ mi_items d @ fp_items c"
  let ?hdr = "header_build cv h (body_size ?all)"
  let ?vv = "?hdr @ concat (map tlv ?all)"
  let ?f = "fold collect_attr (prs @ tail_attrs d c) (empty_set, None)"
  have hdr: "length ?hdr = STUN_HEADER_SIZE" by (rule length_header_build [OF binary_view_axioms h])
  have small: "body_size ?all < 65536"
    using set_buildable_items(1) [OF ord s] d
    by (cases d; cases c) (simp_all add: mi_items_def fp_items_def length_tlv padding_of_def)
  have attrs: "parse_attrs cv ?vv STUN_HEADER_SIZE st = (st, Inr \<lparr>pa_attrs = prs @ tail_attrs d c,
      pa_integrity = prefix_interval (STUN_HEADER_SIZE + body_size ?items) d,
      pa_fingerprint = prefix_interval (STUN_HEADER_SIZE + body_size (?items @ mi_items d)) c\<rparr>)"
    using parse_attrs_built [OF set_buildable_items(2) [OF ord s] d refl prs, of ?hdr c] hdr by simp
  let ?n = "STUN_HEADER_SIZE + body_size (?items @ mi_items d)"
  have sub: "subview cv ?vv \<lparr>i_offset = 0, i_count = ?n\<rparr> = Some (?hdr @ concat (map tlv (?items @ mi_items d)))"
    using hdr by (simp add: subview_eq interval_in_def slice_def body_size_def)
  have fp: "fingerprint_is_valid cv ?vv (snd ?f) (prefix_interval ?n c)"
    unfolding collect_tail(1) [OF tail] fingerprint_is_valid_def
    using c(3) sub by (cases c) simp_all
  have len: "length ?vv = STUN_HEADER_SIZE + body_size ?all" using hdr by (simp add: body_size_def)
  have reads: "header_reads cv h ?vv"
    using header_reads_build [OF h, of "concat (map tlv ?all)"] by (simp add: body_size_def)
  have parsed: "message_parse cv ?vv st = (st\<lparr>ps_success := ps_success st + 1\<rparr>,
     Inr \<lparr>m_header = h, m_attribute_set = fst ?f,
          m_is_rfc3489 = (length (h_transaction_id h) \<noteq> TRANSACTION_ID_SIZE),
          m_integrity_interval = prefix_interval (STUN_HEADER_SIZE + body_size ?items) d\<rparr>)"
    using message_parse_reads [OF h reads _ _ _ attrs] fp len small body_size_mod4 [of ?all] by simp
  have same: "same_content s (fst ?f)"
    unfolding same_content_def has_fingerprint_def [of "fst ?f"] collect_tail(2) [OF tail] collect_unknown
    using content c(1) by (auto simp: empty_set_def)
  have mi: "map_of (as_map (fst ?f)) MESSAGE_INTEGRITY = map_option (\<lambda>x. attribute_create (MessageIntegityAttribute x)) d"
    unfolding collect_tail(2) [OF tail] by simp
  have bytes: "built_bytes cv h (concat (map tlv (?items @ mi_items d))) (has_fingerprint s) = ?vv"
    using c(2) by simp
  show ?thesis by (rule that [unfolded bytes, OF parsed]) (simp_all only: message.simps same mi)
qed

end

section \<open>The digest of a signed message\<close>

context binary_view
begin

lemma header_build_split:
  assumes "header_wf h"
  shows "header_build cv h n = [ucast (drop_bit 8 (msg_type_of h)), ucast (msg_type_of h)]
    @ be_encode 2 (of_nat n :: u16) @ drop 4 (header_build cv h k)"
  using assms by (auto simp: header_build_def Let_def header_wf_def net_u16_eq be_encode_2)

lemma length_bytes: "[word_of_nat ((n div 256) mod 256), word_of_nat (n mod 256)] = be_encode 2 (of_nat n :: u16)"
proof -
  have *: "k mod 256 = take_bit 8 k" "k div 256 = drop_bit 8 k" for k :: nat
    by (simp_all add: take_bit_eq_mod drop_bit_eq_div)
  show ?thesis unfolding be_encode_2 *
    by (auto intro!: bit_word_eqI simp: bit_simps)
qed

lemma message_is_valid_built:
  assumes h: "header_wf h" and sha: "sha1_function (id_hash j)" and len: "length body + 24 < 65536"
    and dat: "dat = header_build cv h k @ body @ rest"
    and m: "m_integrity_interval m = Some \<lparr>i_offset = 0, i_count = STUN_HEADER_SIZE + length body\<rparr>"
      "get_integrity (m_attribute_set m) = Some d"
  shows "message_is_valid cv m dat j = rmap (\<lambda>d'. Some (d' = d)) (digest_of cv h body j)"
proof -
  have hk: "length (header_build cv h k) = STUN_HEADER_SIZE" by (rule length_header_build [OF binary_view_axioms h])
  let ?c = "header_build cv h k @ body"
  let ?n = "length ?c + STUN_ATTR_HEADER_SIZE + sha1_size - STUN_HEADER_SIZE"
  have c: "subview cv dat \<lparr>i_offset = 0, i_count = STUN_HEADER_SIZE + length body\<rparr> = Some ?c"
    using hk dat by (simp add: subview_eq interval_in_def slice_def)
  have n: "?n = length body + STUN_ATTR_HEADER_SIZE + sha1_size" using hk by simp
  have rest: "subview_from cv ?c 4 = Some (drop 4 (header_build cv h k) @ body)"
    using hk by (simp add: subview_from_in)
  have hd: "[dat ! 0, dat ! 1, word_of_nat ((?n div 256) mod 256), word_of_nat (?n mod 256)] @ drop 4 (header_build cv h k)
      = header_build cv h (length body + STUN_ATTR_HEADER_SIZE + sha1_size)"
  proof -
    have "dat ! 0 = ucast (drop_bit 8 (msg_type_of h))" "dat ! 1 = ucast (msg_type_of h)"
      unfolding dat by (subst header_build_split [OF h, of k k], simp)+
    then show ?thesis
      unfolding header_build_split [OF h, of "length body + STUN_ATTR_HEADER_SIZE + sha1_size" k] length_bytes [symmetric] n
      by simp
  qed
  have "hmac_digest [[dat ! 0, dat ! 1, word_of_nat ((?n div 256) mod 256), word_of_nat (?n mod 256)],
        drop 4 (header_build cv h k) @ body] op ip (id_hash j)
      = hmac_digest [header_build cv h (length body + STUN_ATTR_HEADER_SIZE + sha1_size), body] op ip (id_hash j)" for op ip
    using hd by (intro sha1_function.hmac_digest_concat [OF sha]) (metis append_assoc concat.simps append_Nil2)
  then show ?thesis
    unfolding message_is_valid_def m digest_of_def by (simp only: bind.simps c option.case rest prod.case Let_def)
qed

end

section \<open>Build, then parse\<close>

context binary_view
begin

lemma build_parse_plain:
  assumes "map_order ord" "header_wf (m_header m)" "set_buildable cv (m_attribute_set m)"
  shows "\<exists>out m'. message_build cv ord m None = Inr out \<and>
    message_parse cv out st = (st\<lparr>ps_success := ps_success st + 1\<rparr>, Inr m') \<and>
    m_header m' = m_header m \<and>
    m_is_rfc3489 m' = (length (h_transaction_id (m_header m)) \<noteq> TRANSACTION_ID_SIZE) \<and>
    m_integrity_interval m' = None \<and> get_integrity (m_attribute_set m') = None \<and>
    same_content (m_attribute_set m) (m_attribute_set m')"
proof -
  obtain m' where
    "message_parse cv (built_bytes cv (m_header m) (concat (map tlv (set_items cv ord (m_attribute_set m) @ mi_items None)))
       (has_fingerprint (m_attribute_set m))) st = (st\<lparr>ps_success := ps_success st + 1\<rparr>, Inr m')"
    "m_header m' = m_header m" "m_is_rfc3489 m' = (length (h_transaction_id (m_header m)) \<noteq> TRANSACTION_ID_SIZE)"
    "same_content (m_attribute_set m) (m_attribute_set m')"
    "map_of (as_map (m_attribute_set m')) MESSAGE_INTEGRITY
       = map_option (\<lambda>x. attribute_create (MessageIntegityAttribute x)) None"
    "m_integrity_interval m' = prefix_interval (STUN_HEADER_SIZE + body_size (set_items cv ord (m_attribute_set m))) (None :: bytes option)"
    by (rule built_parse [OF assms(1,3,2), of None st]) simp
  then show ?thesis
    using set_build_bytes [OF assms(1,3), of None "m_header m"]
    by (simp add: message_build_def mi_items_def Let_def get_integrity_def access_def)
qed

lemma build_parse_signed:
  assumes "map_order ord" "header_wf (m_header m)" "set_buildable cv (m_attribute_set m)"
    "sha1_function (id_hash i)"
  shows "case message_build cv ord m (Some i) of
      Inl e \<Rightarrow> \<exists>body. digest_of cv (m_header m) body i = Inl e
    | Inr out \<Rightarrow> \<exists>m' body d.
        message_parse cv out st = (st\<lparr>ps_success := ps_success st + 1\<rparr>, Inr m') \<and>
        m_header m' = m_header m \<and> same_content (m_attribute_set m) (m_attribute_set m') \<and>
        digest_of cv (m_header m) body i = Inr d \<and> message_is_valid cv m' out i = Inr (Some True) \<and>
        (\<forall>j. sha1_function (id_hash j) \<longrightarrow>
           message_is_valid cv m' out j = rmap (\<lambda>d'. Some (d' = d)) (digest_of cv (m_header m) body j))"
proof -
  let ?h = "m_header m" and ?s = "m_attribute_set m"
  let ?items = "set_items cv ord ?s"
  let ?body = "concat (map tlv ?items)"
  note bytes = set_build_bytes [OF assms(1,3), of "Some i" ?h]
  have len: "length ?body + 32 < 65536" using set_buildable_items(1) [OF assms(1,3)] by (simp add: body_size_def)
  show ?thesis
  proof (cases "digest_of cv ?h ?body i")
    case (Inl e)
    then show ?thesis using bytes assms(4) by (auto simp: message_build_def Let_def)
  next
    case (Inr d)
    then have d: "digest_ok (Some d)" using sha1_function.hmac_digest_size [OF assms(4)] by (simp add: digest_of_def)
    let ?all = "?items @ mi_items (Some d)"
    let ?out = "built_bytes cv ?h (concat (map tlv ?all)) (has_fingerprint ?s)"
    obtain m' where parsed: "message_parse cv ?out st = (st\<lparr>ps_success := ps_success st + 1\<rparr>, Inr m')"
      "m_header m' = ?h" "same_content ?s (m_attribute_set m')"
      and m': "map_of (as_map (m_attribute_set m')) MESSAGE_INTEGRITY
         = map_option (\<lambda>x. attribute_create (MessageIntegityAttribute x)) (Some d)"
        "m_integrity_interval m' = prefix_interval (STUN_HEADER_SIZE + body_size ?items) (Some d)"
      by (rule built_parse [OF assms(1,3,2) d, of st])
    have mi: "m_integrity_interval m' = Some \<lparr>i_offset = 0, i_count = STUN_HEADER_SIZE + length ?body\<rparr>"
      using m'(2) by (simp add: body_size_def)
    obtain k rest where out: "?out = header_build cv ?h k @ ?body @ rest"
      by (cases "has_fingerprint ?s") (simp_all add: built_bytes_def Let_def)
    have "get_integrity (m_attribute_set m') = Some d"
      using m'(1) by (simp add: get_integrity_def access_def attribute_create_def)
    note valid = message_is_valid_built [OF assms(2) _ _ out mi this]
    have "message_build cv ord m (Some i) = Inr ?out"
      using bytes assms(4) Inr by (simp add: message_build_def mi_items_def)
    moreover have "message_is_valid cv m' ?out i = Inr (Some True)" using valid [OF assms(4)] len Inr by simp
    moreover have "\<forall>j. sha1_function (id_hash j) \<longrightarrow>
        message_is_valid cv m' ?out j = rmap (\<lambda>d'. Some (d' = d)) (digest_of cv ?h ?body j)"
      using valid len by simp
    ultimately show ?thesis using parsed Inr by auto
  qed
qed

lemma build_parse_any:
  assumes "map_order ord" "header_wf (m_header m)" "set_buildable cv (m_attribute_set m)"
    "\<forall>i. mi = Some i \<longrightarrow> sha1_function (id_hash i)" "message_build cv ord m mi = Inr out"
  shows "\<exists>m'. message_parse cv out st = (st\<lparr>ps_success := ps_success st + 1\<rparr>, Inr m') \<and>
    m_header m' = m_header m \<and> same_content (m_attribute_set m) (m_attribute_set m') \<and>
    (get_integrity (m_attribute_set m') = None \<longleftrightarrow> mi = None) \<and>
    (\<forall>i. mi = Some i \<longrightarrow> message_is_valid cv m' out i = Inr (Some True))"
proof (cases mi)
  case None
  then show ?thesis using build_parse_plain [OF assms(1-3), of st] assms(5) by auto
next
  case (Some i)
  then obtain m' where m': "message_parse cv out st = (st\<lparr>ps_success := ps_success st + 1\<rparr>, Inr m')"
    "m_header m' = m_header m" "same_content (m_attribute_set m) (m_attribute_set m')"
    "message_is_valid cv m' out i = Inr (Some True)"
    using build_parse_signed [OF assms(1-3), of i st] assms(4,5) by auto
  then have "get_integrity (m_attribute_set m') \<noteq> None"
    by (auto simp: message_is_valid_def Let_def split: option.splits)
  then show ?thesis using m' Some by auto
qed

end

section \<open>Properties\<close>

definition sample_message :: message where
  "sample_message = \<lparr>m_header = \<lparr>h_cls = REQUEST, h_method = binding_method, h_transaction_id = [1,2,3,4,5,6,7,8,9,10,11,12]\<rparr>,
     m_attribute_set = set_create [UsernameAttribute [0x61, 0x62, 0x63], PriorityAttribute 7, FingerprintAttribute 0]
       [\<lparr>ua_type = 0x7777, ua_data = [1]\<rparr>],
     m_is_rfc3489 = False, m_integrity_interval = None\<rparr>"

lemma sample_message_wf: "header_wf (m_header sample_message)" "set_buildable list_view (m_attribute_set sample_message)"
  by code_simp+

text \<open>
  C1.  Parsing is a left inverse of building: for every order in which the container is iterated, an
  unsigned message is built without error, and the parser accepts the bytes, counts one success and
  returns the same header, the same unknown attributes and the same known attributes (those with the
  two plain-address attributes excepted, which \<open>set_buildable\<close> rules out), with a FINGERPRINT
  exactly when one was asked for.
\<close>

theorem message_build_parse:
  assumes "binary_view cv" "map_order ord" "header_wf (m_header m)" "set_buildable cv (m_attribute_set m)"
  shows "\<exists>out m'. message_build cv ord m None = Inr out \<and>
    message_parse cv out st = (st\<lparr>ps_success := ps_success st + 1\<rparr>, Inr m') \<and>
    m_header m' = m_header m \<and>
    m_is_rfc3489 m' = (length (h_transaction_id (m_header m)) \<noteq> TRANSACTION_ID_SIZE) \<and>
    m_integrity_interval m' = None \<and> get_integrity (m_attribute_set m') = None \<and>
    same_content (m_attribute_set m) (m_attribute_set m')"
  using assms by (intro binary_view.build_parse_plain)

theorem message_build_parse_witness:
  "\<exists>out m'. message_build list_view rev sample_message None = Inr out \<and>
    message_parse list_view out zero_stat = (zero_stat\<lparr>ps_success := 1\<rparr>, Inr m') \<and>
    m_header m' = m_header sample_message \<and> has_fingerprint (m_attribute_set m')"
proof -
  have fp: "has_fingerprint (m_attribute_set sample_message)" by code_simp
  have z: "ps_success zero_stat = 0" by (simp add: zero_stat_def)
  from message_build_parse [OF binary_view_list_view map_order_rev sample_message_wf, of zero_stat] fp z
  show ?thesis by (auto simp: same_content_def)
qed

text \<open>
  C2.  Integrity: a message built with a credential either reports the error of the hash function, or
  its bytes are accepted by the parser and \<open>Message::is_valid\<close>, for any credential, answers whether
  the HMAC under that credential is the one that was written; for the signing credential it answers
  true.
\<close>

theorem signed_message_verifies:
  assumes "binary_view cv" "map_order ord" "header_wf (m_header m)" "set_buildable cv (m_attribute_set m)"
    "sha1_function (id_hash i)"
  shows "case message_build cv ord m (Some i) of
      Inl e \<Rightarrow> \<exists>body. digest_of cv (m_header m) body i = Inl e
    | Inr out \<Rightarrow> \<exists>m' body d.
        message_parse cv out st = (st\<lparr>ps_success := ps_success st + 1\<rparr>, Inr m') \<and>
        m_header m' = m_header m \<and> same_content (m_attribute_set m) (m_attribute_set m') \<and>
        digest_of cv (m_header m) body i = Inr d \<and> message_is_valid cv m' out i = Inr (Some True) \<and>
        (\<forall>j. sha1_function (id_hash j) \<longrightarrow>
           message_is_valid cv m' out j = rmap (\<lambda>d'. Some (d' = d)) (digest_of cv (m_header m) body j))"
  using assms by (intro binary_view.build_parse_signed)

definition sample_credential :: integrity_data where
  "sample_credential =
     \<lparr>id_password = (case short_term list_view [0x73, 0x65, 0x63, 0x72, 0x65, 0x74] sha1_fips of Inr p \<Rightarrow> p | Inl _ \<Rightarrow> \<lparr>pw_ipad = [], pw_opad = []\<rparr>),
      id_hash = sha1_fips\<rparr>"

theorem signed_message_verifies_witness:
  "\<exists>out m'. message_build list_view (\<lambda>m. m) sample_message (Some sample_credential) = Inr out \<and>
    message_parse list_view out zero_stat = (zero_stat\<lparr>ps_success := 1\<rparr>, Inr m') \<and>
    message_is_valid list_view m' out sample_credential = Inr (Some True)"
proof -
  have sha: "sha1_function (id_hash sample_credential)" by (simp add: sample_credential_def fips.sha1_function_axioms)
  have z: "ps_success zero_stat = 0" by (simp add: zero_stat_def)
  have ok: "digest_of list_view h body sample_credential \<noteq> Inl e" for h body e
    by (simp add: digest_of_def sample_credential_def hmac_digest_def sha1_fips_def)
  from signed_message_verifies [OF binary_view_list_view map_order_id sample_message_wf sha, of zero_stat] ok z
  show ?thesis by (auto split: sum.splits)
qed

end
