(* ===== verification/Stun_Parse_Sound.thy ===== *)
theory Stun_Parse_Sound
  imports Stun_Roundtrip
begin

text \<open>
  What an accepted message is, whatever the bytes: the shape of the header, the invariant of the
  container, the place of MESSAGE-INTEGRITY and FINGERPRINT, and the statistics.
\<close>

section \<open>FINGERPRINT occurs at most once\<close>

definition raw_fps :: "raw_attr list \<Rightarrow> raw_attr list" where
  "raw_fps rs = filter (\<lambda>r. ra_type r = FINGERPRINT) rs"

lemma raw_attrs_loop_one_fingerprint:
  assumes "raw_attrs_loop cv vv off [] None None st = (st', Inr (raws', mi', mf'))"
  shows "length (raw_fps raws') \<le> 1"
proof -
  have "\<exists>off'. length (raw_fps raws') \<le> 1 \<and> (raw_fps raws' \<noteq> [] \<longrightarrow> length vv \<le> off') \<and> length vv \<le> off'"
    using raw_attrs_loop_invariant [OF assms, where P = "\<lambda>off rs _ _. length (raw_fps rs) \<le> 1
        \<and> (raw_fps rs \<noteq> [] \<longrightarrow> length vv \<le> off)"]
    by (auto simp: raw_fps_def)
  then show ?thesis by blast
qed

fun result_type :: "parse_result \<Rightarrow> attribute_type" where
  "result_type (Known a) = a_type a"
| "result_type (Unknown u) = ua_type u"

lemma attribute_parse_type:
  assumes "attribute_parse cv vv t st = (st', Inr pr)"
  shows "result_type pr = t"
  using assms attribute_parse_known attribute_parse_unknown by (cases pr) fastforce+

lemma parse_raw_attrs_types:
  assumes "parse_raw_attrs cv rs st = (st', Inr as)"
  shows "map result_type as = map ra_type rs"
  using parse_raw_attrs_all [OF assms]
  by (induction rs as rule: list_all2_induct) (auto dest: attribute_parse_type)

lemma parse_raw_attrs_known:
  assumes "parse_raw_attrs cv rs st = (st', Inr as)" "Known a \<in> set as"
  shows "attribute_wf a"
  using parse_raw_attrs_all [OF assms(1)] assms(2)
  by (induction rs as rule: list_all2_induct) (auto dest: attribute_parse_known)

lemma parse_raw_attrs_unknown:
  assumes "parse_raw_attrs cv rs st = (st', Inr as)" "Unknown u \<in> set as"
  shows "ua_type u \<notin> set known_types"
  using parse_raw_attrs_all [OF assms(1)] assms(2)
  by (induction rs as rule: list_all2_induct) (auto dest: attribute_parse_unknown)

lemma set_unknown_of: "u \<in> set (unknown_of prs) \<longleftrightarrow> Unknown u \<in> set prs"
  by (induction prs) (auto simp: unknown_of_def map_filter_simps split: parse_result.splits)

lemma known_of_lookup: "map_of (known_of prs) t \<noteq> None \<longleftrightarrow> (\<exists>a. Known a \<in> set prs \<and> a_type a = t)"
proof (induction prs)
  case (Cons pr prs)
  then show ?case by (cases pr) auto
qed simp

text \<open>With one FINGERPRINT the value that is checked is the value that is stored.\<close>

lemma collect_one_fingerprint:
  assumes "length (filter (\<lambda>pr. result_type pr = FINGERPRINT) prs) + (if fp = None then 0 else 1) \<le> 1"
    and "\<forall>a. Known a \<in> set prs \<longrightarrow> attribute_wf a"
    and "map_of (as_map s) FINGERPRINT = map_option (\<lambda>c. attribute_create (FingerprintAttribute c)) fp"
  shows "map_of (as_map (fst (fold collect_attr prs (s, fp)))) FINGERPRINT =
    map_option (\<lambda>c. attribute_create (FingerprintAttribute c)) (snd (fold collect_attr prs (s, fp)))"
  using assms
proof (induction prs arbitrary: s fp)
  case (Cons pr prs)
  show ?case
  proof (cases pr)
    case (Unknown u)
    then show ?thesis using Cons by (simp split: if_splits)
  next
    case (Known a)
    then have wf: "attribute_wf a" using Cons.prems by simp
    show ?thesis
    proof (cases "a_type a = FINGERPRINT")
      case True
      then obtain c where a: "a = attribute_create (FingerprintAttribute c)"
        using wf by (cases a; cases "a_value a") (simp_all add: attribute_wf_def attribute_create_def)
      have "fp = None" using Cons.prems(1) Known True by (simp split: if_splits)
      then show ?thesis using Cons Known a
        by (simp add: map_of_emplace attribute_create_def)
    next
      case False
      then have "as_fingerprint (a_value a) = None"
        using wf as_fingerprint_type [of "a_value a"] by (metis attribute_wf_def)
      then show ?thesis using Cons Known False by (simp add: map_of_emplace)
    qed
  qed
qed simp

section \<open>Properties\<close>

lemma case_success: "(case x of (s, Inr r) \<Rightarrow> P s r | (s, Inl e) \<Rightarrow> False) \<Longrightarrow> \<exists>s r. x = (s, Inr r) \<and> P s r"
  by (auto split: prod.splits sum.splits)

text \<open>What \<open>Message::parse\<close> guarantees of a message that it returns for the bytes \<open>vv\<close>.\<close>

definition accepted :: "bytes \<Rightarrow> message \<Rightarrow> bool" where
  "accepted vv m \<longleftrightarrow>
     STUN_HEADER_SIZE \<le> length vv \<and> length vv mod 4 = 0 \<and> attrs_wf (m_attribute_set m) \<and>
     (\<forall>u \<in> set (as_unknown (m_attribute_set m)). ua_type u \<notin> set known_types) \<and>
     length (h_transaction_id (m_header m)) =
       (if m_is_rfc3489 m then TRANSACTION_ID_SIZE_RFC3489 else TRANSACTION_ID_SIZE) \<and>
     (m_is_rfc3489 m \<longrightarrow> h_cls (m_header m) = REQUEST) \<and>
     interval_ok vv (m_integrity_interval m) \<and>
     (m_integrity_interval m \<noteq> None \<longleftrightarrow> get_integrity (m_attribute_set m) \<noteq> None) \<and>
     (\<forall>a. map_of (as_map (m_attribute_set m)) FINGERPRINT = Some a \<longrightarrow>
        (\<exists>n. STUN_HEADER_SIZE \<le> n \<and> n < length vv \<and> as_fingerprint (a_value a) = Some (crc32 (take n vv))))"

lemma parse_attrs_Inr:
  assumes "parse_attrs cv vv off st = (st', Inr r)"
  obtains raws st1 where "raw_attrs_loop cv vv off [] None None st = (st1, Inr (raws, pa_integrity r, pa_fingerprint r))"
    "parse_raw_attrs cv raws st1 = (st', Inr (pa_attrs r))"
  using assms by (auto simp: parse_attrs_def split: prod.splits sum.splits)

lemma parse_attrs_collected:
  assumes "binary_view cv" "parse_attrs cv vv STUN_HEADER_SIZE st = (st', Inr r)"
    and f: "fold collect_attr (pa_attrs r) (empty_set, None) = (s, fp)"
  shows "attrs_wf s" "\<forall>u \<in> set (as_unknown s). ua_type u \<notin> set known_types"
    "interval_ok vv (pa_integrity r)" "interval_ok vv (pa_fingerprint r)"
    "pa_integrity r \<noteq> None \<longleftrightarrow> get_integrity s \<noteq> None"
    "map_of (as_map s) FINGERPRINT = map_option (\<lambda>c. attribute_create (FingerprintAttribute c)) fp"
proof -
  obtain raws st1 where loop: "raw_attrs_loop cv vv STUN_HEADER_SIZE [] None None st = (st1, Inr (raws, pa_integrity r, pa_fingerprint r))"
    and raw: "parse_raw_attrs cv raws st1 = (st', Inr (pa_attrs r))"
    by (rule parse_attrs_Inr [OF assms(2)])
  note types = parse_raw_attrs_types [OF raw]
  have known: "\<forall>a. Known a \<in> set (pa_attrs r) \<longrightarrow> attribute_wf a" using parse_raw_attrs_known [OF raw] by blast
  show "attrs_wf s" using fold_collect_wf [OF known attrs_wf_empty, of None] f by simp
  show "\<forall>u \<in> set (as_unknown s). ua_type u \<notin> set known_types"
    using collect_unknown [of "pa_attrs r" empty_set None] f parse_raw_attrs_unknown [OF raw]
    by (simp add: empty_set_def set_unknown_of)
  show "interval_ok vv (pa_integrity r)" "interval_ok vv (pa_fingerprint r)"
    using raw_attrs_loop_intervals [OF loop] by simp_all
  have mi: "(\<exists>x \<in> set raws. ra_type x = MESSAGE_INTEGRITY) \<longleftrightarrow> MESSAGE_INTEGRITY \<in> set (map result_type (pa_attrs r))"
    unfolding types by auto
  also have "\<dots> \<longleftrightarrow> (\<exists>a. Known a \<in> set (pa_attrs r) \<and> a_type a = MESSAGE_INTEGRITY)"
  proof
    assume "MESSAGE_INTEGRITY \<in> set (map result_type (pa_attrs r))"
    then obtain pr where pr: "pr \<in> set (pa_attrs r)" "result_type pr = MESSAGE_INTEGRITY" by auto
    then show "\<exists>a. Known a \<in> set (pa_attrs r) \<and> a_type a = MESSAGE_INTEGRITY"
      using parse_raw_attrs_unknown [OF raw] known_type_of [of "MessageIntegityAttribute []"]
      by (metis attr_type_of.simps(5) result_type.elims)
  next
    assume "\<exists>a. Known a \<in> set (pa_attrs r) \<and> a_type a = MESSAGE_INTEGRITY"
    then show "MESSAGE_INTEGRITY \<in> set (map result_type (pa_attrs r))" by (metis image_eqI result_type.simps(1) set_map)
  qed
  also have "\<dots> \<longleftrightarrow> map_of (as_map s) MESSAGE_INTEGRITY \<noteq> None"
    using collect_lookup [of "pa_attrs r" empty_set None] f known_of_lookup by (simp add: empty_set_def)
  finally show "pa_integrity r \<noteq> None \<longleftrightarrow> get_integrity s \<noteq> None"
    using raw_attrs_loop_after_integrity [OF loop] by (simp add: get_integrity_def access_def)
  have "length (filter (\<lambda>pr. result_type pr = FINGERPRINT) (pa_attrs r)) = length (filter (\<lambda>t. t = FINGERPRINT) (map result_type (pa_attrs r)))"
    by (simp add: filter_map o_def)
  also have "\<dots> \<le> 1"
    unfolding types using raw_attrs_loop_one_fingerprint [OF loop] by (simp add: raw_fps_def filter_map o_def)
  finally show "map_of (as_map s) FINGERPRINT = map_option (\<lambda>c. attribute_create (FingerprintAttribute c)) fp"
    using collect_one_fingerprint [of "pa_attrs r" None empty_set] known f by (simp add: empty_set_def)
qed

lemma and_3_mod4: "(w :: u16) AND 0x3 = 0 \<Longrightarrow> unat w mod 4 = 0"
proof -
  have "(3 :: u16) = mask 2" by (simp add: mask_eq_exp_minus_1)
  moreover have "unat (take_bit 2 w) = unat w mod 4" 
    by (simp only: unsigned_take_bit_eq) (simp add: take_bit_eq_mod)
  ultimately show "w AND 0x3 = 0 \<Longrightarrow> unat w mod 4 = 0" by (metis take_bit_eq_mask unsigned_0)
qed

lemma fingerprint_covered:
  assumes "binary_view cv" "fingerprint_is_valid cv vv (Some c) mf" "interval_ok vv mf"
  shows "\<exists>n. STUN_HEADER_SIZE \<le> n \<and> n < length vv \<and> c = crc32 (take n vv)"
  using assms binary_view.subview_eq [OF assms(1)]
  by (cases mf) (auto simp: fingerprint_is_valid_def interval_ok_def slice_def split: if_splits option.splits)

lemma message_parse_accepted:
  assumes cv: "binary_view cv" and p: "message_parse cv vv st = (st', Inr m)"
  shows "accepted vv m"
proof -
  obtain st1 x where pa: "parse_attrs cv vv STUN_HEADER_SIZE st = (st1, x)" by force
  obtain r where r: "x = Inr r" using p pa by (cases x) (auto simp: message_parse_def Let_def split: if_splits)
  obtain s fp where f: "fold collect_attr (pa_attrs r) (empty_set, None) = (s, fp)" by force
  let ?len = "assured_read_u16be cv vv 2"
  have guards: "STUN_HEADER_SIZE \<le> length vv" "?len AND 0x3 = 0" "unat ?len = length vv - STUN_HEADER_SIZE"
    "fingerprint_is_valid cv vv fp (pa_fingerprint r)"
    and m: "m_attribute_set m = s" "m_integrity_interval m = pa_integrity r"
      "m_is_rfc3489 m \<longrightarrow> h_cls (m_header m) = REQUEST"
      "h_transaction_id (m_header m) = (if \<not> m_is_rfc3489 m then assured_subview cv vv 8 TRANSACTION_ID_SIZE
                         else assured_subview cv vv 4 TRANSACTION_ID_SIZE_RFC3489)"
    using p pa r f by (auto simp: message_parse_def Let_def split: if_splits)
  note c = parse_attrs_collected [OF cv pa [unfolded r] f]
  have mod4: "length vv mod 4 = 0"
    using and_3_mod4 [OF guards(2)] guards(1,3) by (simp add: mod_eq_0_iff_dvd dvd_diff_nat) presburger
  have tid: "length (h_transaction_id (m_header m)) =
      (if m_is_rfc3489 m then TRANSACTION_ID_SIZE_RFC3489 else TRANSACTION_ID_SIZE)"
    using m(4) guards(1) binary_view.assured_subview_eq [OF cv] by simp
  have "\<exists>n. STUN_HEADER_SIZE \<le> n \<and> n < length vv \<and> as_fingerprint (a_value a) = Some (crc32 (take n vv))"
    if "map_of (as_map s) FINGERPRINT = Some a" for a
    using that c(4,6) guards(4) fingerprint_covered [OF cv] by (cases fp) (auto simp: attribute_create_def)
  then show ?thesis using guards(1) mod4 tid c m by (simp add: accepted_def)
qed

abbreviation sample_head :: "u8 \<Rightarrow> bytes" where
  "sample_head n \<equiv> [0, 1, 0, n, 0x21, 0x12, 0xA4, 0x42, 1, 2, 3, 4, 5, 6, 7, 8, 9, 10, 11, 12]"

definition sample_mi :: "u8 \<Rightarrow> bytes" where
  "sample_mi x = [0, 8, 0, 20] @ replicate 20 x"

text \<open>
  C27.  Behind the first MESSAGE-INTEGRITY the parser keeps only MESSAGE-INTEGRITY and FINGERPRINT: no
  attribute that an attacker appends after the digest reaches the attribute container.
\<close>

theorem attributes_after_integrity_ignored:
  assumes "parse_attrs cv vv off st = (st', Inr r)"
    and "i < j" "j < length (pa_attrs r)" "result_type (pa_attrs r ! i) = MESSAGE_INTEGRITY"
  shows "result_type (pa_attrs r ! j) \<in> {MESSAGE_INTEGRITY, FINGERPRINT}"
proof -
  obtain raws st1 where "raw_attrs_loop cv vv off [] None None st = (st1, Inr (raws, pa_integrity r, pa_fingerprint r))"
    and raw: "parse_raw_attrs cv raws st1 = (st', Inr (pa_attrs r))"
    by (rule parse_attrs_Inr [OF assms(1)])
  then have ok: "after_integrity_ok raws" using raw_attrs_loop_after_integrity by blast
  have len: "length raws = length (pa_attrs r)" using parse_raw_attrs_types [OF raw] by (metis length_map)
  have "ra_type (raws ! k) = result_type (pa_attrs r ! k)" if "k < length (pa_attrs r)" for k
    using parse_raw_attrs_types [OF raw] len that by (metis nth_map)
  from this [of i] this [of j] show ?thesis
    using ok [unfolded after_integrity_ok_def, rule_format, of i j] assms(2-4) len by simp
qed

theorem attributes_after_integrity_ignored_witness:
  "\<exists>r. parse_attrs list_view (sample_mi 5 @ [0x80, 0x22, 0, 4, 1, 2, 3, 4] @ sample_mi 6) 0 zero_stat = (zero_stat, Inr r)
     \<and> length (pa_attrs r) = 2 \<and> result_type (pa_attrs r ! 1) \<in> {MESSAGE_INTEGRITY, FINGERPRINT}"
proof -
  let ?v = "sample_mi 5 @ [0x80, 0x22, 0, 4, 1, 2, 3, 4] @ sample_mi 6"
  have "case parse_attrs list_view ?v 0 zero_stat of
      (st', Inr r) \<Rightarrow> st' = zero_stat \<and> length (pa_attrs r) = 2 \<and> result_type (pa_attrs r ! 0) = MESSAGE_INTEGRITY | _ \<Rightarrow> False"
    by code_simp
  then obtain r where r: "parse_attrs list_view ?v 0 zero_stat = (zero_stat, Inr r)" "length (pa_attrs r) = 2"
    "result_type (pa_attrs r ! 0) = MESSAGE_INTEGRITY"
    by (elim case_success [THEN exE] exE conjE) simp
  from attributes_after_integrity_ignored [OF r(1), of 0 1] r show ?thesis by auto
qed

text \<open>
  A second MESSAGE-INTEGRITY moves the covered interval behind the first one while the container
  keeps the first digest, so \<open>Message::is_valid\<close> compares the first digest with the HMAC of bytes that
  include it: 44 covered bytes, and the digest of the attribute at offset 20.
\<close>

theorem second_integrity_moves_interval:
  "case message_parse list_view (sample_head 48 @ sample_mi 5 @ sample_mi 6) zero_stat of
     (_, Inr m) \<Rightarrow> m_integrity_interval m = Some \<lparr>i_offset = 0, i_count = 44\<rparr>
                 \<and> get_integrity (m_attribute_set m) = Some (replicate 20 5)
   | _ \<Rightarrow> False"
  by code_simp

end
