(* ===== verification/Stun_Parse_Spec.thy ===== *)
theory Stun_Parse_Spec
  imports Stun_Parse_Sound
begin

text \<open>
  The message format of RFC 5389 6 and 15 as a specification over the bytes, with offsets: the division of
  a message into its attributes, which of them count, and what the parsed message says of them.  The
  parser of \<open>Stun_Message\<close> is shown to read messages as the specification does.
\<close>

section \<open>The division of a message\<close>

text \<open>An attribute in a message: its offset, its type and its value.\<close>

type_synonym attr_at = "nat \<times> u16 \<times> bytes"

fun attrs_between :: "bytes \<Rightarrow> nat \<Rightarrow> attr_at list \<Rightarrow> nat \<Rightarrow> bool" where
  "attrs_between vv off [] end \<longleftrightarrow> off = end"
| "attrs_between vv off ((o', t, v) # as) end \<longleftrightarrow>
     o' = off \<and> off + 4 + length v \<le> length vv \<and> be_decode (slice vv off 2) = t \<and>
     unat (be_decode (slice vv (off + 2) 2) :: u16) = length v \<and> slice vv (off + 4) (length v) = v \<and>
     attrs_between vv (off + 4 + 4 * ((length v + 3) div 4)) as end"

text \<open>RFC 5389 15.4: behind MESSAGE-INTEGRITY everything is ignored; the code also keeps further ones.\<close>

fun counted :: "attr_at list \<Rightarrow> attr_at list" where
  "counted [] = []"
| "counted ((o', t, v) # as) =
     (o', t, v) # (if t = MESSAGE_INTEGRITY then filter (\<lambda>(_, t', _). t' \<in> {MESSAGE_INTEGRITY, FINGERPRINT}) as
                   else counted as)"

definition of_type :: "u16 \<Rightarrow> attr_at list \<Rightarrow> attr_at list" where
  "of_type t as = filter (\<lambda>(_, t', _). t' = t) as"

definition before_last :: "u16 \<Rightarrow> attr_at list \<Rightarrow> interval option" where
  \<comment> \<open>the bytes of the message before its last attribute of a type\<close>
  "before_last t as =
     (if of_type t as = [] then None else Some \<lparr>i_offset = 0, i_count = fst (last (of_type t as))\<rparr>)"

definition value_read :: "craftpp \<Rightarrow> u16 \<Rightarrow> bytes \<Rightarrow> attribute \<Rightarrow> bool" where
  "value_read cv t v a \<longleftrightarrow> (\<exists>st. attribute_parse cv v t st = (st, Inr (Known a)))"

definition header_read :: "bytes \<Rightarrow> message \<Rightarrow> bool" where
  "header_read vv m \<longleftrightarrow>
     20 \<le> length vv \<and> length vv mod 4 = 0 \<and> unat (be_decode (slice vv 2 2) :: u16) = length vv - 20 \<and>
     h_cls (m_header m) = class_from_msg_type (be_decode (slice vv 0 2)) \<and>
     h_method (m_header m) = method_from_msg_type (be_decode (slice vv 0 2)) \<and>
     (m_is_rfc3489 m \<longleftrightarrow> be_decode (slice vv 4 4) \<noteq> MAGIC_COOKIE) \<and>
     (m_is_rfc3489 m \<longrightarrow> h_cls (m_header m) = REQUEST) \<and>
     h_transaction_id (m_header m) = (if m_is_rfc3489 m then slice vv 4 16 else slice vv 8 12)"

definition attrs_read :: "craftpp \<Rightarrow> bytes \<Rightarrow> attr_at list \<Rightarrow> message \<Rightarrow> bool" where
  "attrs_read cv vv as m \<longleftrightarrow>
     m_integrity_interval m = before_last MESSAGE_INTEGRITY as \<and>
     (\<forall>t. case of_type t (counted as) of
            [] \<Rightarrow> map_of (as_map (m_attribute_set m)) t = None
          | (_, _, v) # _ \<Rightarrow>
              (if t \<in> set known_types
               then \<exists>a. map_of (as_map (m_attribute_set m)) t = Some a \<and> value_read cv t v a
               else map_of (as_map (m_attribute_set m)) t = None)) \<and>
     as_unknown (m_attribute_set m) =
       map (\<lambda>(_, t, v). \<lparr>ua_type = t, ua_data = v\<rparr>) (filter (\<lambda>(_, t, _). t \<notin> set known_types) (counted as)) \<and>
     (\<forall>(o', t, v) \<in> set as. t = FINGERPRINT \<longrightarrow>
        (o', t, v) = last as \<and> be_decode (slice v 0 4) = crc32 (take o' vv) XOR FINGERPRINT_XOR)"

definition message_reads :: "craftpp \<Rightarrow> bytes \<Rightarrow> message \<Rightarrow> bool" where
  "message_reads cv vv m \<longleftrightarrow>
     header_read vv m \<and> (\<exists>as. attrs_between vv 20 as (length vv) \<and> attrs_read cv vv as m)"

text \<open>A plain-address attribute too short to hold an address: its failure is not counted.\<close>

definition short_plain_address :: "bytes \<Rightarrow> bool" where
  "short_plain_address vv \<longleftrightarrow>
     (\<exists>as. attrs_between vv 20 as (length vv) \<and>
        (\<exists>(_, t, v) \<in> set (counted as). t \<in> {MAPPED_ADDRESS, ALTERNATE_SERVER} \<and> length v \<le> 4))"

section \<open>The loop divides the message\<close>

lemma of_type_simps [simp]:
  "of_type t [] = []" "of_type t (as @ bs) = of_type t as @ of_type t bs"
  "of_type t ((o', t', v) # as) = (if t' = t then (o', t', v) # of_type t as else of_type t as)"
  by (simp_all add: of_type_def)

lemma attrs_between_snoc:
  "attrs_between vv off (as @ [(o', t, v)]) end \<longleftrightarrow>
     attrs_between vv off as o' \<and> attrs_between vv o' [(o', t, v)] end"
  by (induction vv off as o' rule: attrs_between.induct) auto

lemma counted_snoc:
  "counted (as @ [(o', t, v)]) =
     (if of_type MESSAGE_INTEGRITY as \<noteq> [] \<and> t \<notin> {MESSAGE_INTEGRITY, FINGERPRINT} then counted as
      else counted as @ [(o', t, v)])"
  by (induction as rule: counted.induct) auto

lemma before_last_snoc [simp]:
  "before_last t (as @ [(o', t', v)]) = (if t' = t then Some \<lparr>i_offset = 0, i_count = o'\<rparr> else before_last t as)"
  by (simp add: before_last_def)

fun raw_of_at :: "attr_at \<Rightarrow> raw_attr" where
  "raw_of_at (o', t, v) = \<lparr>ra_type = t, ra_length = of_nat (length v), ra_value = v\<rparr>"

lemma raw_attr_parse_at:
  assumes "binary_view cv" "raw_attr_parse cv vv off = Inr r"
  shows "attrs_between vv off [(off, ra_type r, ra_value r)] (off + aligned_length r)"
    "raw_of_at (off, ra_type r, ra_value r) = r"
proof -
  have r: "off + 4 + unat (ra_length r) \<le> length vv" "ra_type r = be_decode (slice vv off 2)"
    "ra_length r = be_decode (slice vv (off + 2) 2)" "ra_value r = slice vv (off + 4) (unat (ra_length r))"
    using assms(2) binary_view.read_u16be_eq [OF assms(1)] binary_view.subview_eq [OF assms(1)]
    by (auto simp: raw_attr_parse_def combine3_eq_Inr Let_def interval_in_def require_def split: if_splits option.splits)
  have "length (ra_value r) = unat (ra_length r)" using r(1,4) by (simp add: slice_def)
  moreover have "aligned_length r = 4 + 4 * ((unat (ra_length r) + 3) div 4)"
    by (simp add: aligned_length_def Let_def) presburger
  ultimately show "attrs_between vv off [(off, ra_type r, ra_value r)] (off + aligned_length r)"
    "raw_of_at (off, ra_type r, ra_value r) = r"
    using r by (simp_all flip: r(2,3))
qed

lemma loop_divides:
  assumes cv: "binary_view cv" and "length vv mod 4 = 0" "20 \<le> length vv"
    and loop: "raw_attrs_loop cv vv STUN_HEADER_SIZE [] None None st = (st', Inr (raws, mi, mf))"
  shows "\<exists>as. attrs_between vv 20 as (length vv) \<and> raws = map raw_of_at (counted as) \<and>
    mi = before_last MESSAGE_INTEGRITY as \<and> mf = before_last FINGERPRINT as \<and>
    (\<forall>x \<in> set (butlast as). fst (snd x) \<noteq> FINGERPRINT)"
proof -
  let ?P = "\<lambda>off raws mi mf. off mod 4 = 0 \<and> off \<le> length vv \<and> (\<exists>as. attrs_between vv 20 as off \<and>
    raws = map raw_of_at (counted as) \<and> mi = before_last MESSAGE_INTEGRITY as \<and> mf = before_last FINGERPRINT as \<and>
    (\<forall>x \<in> set (butlast as). fst (snd x) \<noteq> FINGERPRINT) \<and> (of_type FINGERPRINT as \<noteq> [] \<longrightarrow> off = length vv))"
  have step: "\<exists>as'. as' = as @ [(off, ra_type r, ra_value r)] \<and> attrs_between vv 20 as' (off + aligned_length r) \<and>
      (off + aligned_length r) mod 4 = 0 \<and> off + aligned_length r \<le> length vv \<and>
      (\<forall>x \<in> set (butlast as'). fst (snd x) \<noteq> FINGERPRINT) \<and> raw_of_at (off, ra_type r, ra_value r) = r"
    if "off mod 4 = 0" "off < length vv" "attrs_between vv 20 as off" "raw_attr_parse cv vv off = Inr r"
      "of_type FINGERPRINT as \<noteq> [] \<longrightarrow> off = length vv" for off as r
  proof -
    note at = raw_attr_parse_at [OF cv that(4)]
    let ?l = "length (ra_value r)"
    have e: "off + aligned_length r = off + 4 + 4 * ((?l + 3) div 4)" "off + 4 + ?l \<le> length vv"
      using at(1) by simp_all
    have "(off + aligned_length r) mod 4 = 0" "off + aligned_length r \<le> length vv"
      unfolding e(1) using that(1) e(2) assms(2) by presburger+
    moreover have "\<forall>x \<in> set as. fst (snd x) \<noteq> FINGERPRINT"
      using that(2,5) by (auto simp: of_type_def filter_empty_conv)
    ultimately show ?thesis using at that(3) by (auto simp: attrs_between_snoc)
  qed
  have "\<exists>off'. ?P off' raws mi mf \<and> length vv \<le> off'"
  proof (rule raw_attrs_loop_invariant [OF loop, where P = ?P], goal_cases)
    case 1
    then show ?case using assms(3) by (auto simp: before_last_def intro!: exI [of _ "[]"])
  next
    case (2 off raws mi mf r)
    then obtain as where "attrs_between vv 20 as off" "raws = map raw_of_at (counted as)"
      "mi = before_last MESSAGE_INTEGRITY as" "off mod 4 = 0" "of_type FINGERPRINT as \<noteq> [] \<longrightarrow> off = length vv" by auto
    then show ?case using 2 step [of off as r] by (auto simp: counted_snoc intro!: exI [of _ "as @ [(off, ra_type r, ra_value r)]"])
  next
    case (3 off raws mi mf r)
    then obtain as where "attrs_between vv 20 as off" "raws = map raw_of_at (counted as)"
      "mf = before_last FINGERPRINT as" "off mod 4 = 0" "of_type FINGERPRINT as \<noteq> [] \<longrightarrow> off = length vv" by auto
    then show ?case using 3 step [of off as r] by (auto simp: counted_snoc intro!: exI [of _ "as @ [(off, ra_type r, ra_value r)]"])
  next
    case (4 off raws mf r)
    then obtain as where as: "attrs_between vv 20 as off" "raws = map raw_of_at (counted as)"
      "mf = before_last FINGERPRINT as" "before_last MESSAGE_INTEGRITY as = None" "off mod 4 = 0"
      "of_type FINGERPRINT as \<noteq> [] \<longrightarrow> off = length vv" by auto
    then have "of_type MESSAGE_INTEGRITY as = []" by (simp add: before_last_def split: if_splits)
    then show ?case using as 4 step [of off as r] by (auto simp: counted_snoc intro!: exI [of _ "as @ [(off, ra_type r, ra_value r)]"])
  next
    case (5 off raws iv mf r)
    then obtain as where as: "attrs_between vv 20 as off" "raws = map raw_of_at (counted as)"
      "mf = before_last FINGERPRINT as" "before_last MESSAGE_INTEGRITY as = Some iv" "off mod 4 = 0"
      "of_type FINGERPRINT as \<noteq> [] \<longrightarrow> off = length vv" by auto
    then have "of_type MESSAGE_INTEGRITY as \<noteq> []" by (simp add: before_last_def split: if_splits)
    then show ?case using as 5 step [of off as r] by (auto simp: counted_snoc intro!: exI [of _ "as @ [(off, ra_type r, ra_value r)]"])
  qed
  then show ?thesis
  proof (elim exE conjE)
    fix off' as
    assume "off' \<le> length vv" "length vv \<le> off'" and at: "attrs_between vv 20 as off'"
      and rest: "raws = map raw_of_at (counted as)" "mi = before_last MESSAGE_INTEGRITY as" "mf = before_last FINGERPRINT as"
        "\<forall>x \<in> set (butlast as). fst (snd x) \<noteq> FINGERPRINT"
    then have "off' = length vv" by simp
    with at rest show ?thesis by (intro exI [of _ as] conjI) simp_all
  qed
qed

section \<open>The attributes that count\<close>

lemma attribute_parse_unchanged:
  assumes "binary_view cv" "attribute_parse cv v t st = (st', Inr pr)"
  shows "st' = st"
  using binary_view.parser_ok_attribute [OF assms(1), of st v t] assms(2) by simp

lemma parsed_values:
  assumes "binary_view cv" "parse_raw_attrs cv (map raw_of_at as) st = (st', Inr prs)"
  shows "list_all2 (\<lambda>(_, t, v) pr. \<exists>s. attribute_parse cv v t s = (s, Inr pr)) as prs"
proof -
  have "list_all2 (\<lambda>r a. \<exists>s s'. attribute_parse cv (ra_value r) (ra_type r) s = (s', Inr a)) (map raw_of_at as) prs"
    by (rule parse_raw_attrs_all [OF assms(2)])
  then show ?thesis unfolding list_all2_map1
    by (rule list_all2_mono) (auto, metis attribute_parse_unchanged [OF assms(1)])
qed

lemma known_lookup:
  assumes "list_all2 (\<lambda>(_, t, v) pr. \<exists>s. attribute_parse cv v t s = (s, Inr pr)) as prs"
  shows "case of_type t as of
      [] \<Rightarrow> map_of (known_of prs) t = None
    | (_, _, v) # _ \<Rightarrow>
        (if t \<in> set known_types then \<exists>a. map_of (known_of prs) t = Some a \<and> value_read cv t v a
         else map_of (known_of prs) t = None)"
  using assms
proof (induction as prs rule: list_all2_induct)
  case (Cons x as pr prs)
  obtain o' t' v s where x: "x = (o', t', v)" "attribute_parse cv v t' s = (s, Inr pr)" using Cons(1) by (cases x) auto
  show ?case
  proof (cases pr)
    case (Known a)
    have a: "a_type a = t'" "t' \<in> set known_types"
      using attribute_parse_known x(2) Known attribute_parse_unknown_type [of t' cv v s] by fastforce+
    then show ?thesis using Cons(3) x Known by (auto simp: value_read_def split: list.splits)
  next
    case (Unknown u)
    then have "t' \<notin> set known_types" using attribute_parse_unknown x(2) by blast
    then show ?thesis using Cons(3) x Unknown by (auto split: list.splits)
  qed
qed simp

lemma unknown_collected:
  assumes "list_all2 (\<lambda>(_, t, v) pr. \<exists>s. attribute_parse cv v t s = (s, Inr pr)) as prs"
  shows "unknown_of prs = map (\<lambda>(_, t, v). \<lparr>ua_type = t, ua_data = v\<rparr>) (filter (\<lambda>(_, t, _). t \<notin> set known_types) as)"
  using assms
proof (induction as prs rule: list_all2_induct)
  case (Cons x as pr prs)
  obtain o' t' v s where x: "x = (o', t', v)" "attribute_parse cv v t' s = (s, Inr pr)" using Cons(1) by (cases x) auto
  show ?case
  proof (cases pr)
    case (Known a)
    then have "t' \<in> set known_types" using x(2) attribute_parse_unknown_type [of t' cv v s] by fastforce
    then show ?thesis using Cons(3) x Known by simp
  next
    case (Unknown u)
    then show ?thesis using Cons(3) x attribute_parse_unknown [of cv v t' s s u] by simp
  qed
qed simp

lemma counted_fingerprint: "of_type FINGERPRINT (counted as) = of_type FINGERPRINT as"
  by (induction as rule: counted.induct) (auto simp: of_type_def intro!: filter_cong)

lemma only_fingerprint:
  assumes "\<forall>x \<in> set (butlast as). fst (snd x) \<noteq> FINGERPRINT" "(o', FINGERPRINT, v) \<in> set as"
  shows "last as = (o', FINGERPRINT, v) \<and> of_type FINGERPRINT as = [(o', FINGERPRINT, v)]"
proof -
  have ne: "as \<noteq> []" using assms(2) by auto
  then have as: "as = butlast as @ [last as]" by simp
  then have "(o', FINGERPRINT, v) = last as" using assms by (metis fst_conv rotate1.simps(2) set_ConsD set_rotate1 snd_conv)
  moreover have "of_type FINGERPRINT (butlast as) = []" using assms(1) by (auto simp: of_type_def filter_empty_conv)
  ultimately show ?thesis using as by (metis append_Nil of_type_simps(1,2,3))
qed

lemma fingerprint_value_read:
  assumes "binary_view cv" "value_read cv FINGERPRINT v a"
  shows "a = attribute_create (FingerprintAttribute (be_decode (slice v 0 4) XOR FINGERPRINT_XOR))"
  using assms(2) binary_view.read_u32be_eq [OF assms(1)]
  by (auto simp: value_read_def attribute_parse_def create_attr_Inr fingerprint_parse_def attribute_create_def
      split: option.splits if_splits)

lemma known_fingerprint: "FINGERPRINT \<in> set known_types"
  by (simp add: known_types_def)

lemma message_parse_by_format:
  assumes cv: "binary_view cv" and p: "message_parse cv vv st = (st', Inr m)"
  shows "message_reads cv vv m"
proof -
  obtain st1 x where pa: "parse_attrs cv vv STUN_HEADER_SIZE st = (st1, x)" by force
  obtain r where r: "x = Inr r" using p pa by (cases x) (auto simp: message_parse_def Let_def split: if_splits)
  obtain s fp where f: "fold collect_attr (pa_attrs r) (empty_set, None) = (s, fp)" by force
  have len: "STUN_HEADER_SIZE \<le> length vv" using p by (auto simp: message_parse_def split: if_splits)
  note reads = binary_view.assured_read_u16be_eq [OF cv] binary_view.assured_read_u32be_eq [OF cv]
    binary_view.assured_subview_eq [OF cv]
  have h: "header_read vv m" "m_attribute_set m = s" "m_integrity_interval m = pa_integrity r"
    "fingerprint_is_valid cv vv fp (pa_fingerprint r)" "length vv mod 4 = 0"
    using p pa r f len message_parse_accepted [OF cv p]
    by (auto simp: message_parse_def Let_def reads header_read_def accepted_def split: if_splits)
  obtain raws st2 where loop: "raw_attrs_loop cv vv STUN_HEADER_SIZE [] None None st = (st2, Inr (raws, pa_integrity r, pa_fingerprint r))"
    and raw: "parse_raw_attrs cv raws st2 = (st1, Inr (pa_attrs r))"
    by (rule parse_attrs_Inr [OF pa [unfolded r]])
  obtain as where as: "attrs_between vv 20 as (length vv)" "raws = map raw_of_at (counted as)"
    "pa_integrity r = before_last MESSAGE_INTEGRITY as" "pa_fingerprint r = before_last FINGERPRINT as"
    "\<forall>x \<in> set (butlast as). fst (snd x) \<noteq> FINGERPRINT"
    using loop_divides [OF cv h(5) len loop] by auto
  note vals = parsed_values [OF cv raw [unfolded as(2)]]
  have set: "map_of (as_map s) = map_of (known_of (pa_attrs r))" "as_unknown s = unknown_of (pa_attrs r)"
    using collect_lookup [of "pa_attrs r" empty_set None] collect_unknown [of "pa_attrs r" empty_set None] f
    by (simp_all add: empty_set_def)
  have fpr: "(o', t, v) = last as \<and> be_decode (slice v 0 4) = crc32 (take o' vv) XOR FINGERPRINT_XOR"
    if m: "(o', t, v) \<in> set as" and t: "t = FINGERPRINT" for o' t v
  proof -
    have only: "last as = (o', FINGERPRINT, v)" "of_type FINGERPRINT as = [(o', FINGERPRINT, v)]"
      using only_fingerprint [OF as(5)] m t by auto
    obtain a where a: "map_of (as_map s) FINGERPRINT = Some a" "value_read cv FINGERPRINT v a"
      using known_lookup [OF vals, of FINGERPRINT] known_fingerprint
      by (auto simp: counted_fingerprint only(2) set(1))
    have "fp = Some (be_decode (slice v 0 4) XOR FINGERPRINT_XOR)"
      using a(1) parse_attrs_collected(6) [OF cv pa [unfolded r] f] fingerprint_value_read [OF cv a(2)]
      by (auto simp: attribute_create_def)
    moreover have "pa_fingerprint r = Some \<lparr>i_offset = 0, i_count = o'\<rparr>" by (simp add: as(4) before_last_def only(2))
    ultimately have "crc32 (take o' vv) = be_decode (slice v 0 4) XOR FINGERPRINT_XOR"
      using h(4) binary_view.subview_eq [OF cv]
      by (auto simp: fingerprint_is_valid_def slice_def split: if_splits)
    then show ?thesis using only(1) t by (simp add: ac_simps)
  qed
  have "attrs_read cv vv as m"
    unfolding attrs_read_def h(2,3) set as(3)
    using known_lookup [OF vals] unknown_collected [OF vals] fpr by blast
  with h(1) as(1) show ?thesis unfolding message_reads_def by blast
qed

section \<open>Failures\<close>

lemma simple_parsers_count:
  "software_parse vv st = (st', Inl e) \<Longrightarrow> stat_failed st st'"
  "username_parse vv st = (st', Inl e) \<Longrightarrow> stat_failed st st'"
  "message_integrity_parse vv st = (st', Inl e) \<Longrightarrow> stat_failed st st'"
  "fingerprint_parse cv vv st = (st', Inl e) \<Longrightarrow> stat_failed st st'"
  "priority_parse cv vv st = (st', Inl e) \<Longrightarrow> stat_failed st st'"
  "ice_controlling_parse cv vv st = (st', Inl e) \<Longrightarrow> stat_failed st st'"
  "ice_controlled_parse cv vv st = (st', Inl e) \<Longrightarrow> stat_failed st st'"
  "use_candidate_parse vv st = (st', Inl e) \<Longrightarrow> stat_failed st st'"
  "unknown_attributes_parse cv vv st = (st', Inl e) \<Longrightarrow> stat_failed st st'"
  "error_code_parse cv vv st = (st', Inl e) \<Longrightarrow> stat_failed st st'"
  by (auto simp: attr_parser_defs Let_def stat_failed_def inc_def split: option.splits sum.splits if_splits)

lemma xor_mapped_counts: "xor_mapped_address_parse cv vv st = (st', Inl e) \<Longrightarrow> stat_failed st st'"
  by (auto simp: xor_mapped_address_parse_def Let_def stat_failed_def inc_def split: sum.splits)

lemma mapped_address_failure:
  assumes "binary_view cv" "mapped_address_parse cv vv st = (st', Inl e)"
  shows "stat_failed st st' \<or> st' = st \<and> e = ValueRequired \<and> length vv \<le> 4"
proof (cases "4 < length vv")
  case True
  then show ?thesis using assms(2) binary_view.read_u8_eq [OF assms(1)] binary_view.read_u16be_eq [OF assms(1)]
      binary_view.subview_from_in [OF assms(1)]
    by (auto simp: mapped_address_parse_def Let_def stat_failed_def inc_def split: sum.splits)
next
  case False
  then show ?thesis using binary_view.parser_ok_mapped [OF assms(1), of st vv] assms(2) by auto
qed

lemma create_attr_Inl: "create_attr t mk r = (st', Inl e) \<longleftrightarrow> r = (st', Inl e)"
  by (cases r; cases "snd r") (auto simp: create_attr_def)

lemma attribute_failure:
  assumes "binary_view cv" "attribute_parse cv v t st = (st', Inl e)"
  shows "stat_failed st st' \<or> st' = st \<and> e = ValueRequired \<and> t \<in> {MAPPED_ADDRESS, ALTERNATE_SERVER} \<and> length v \<le> 4"
proof (cases "t \<in> {MAPPED_ADDRESS, ALTERNATE_SERVER}")
  case True
  then have "mapped_address_parse cv v st = (st', Inl e)"
    using assms(2) by (auto simp: attribute_parse_def create_attr_Inl alternate_server_parse_def)
  from mapped_address_failure [OF assms(1) this] True show ?thesis by blast
next
  case False
  then have "stat_failed st st'" using assms(2)
    by (auto simp: attribute_parse_def create_attr_Inl split: if_splits dest: simple_parsers_count xor_mapped_counts)
  then show ?thesis ..
qed

lemma raw_attrs_failure:
  assumes "binary_view cv" "parse_raw_attrs cv (map raw_of_at as) st = (st', Inl e)"
  shows "stat_failed st st' \<or> st' = st \<and> e = ValueRequired \<and>
    (\<exists>(_, t, v) \<in> set as. t \<in> {MAPPED_ADDRESS, ALTERNATE_SERVER} \<and> length v \<le> 4)"
  using assms(2)
proof (induction as arbitrary: st)
  case (Cons x as)
  obtain o' t v where x: "x = (o', t, v)" by (cases x)
  obtain st1 y where y: "attribute_parse cv v t st = (st1, y)" by force
  show ?case
  proof (cases y)
    case (Inl e')
    then have "st1 = st'" "e' = e" using Cons.prems x y by auto
    then show ?thesis using attribute_failure [OF assms(1), of v t st st' e] x y Inl by auto
  next
    case (Inr pr)
    then have "st1 = st" using attribute_parse_unchanged [OF assms(1)] y by blast
    then have "parse_raw_attrs cv (map raw_of_at as) st = (st', Inl e)"
      using Cons.prems x y Inr by (auto split: prod.splits sum.splits)
    from Cons.IH [OF this] show ?thesis by auto
  qed
qed simp

lemma raw_loop_failure:
  "raw_attrs_loop cv vv off raws mi mf st = (st', Inl e) \<Longrightarrow> stat_failed st st'"
proof (induction cv vv off raws mi mf st rule: raw_attrs_loop.induct)
  case (1 cv vv off raws mi mf st)
  show ?case
  proof (cases "off < length vv")
    case True
    show ?thesis
    proof (cases "raw_attr_parse cv vv off")
      case (Inl e')
      then show ?thesis using 1(5) True by (auto simp: raw_attrs_loop.simps [of cv vv off] stat_failed_def inc_def)
    next
      case (Inr r)
      then show ?thesis using 1(5) 1(1-4) [OF True Inr]
        by (auto simp: raw_attrs_loop_step [OF True Inr] stat_failed_def inc_def split: if_splits)
    qed
  qed (use 1(5) in \<open>simp add: raw_attrs_loop_end\<close>)
qed

lemma raw_loop_unchanged:
  "raw_attrs_loop cv vv off raws mi mf st = (st', Inr x) \<Longrightarrow> st' = st"
  using raw_attrs_loop_stat [of st cv vv off raws mi mf] by simp

lemma message_parse_failure:
  assumes cv: "binary_view cv" and p: "message_parse cv vv st = (st', Inl e)"
  shows "stat_failed st st' \<or> st' = st \<and> e = ValueRequired \<and> short_plain_address vv"
proof -
  obtain st1 x where pa: "parse_attrs cv vv STUN_HEADER_SIZE st = (st1, x)" by force
  have loops: "stat_failed st st1 \<or> st1 = st \<and> e' = ValueRequired \<and> short_plain_address vv"
    if x: "x = Inl e'" and len: "STUN_HEADER_SIZE \<le> length vv" "length vv mod 4 = 0" for e'
  proof -
    obtain st2 y where loop: "raw_attrs_loop cv vv STUN_HEADER_SIZE [] None None st = (st2, y)" by force
    show ?thesis
    proof (cases y)
      case (Inl e2)
      then show ?thesis using raw_loop_failure loop pa x by (auto simp: parse_attrs_def)
    next
      case (Inr z)
      obtain raws mi mf where z: "z = (raws, mi, mf)" by (cases z)
      obtain as where as: "attrs_between vv 20 as (length vv)" "raws = map raw_of_at (counted as)"
        using loop_divides [OF cv len(2,1) loop [unfolded Inr z]] by (elim exE conjE)
      have "st2 = st" using raw_loop_unchanged loop Inr by blast
      then have "parse_raw_attrs cv (map raw_of_at (counted as)) st = (st1, Inl e')"
        using pa x loop Inr z as(2) by (auto simp: parse_attrs_def split: prod.splits sum.splits)
      from raw_attrs_failure [OF cv this] as(1) show ?thesis unfolding short_plain_address_def by blast
    qed
  qed
  have mod4: "length vv mod 4 = 0"
    if "STUN_HEADER_SIZE \<le> length vv" "assured_read_u16be cv vv 2 AND 0x3 = 0"
      "unat (assured_read_u16be cv vv 2) = length vv - STUN_HEADER_SIZE"
    using and_3_mod4 [OF that(2)] that(1,3) by (simp add: mod_eq_0_iff_dvd dvd_diff_nat) presburger
  have ok: "st1 = st" if "x = Inr r" for r
    using parse_attrs_stat [OF cv, of st vv STUN_HEADER_SIZE] pa that by simp
  show ?thesis
  proof (cases x)
    case (Inl e')
    then show ?thesis using p pa loops [OF Inl] mod4
      by (auto simp: message_parse_def Let_def stat_failed_def inc_def split: if_splits)
  next
    case (Inr r)
    then show ?thesis using p pa ok [OF Inr]
      by (auto simp: message_parse_def Let_def stat_failed_def inc_def split: if_splits prod.splits)
  qed
qed

section \<open>Properties\<close>



end
