(* ===== verification/Stun_Rfc5769.thy ===== *)
theory Stun_Rfc5769
  imports Stun_Message Sha1
begin

text \<open>
  The model of the codec run on published data: the sample messages of RFC 5769, as
  \<open>tests/stun_parse_tests.cpp\<close> has them, with the checks that the tests make of the C++ code, evaluated
  by the kernel with SHA-1 itself.
\<close>

section \<open>Evaluation of the CRC\<close>

text \<open>The CRC on integers, for evaluation.\<close>

definition crc_bit_int :: "int \<Rightarrow> int" where
  "crc_bit_int x = (if odd x then (x div 2) XOR 0xEDB88320 else x div 2)"

fun crc_bits_int :: "nat \<Rightarrow> int \<Rightarrow> int" where
  "crc_bits_int 0 x = x"
| "crc_bits_int (Suc n) x = crc_bits_int n (crc_bit_int x)"

lemma uint_crc_bit: "uint (crc_bit x) = crc_bit_int (uint x)"
proof -
  have "uint (drop_bit 1 x) = uint x div 2" by (simp add: drop_bit_eq_div uint_div_distrib)
  moreover have "bit x 0 \<longleftrightarrow> odd (uint x)" by (simp add: bit_unsigned_iff flip: bit_0)
  ultimately show ?thesis by (simp add: crc_bit_def crc_bit_int_def crc_poly_def unsigned_xor_eq del: bit_0)
qed

lemma uint_crc_bits: "uint ((crc_bit ^^ n) x) = crc_bits_int n (uint x)"
  by (induction n arbitrary: x) (simp_all add: funpow_swap1 uint_crc_bit)

fun crc_int :: "bytes \<Rightarrow> int \<Rightarrow> int" where
  "crc_int [] c = c"
| "crc_int (v # vs) c = crc_int vs (crc_bits_int 8 (c XOR uint v))"

lemma crc32_helper_int [code]: "crc32_helper vv c = word_of_int (crc_int vv (uint c))"
proof -
  have "uint (crc32_helper vv c) = crc_int vv (uint c)"
  proof (induction vv arbitrary: c)
    case (Cons v vv)
    have "take_bit 32 (uint v) = uint v"
      using unsigned_less [of v, where 'a = int] by (intro take_bit_int_eq_self) simp_all
    then have "uint (crc32_step c v) = crc_bits_int 8 (uint c XOR uint v)"
      by (simp add: crc32_step_eq crc_byte_def uint_crc_bits unsigned_xor_eq unsigned_ucast_eq)
    then show ?case using Cons by (simp add: crc32_helper_def)
  qed (simp add: crc32_helper_def)
  then show ?thesis by (metis word_of_int_uint)
qed

section \<open>RFC 5769\<close>

definition rfc5769_request :: bytes where
  "rfc5769_request = [
    0x00, 0x01, 0x00, 0x58, 0x21, 0x12, 0xA4, 0x42, 0xB7, 0xE7, 0xA7, 0x01,
    0xBC, 0x34, 0xD6, 0x86, 0xFA, 0x87, 0xDF, 0xAE, 0x80, 0x22, 0x00, 0x10,
    0x53, 0x54, 0x55, 0x4E, 0x20, 0x74, 0x65, 0x73, 0x74, 0x20, 0x63, 0x6C,
    0x69, 0x65, 0x6E, 0x74, 0x00, 0x24, 0x00, 0x04, 0x6E, 0x00, 0x01, 0xFF,
    0x80, 0x29, 0x00, 0x08, 0x93, 0x2F, 0xF9, 0xB1, 0x51, 0x26, 0x3B, 0x36,
    0x00, 0x06, 0x00, 0x09, 0x65, 0x76, 0x74, 0x6A, 0x3A, 0x68, 0x36, 0x76,
    0x59, 0x20, 0x20, 0x20, 0x00, 0x08, 0x00, 0x14, 0x9A, 0xEA, 0xA7, 0x0C,
    0xBF, 0xD8, 0xCB, 0x56, 0x78, 0x1E, 0xF2, 0xB5, 0xB2, 0xD3, 0xF2, 0x49,
    0xC1, 0xB5, 0x71, 0xA2, 0x80, 0x28, 0x00, 0x04, 0xE5, 0x7A, 0x3B, 0xCF]"

definition rfc5769_response :: bytes where
  "rfc5769_response = [
    0x01, 0x01, 0x00, 0x3C, 0x21, 0x12, 0xA4, 0x42, 0xB7, 0xE7, 0xA7, 0x01,
    0xBC, 0x34, 0xD6, 0x86, 0xFA, 0x87, 0xDF, 0xAE, 0x80, 0x22, 0x00, 0x0B,
    0x74, 0x65, 0x73, 0x74, 0x20, 0x76, 0x65, 0x63, 0x74, 0x6F, 0x72, 0x20,
    0x00, 0x20, 0x00, 0x08, 0x00, 0x01, 0xA1, 0x47, 0xE1, 0x12, 0xA6, 0x43,
    0x00, 0x08, 0x00, 0x14, 0x2B, 0x91, 0xF5, 0x99, 0xFD, 0x9E, 0x90, 0xC3,
    0x8C, 0x74, 0x89, 0xF9, 0x2A, 0xF9, 0xBA, 0x53, 0xF0, 0x6B, 0xE7, 0xD7,
    0x80, 0x28, 0x00, 0x04, 0xC0, 0x7D, 0x4C, 0x96]"

definition rfc5769_ipv6_response :: bytes where
  "rfc5769_ipv6_response = [
    0x01, 0x01, 0x00, 0x48, 0x21, 0x12, 0xA4, 0x42, 0xB7, 0xE7, 0xA7, 0x01,
    0xBC, 0x34, 0xD6, 0x86, 0xFA, 0x87, 0xDF, 0xAE, 0x80, 0x22, 0x00, 0x0B,
    0x74, 0x65, 0x73, 0x74, 0x20, 0x76, 0x65, 0x63, 0x74, 0x6F, 0x72, 0x20,
    0x00, 0x20, 0x00, 0x14, 0x00, 0x02, 0xA1, 0x47, 0x01, 0x13, 0xA9, 0xFA,
    0xA5, 0xD3, 0xF1, 0x79, 0xBC, 0x25, 0xF4, 0xB5, 0xBE, 0xD2, 0xB9, 0xD9,
    0x00, 0x08, 0x00, 0x14, 0xA3, 0x82, 0x95, 0x4E, 0x4B, 0xE6, 0x7B, 0xF1,
    0x17, 0x84, 0xC9, 0x7C, 0x82, 0x92, 0xC2, 0x75, 0xBF, 0xE3, 0xED, 0x41,
    0x80, 0x28, 0x00, 0x04, 0xC8, 0xFB, 0x0B, 0x4C]"

definition rfc5769_password :: bytes where
  "rfc5769_password = [0x56, 0x4F, 0x6B, 0x4A, 0x78, 0x62, 0x52, 0x6C, 0x31, 0x52, 0x6D, 0x54, 0x78, 0x55, 0x6B, 0x2F,
     0x57, 0x76, 0x4A, 0x78, 0x42, 0x74]" \<comment> \<open>VOkJxbRl1RmTxUk/WvJxBt\<close>

text \<open>What the tests check of a message: it parses, counts one success, and its integrity is valid.\<close>

definition sample_checked :: "bytes \<Rightarrow> (message \<Rightarrow> bool) \<Rightarrow> bool" where
  "sample_checked dat check =
     (case message_parse list_view dat zero_stat of
        (st, Inr msg) \<Rightarrow> ps_success st = 1 \<and> ps_error st = 0 \<and> \<not> m_is_rfc3489 msg \<and> check msg \<and>
          (case short_term list_view rfc5769_password sha1_fips of
             Inr pwd \<Rightarrow> (case message_is_valid list_view msg dat \<lparr>id_password = pwd, id_hash = sha1_fips\<rparr> of
                            Inr (Some b) \<Rightarrow> b | _ \<Rightarrow> False)
           | Inl _ \<Rightarrow> False)
      | (st, Inl _) \<Rightarrow> False)"

lemma rfc5769_request_ok:
  "sample_checked rfc5769_request (\<lambda>msg. h_cls (m_header msg) = REQUEST \<and> h_method (m_header msg) = binding_method \<and>
     get_username (m_attribute_set msg) = Some [0x65, 0x76, 0x74, 0x6A, 0x3A, 0x68, 0x36, 0x76, 0x59] \<and>
     get_software (m_attribute_set msg) = Some [0x53, 0x54, 0x55, 0x4E, 0x20, 0x74, 0x65, 0x73, 0x74, 0x20, 0x63, 0x6C, 0x69, 0x65, 0x6E, 0x74] \<and>
     get_priority (m_attribute_set msg) = Some 0x6E0001FF)"
  by code_simp

lemma rfc5769_response_ok:
  "sample_checked rfc5769_response (\<lambda>msg. h_cls (m_header msg) = SUCCESS_RESPONSE \<and>
     (case get_xor_mapped (m_attribute_set msg) of
        Some (a, p) \<Rightarrow> p = 32853 \<and> xored_to_address list_view a (h_transaction_id (m_header msg)) = AddressV4 [192, 0, 2, 1]
      | None \<Rightarrow> False))"
  by code_simp

lemma rfc5769_ipv6_response_ok:
  "sample_checked rfc5769_ipv6_response (\<lambda>msg. h_cls (m_header msg) = SUCCESS_RESPONSE \<and>
     (case get_xor_mapped (m_attribute_set msg) of
        Some (a, p) \<Rightarrow> p = 32853 \<and> xored_to_address list_view a (h_transaction_id (m_header msg)) =
          AddressV6 [0x20, 0x01, 0x0D, 0xB8, 0x12, 0x34, 0x56, 0x78, 0x00, 0x11, 0x22, 0x33, 0x44, 0x55, 0x66, 0x77]
      | None \<Rightarrow> False))"
  by code_simp

text \<open>
  Every check matters: with another password the integrity is not valid, and with one bit changed the
  FINGERPRINT is not.
\<close>

lemma rfc5769_response_other_password:
  "case message_parse list_view rfc5769_response zero_stat of
     (st, Inr msg) \<Rightarrow>
       (case short_term list_view (tl rfc5769_password) sha1_fips of
          Inr pwd \<Rightarrow> (case message_is_valid list_view msg rfc5769_response \<lparr>id_password = pwd, id_hash = sha1_fips\<rparr> of
                         Inr (Some b) \<Rightarrow> \<not> b | _ \<Rightarrow> False)
        | Inl _ \<Rightarrow> False)
   | (st, Inl _) \<Rightarrow> False"
  by code_simp

lemma rfc5769_response_changed:
  "case message_parse list_view (rfc5769_response[27 := 0x75]) zero_stat of
     (st, Inl e) \<Rightarrow> e = ParseError fingerprint_not_valid \<and> ps_invalid_fingerprint st = 1 \<and> ps_error st = 1 \<and> ps_success st = 0
   | (st, Inr _) \<Rightarrow> False"
  by code_simp

end
