(* ===== verification/Stun_Server.thy ===== *)
theory Stun_Server
  imports Stun_Parse_Sound Stun_Rfc5769
begin

text \<open>
  The stateless server: \<open>stun/stun_server_stateless.hpp\<close> and \<open>stun/stun_server_stateless.cpp\<close>.  Its state
  are the hash function, the settings, the statistics of the parser and the registered users; only
  the last two change.  A reply is a message that the caller builds with the credential it comes with.
\<close>

section \<open>State and operations\<close>

record server =
  srv_sha1 :: hash_func
  srv_use_fingerprint :: bool
  srv_stat :: parse_stat
  srv_users :: "bytes \<rightharpoonup> password"

datatype process_result =
    Respond message message maybe_integrity
  | Ignore "message option"
  | Error error

definition stateless :: "hash_func \<Rightarrow> bool option \<Rightarrow> server" where
  "stateless sha1 maybe_settings =
     \<lparr>srv_sha1 = sha1, srv_use_fingerprint = (case maybe_settings of Some s \<Rightarrow> s | None \<Rightarrow> True),
      srv_stat = zero_stat, srv_users = Map.empty\<rparr>"

definition create_error :: "message \<Rightarrow> u32 \<Rightarrow> bytes option \<Rightarrow> message" where
  "create_error msg err reason =
     \<lparr>m_header = \<lparr>h_cls = ERROR_RESPONSE, h_method = h_method (m_header msg),
                  h_transaction_id = h_transaction_id (m_header msg)\<rparr>,
      m_attribute_set = emplace (attribute_create (ErrorCodeAttribute err reason)) empty_set,
      m_is_rfc3489 = m_is_rfc3489 msg,
      m_integrity_interval = None\<rparr>"

definition add_user :: "bytes \<Rightarrow> password \<Rightarrow> server \<Rightarrow> server" where
  "add_user name pw s =
     (if srv_users s name \<noteq> None then s else s\<lparr>srv_users := (srv_users s)(name \<mapsto> pw)\<rparr>)"

definition check_auth ::
    "craftpp \<Rightarrow> server \<Rightarrow> message \<Rightarrow> bytes \<Rightarrow> bytes \<Rightarrow> process_result option \<times> maybe_integrity" where
  \<comment> \<open>an early result, or none and the credential that the request was signed with\<close>
  "check_auth cv s msg view username =
     (case srv_users s username of
        None \<Rightarrow> (Some (Respond (create_error msg Unauthorized None) msg None), None)
      | Some pw \<Rightarrow>
          (let idata = \<lparr>id_password = pw, id_hash = srv_sha1 s\<rparr>
           in case message_is_valid cv msg view idata of
                Inl err \<Rightarrow> (Some (Error err), None)
              | Inr None \<Rightarrow> (None, None)
              | Inr (Some is_valid) \<Rightarrow>
                  (if \<not> is_valid then (Some (Respond (create_error msg Unauthorized None) msg None), None)
                   else (None, Some idata))))"

definition success_reply :: "craftpp \<Rightarrow> server \<Rightarrow> endpoint \<Rightarrow> message \<Rightarrow> maybe_integrity \<Rightarrow> process_result" where
  "success_reply cv s ep msg maybe_integrity_data =
     (if h_method (m_header msg) \<noteq> binding_method then Ignore (Some msg)
      else
        let hdr = \<lparr>h_cls = SUCCESS_RESPONSE, h_method = h_method (m_header msg),
                   h_transaction_id = h_transaction_id (m_header msg)\<rparr>;
            attrset = (if \<not> m_is_rfc3489 msg \<and> srv_use_fingerprint s
                       then emplace (attribute_create (FingerprintAttribute 0)) empty_set else empty_set);
            attrset = (if \<not> m_is_rfc3489 msg
                       then emplace (attribute_create (XorMappedAddressAttribute
                              (xored_from_address cv (endpoint_address ep) (h_transaction_id (m_header msg)))
                              (endpoint_port ep))) attrset
                       else emplace (attribute_create (MappedAddressAttribute (endpoint_address ep) (endpoint_port ep))) attrset)
        in Respond \<lparr>m_header = hdr, m_attribute_set = attrset, m_is_rfc3489 = m_is_rfc3489 msg,
                    m_integrity_interval = None\<rparr> msg maybe_integrity_data)"

definition process_request :: "craftpp \<Rightarrow> server \<Rightarrow> endpoint \<Rightarrow> message \<Rightarrow> bytes \<Rightarrow> process_result" where
  "process_request cv s ep msg view =
     (let unknown_comprehension_required = unknown_comprehension_required (m_attribute_set msg)
      in if unknown_comprehension_required \<noteq> []
         then (let rsp = create_error msg UnknownAttribute_code None;
                   attr = attribute_create (UnknownAttributesAttribute unknown_comprehension_required)
               in Respond (rsp\<lparr>m_attribute_set := emplace attr (m_attribute_set rsp)\<rparr>) msg None)
         else
           let maybe_username = get_username (m_attribute_set msg);
               maybe_integrity = get_integrity (m_attribute_set msg)
           in if (maybe_username \<noteq> None) \<noteq> (maybe_integrity \<noteq> None)
              then Respond (create_error msg BadRequest None) msg None
              else case maybe_username of
                     None \<Rightarrow> success_reply cv s ep msg None
                   | Some username \<Rightarrow>
                       (case check_auth cv s msg view username of
                          (Some r, _) \<Rightarrow> r
                        | (None, maybe_integrity_data) \<Rightarrow> success_reply cv s ep msg maybe_integrity_data))"

definition server_process :: "craftpp \<Rightarrow> endpoint \<Rightarrow> bytes \<Rightarrow> server \<Rightarrow> server \<times> process_result" where
  "server_process cv ep view s =
     (case message_parse cv view (srv_stat s) of
        (st, Inl _) \<Rightarrow> (s\<lparr>srv_stat := st\<rparr>, Ignore None)
      | (st, Inr msg) \<Rightarrow>
          (s\<lparr>srv_stat := st\<rparr>,
           if h_cls (m_header msg) = REQUEST then process_request cv s ep msg view else Ignore (Some msg)))"

section \<open>The reply and the request\<close>

lemma success_reply_Respond: "success_reply cv s ep msg i = Respond rsp msg' i' \<Longrightarrow> msg' = msg \<and> i' = i"
  by (auto simp: success_reply_def Let_def split: if_splits)

definition is_error_reply :: "message \<Rightarrow> u32 \<Rightarrow> message \<Rightarrow> bool" where
  "is_error_reply rsp code msg \<longleftrightarrow>
     h_cls (m_header rsp) = ERROR_RESPONSE \<and> h_method (m_header rsp) = h_method (m_header msg) \<and>
     h_transaction_id (m_header rsp) = h_transaction_id (m_header msg) \<and>
     get_error_code (m_attribute_set rsp) = Some (code, None)"

lemma create_error_reply [simp]: "is_error_reply (create_error msg code None) code msg"
  by (simp add: is_error_reply_def create_error_def get_error_code_def access_def empty_set_def emplace_def
      attribute_create_def)

lemma create_error_fields [simp]:
  "m_header (create_error msg code r) = \<lparr>h_cls = ERROR_RESPONSE, h_method = h_method (m_header msg),
     h_transaction_id = h_transaction_id (m_header msg)\<rparr>"
  "m_is_rfc3489 (create_error msg code r) = m_is_rfc3489 msg"
  by (simp_all add: create_error_def)

text \<open>
  The contract of the server, over the bytes of the request.  RFC 5389 15.4: the digest is the HMAC of the message
  up to the attribute MESSAGE-INTEGRITY at offset \<open>n\<close>, with a length field that counts the octets behind
  the header up to the end of that attribute.
\<close>

definition integrity_text :: "bytes \<Rightarrow> nat \<Rightarrow> bytes" where
  "integrity_text view n = take 2 view @ be_encode 2 (of_nat (n + 24 - 20) :: u16) @ drop 4 (take n view)"

definition request_mac :: "server \<Rightarrow> password \<Rightarrow> bytes \<Rightarrow> nat \<Rightarrow> bytes result" where
  "request_mac s pw view n = hmac_digest [integrity_text view n] (pw_opad pw) (pw_ipad pw) (srv_sha1 s)"

text \<open>A refusal with an error code, and the service: a reply with the source address, only to the binding method.\<close>

definition refused :: "process_result \<Rightarrow> message \<Rightarrow> u32 \<Rightarrow> bool" where
  "refused r msg code \<longleftrightarrow> (\<exists>rsp. r = Respond rsp msg None \<and> is_error_reply rsp code msg \<and>
     (code = UnknownAttribute_code \<longrightarrow>
        get_unknown_attributes (m_attribute_set rsp) = Some (unknown_comprehension_required (m_attribute_set msg))))"

definition address_reply :: "craftpp \<Rightarrow> server \<Rightarrow> endpoint \<Rightarrow> message \<Rightarrow> message \<Rightarrow> bool" where
  "address_reply cv s ep msg rsp \<longleftrightarrow>
     m_header rsp = \<lparr>h_cls = SUCCESS_RESPONSE, h_method = h_method (m_header msg),
       h_transaction_id = h_transaction_id (m_header msg)\<rparr> \<and>
     m_is_rfc3489 rsp = m_is_rfc3489 msg \<and> as_unknown (m_attribute_set rsp) = [] \<and>
     (if m_is_rfc3489 msg
      then dom (map_of (as_map (m_attribute_set rsp))) = {MAPPED_ADDRESS} \<and>
        get_mapped (m_attribute_set rsp) = Some (endpoint_address ep, endpoint_port ep)
      else dom (map_of (as_map (m_attribute_set rsp))) =
          {XOR_MAPPED_ADDRESS} \<union> (if srv_use_fingerprint s then {FINGERPRINT} else {}) \<and>
        (\<exists>x. get_xor_mapped (m_attribute_set rsp) = Some (x, endpoint_port ep) \<and>
           xored_to_address cv x (h_transaction_id (m_header msg)) = endpoint_address ep))"

definition served :: "craftpp \<Rightarrow> server \<Rightarrow> endpoint \<Rightarrow> message \<Rightarrow> maybe_integrity \<Rightarrow> process_result \<Rightarrow> bool" where
  "served cv s ep msg i r \<longleftrightarrow>
     (if h_method (m_header msg) = binding_method then \<exists>rsp. r = Respond rsp msg i \<and> address_reply cv s ep msg rsp
      else r = Ignore (Some msg))"

lemma unknown_reply:
  "\<exists>rsp. Respond ((create_error msg UnknownAttribute_code None)\<lparr>m_attribute_set :=
        emplace (attribute_create (UnknownAttributesAttribute ts)) (m_attribute_set (create_error msg UnknownAttribute_code None))\<rparr>) msg None
      = Respond rsp msg None \<and> is_error_reply rsp UnknownAttribute_code msg \<and> get_unknown_attributes (m_attribute_set rsp) = Some ts"
  by (simp add: is_error_reply_def create_error_def get_error_code_def get_unknown_attributes_def access_def
      empty_set_def emplace_def attribute_create_def)

text \<open>An accepted message with a digest always has a definite answer to the question of its validity.\<close>

lemma message_is_valid_definite:
  assumes "binary_view cv" "accepted view msg" "get_integrity (m_attribute_set msg) = Some d"
  shows "message_is_valid cv msg view i \<noteq> Inr None"
proof -
  obtain iv where iv: "m_integrity_interval msg = Some iv" "i_offset iv = 0" "STUN_HEADER_SIZE \<le> i_count iv"
    "i_count iv < length view"
    using assms(2,3) by (auto simp: accepted_def interval_ok_def split: option.splits)
  let ?c = "slice view 0 (i_count iv)"
  have "subview cv view iv = Some ?c"
    using iv binary_view.subview_eq [OF assms(1)] by (simp add: interval_in_def)
  moreover have "subview_from cv ?c 4 = Some (drop 4 ?c)"
    using iv binary_view.subview_from_in [OF assms(1)] by simp
  ultimately show ?thesis using iv assms(3)
    by (auto simp: message_is_valid_def Let_def rmap_def split: sum.splits)
qed

text \<open>The HMAC that \<open>Message::is_valid\<close> computes is the one over \<open>integrity_text\<close>.\<close>

lemma message_is_valid_mac:
  assumes "binary_view cv" "sha1_function (id_hash i)" "accepted view msg" "get_integrity (m_attribute_set msg) = Some d"
  obtains n where "m_integrity_interval msg = Some \<lparr>i_offset = 0, i_count = n\<rparr>"
    "message_is_valid cv msg view i =
       rmap (\<lambda>d'. Some (d' = d)) (hmac_digest [integrity_text view n] (pw_opad (id_password i)) (pw_ipad (id_password i)) (id_hash i))"
proof -
  obtain iv where iv: "m_integrity_interval msg = Some iv" "i_offset iv = 0" "20 \<le> i_count iv" "i_count iv < length view"
    using assms(3,4) by (auto simp: accepted_def interval_ok_def split: option.splits)
  let ?n = "i_count iv"
  let ?c = "slice view 0 ?n"
  have c: "subview cv view iv = Some ?c" "subview_from cv ?c 4 = Some (drop 4 ?c)" "length ?c = ?n"
    using iv binary_view.subview_eq [OF assms(1)] binary_view.subview_from_in [OF assms(1)] by (simp_all add: interval_in_def)
  have two: "take 2 view = [view ! 0, view ! 1]" using iv(3,4) by (cases view; cases "tl view") auto
  let ?h = "[view ! 0, view ! 1, word_of_nat (((?n + 24 - 20) div 256) mod 256), word_of_nat ((?n + 24 - 20) mod 256)]"
  have "concat [?h, drop 4 ?c] = concat [integrity_text view ?n]"
    using lv.length_bytes [of "?n + 24 - 20"] by (simp add: integrity_text_def two slice_def)
  from sha1_function.hmac_digest_concat [OF assms(2) this] have "message_is_valid cv msg view i =
       rmap (\<lambda>d'. Some (d' = d)) (hmac_digest [integrity_text view ?n] (pw_opad (id_password i)) (pw_ipad (id_password i)) (id_hash i))"
    using c iv(1) assms(4) by (simp add: message_is_valid_def Let_def)
  moreover have "iv = \<lparr>i_offset = 0, i_count = ?n\<rparr>" using iv(2) by simp
  ultimately show ?thesis using that iv(1) by metis
qed

text \<open>The reply to a request that carries both attributes.\<close>

lemma process_request_signed:
  assumes "binary_view cv" "accepted view msg" "unknown_comprehension_required (m_attribute_set msg) = []"
    and "get_username (m_attribute_set msg) = Some user" "get_integrity (m_attribute_set msg) = Some d"
  shows "process_request cv s ep msg view =
    (case srv_users s user of
       None \<Rightarrow> Respond (create_error msg Unauthorized None) msg None
     | Some pw \<Rightarrow>
         (case message_is_valid cv msg view \<lparr>id_password = pw, id_hash = srv_sha1 s\<rparr> of
            Inl e \<Rightarrow> Error e
          | Inr (Some True) \<Rightarrow> success_reply cv s ep msg (Some \<lparr>id_password = pw, id_hash = srv_sha1 s\<rparr>)
          | Inr _ \<Rightarrow> Respond (create_error msg Unauthorized None) msg None))"
proof (cases "srv_users s user")
  case (Some pw)
  have "message_is_valid cv msg view \<lparr>id_password = pw, id_hash = srv_sha1 s\<rparr> \<noteq> Inr None"
    by (rule message_is_valid_definite [OF assms(1,2,5)])
  then show ?thesis using assms(3-5) Some
    by (auto simp: process_request_def check_auth_def Let_def split: sum.split option.split bool.split)
qed (use assms(3-5) in \<open>simp add: process_request_def check_auth_def Let_def\<close>)

lemma refused_error: "code \<noteq> UnknownAttribute_code \<Longrightarrow> refused (Respond (create_error msg code None) msg None) msg code"
  by (auto simp: refused_def)

lemma success_reply_served:
  assumes "binary_view cv" "address_wf (endpoint_address ep)"
  shows "served cv s ep msg i (success_reply cv s ep msg i)"
  using binary_view.xored_involution [OF assms]
  by (auto simp: served_def success_reply_def address_reply_def Let_def emplace_def empty_set_def attribute_create_def
      get_xor_mapped_def get_mapped_def access_def)

section \<open>The reply on the wire\<close>

lemma success_reply_header:
  assumes "success_reply cv s ep msg i = Respond rsp msg' i'" "accepted view msg" "\<not> m_is_rfc3489 msg"
  shows "header_wf (m_header rsp) \<and> h_transaction_id (m_header rsp) = h_transaction_id (m_header msg)
    \<and> h_cls (m_header rsp) = SUCCESS_RESPONSE \<and> i' = i \<and> msg' = msg"
  using assms by (auto simp: success_reply_def Let_def header_wf_def accepted_def binding_method_def split: if_splits)

abbreviation observed_value :: "craftpp \<Rightarrow> endpoint \<Rightarrow> transaction_id \<Rightarrow> attr_value" where
  "observed_value cv ep tid \<equiv>
     XorMappedAddressAttribute (xored_from_address cv (endpoint_address ep) tid) (endpoint_port ep)"

lemma success_reply_set:
  assumes "success_reply cv s ep msg i = Respond rsp msg' i'" "\<not> m_is_rfc3489 msg"
  shows "m_attribute_set rsp = set_create
    ((if srv_use_fingerprint s then [FingerprintAttribute 0] else []) @ [observed_value cv ep (h_transaction_id (m_header msg))]) []"
  using assms by (auto simp: success_reply_def Let_def set_create_def split: if_splits)

context binary_view
begin

lemma success_reply_buildable:
  assumes "success_reply cv s ep msg i = Respond rsp msg' i'" "\<not> m_is_rfc3489 msg" "address_wf (endpoint_address ep)"
  shows "set_buildable cv (m_attribute_set rsp)"
proof -
  let ?v = "observed_value cv ep (h_transaction_id (m_header msg))"
  let ?a = "xored_from_address cv (endpoint_address ep) (h_transaction_id (m_header msg))"
  have wf: "xored_address_wf ?a" using assms(3) by (rule xored_from_address_wf)
  then have "length (xored_view ?a) = 4 \<or> length (xored_view ?a) = 16" by (cases ?a) simp_all
  then have small: "length (tlv (XOR_MAPPED_ADDRESS, xor_mapped_address_build cv ?a (endpoint_port ep))) \<le> 28"
    by (auto simp: length_tlv padding_of_def xor_mapped_address_build_def Let_def net_u32_eq)
  have "attrs_wf (m_attribute_set rsp)"
    unfolding success_reply_set [OF assms(1,2)] using wf by (intro set_create_wf) auto
  then show ?thesis unfolding set_buildable_def using small
    by (auto simp: success_reply_set [OF assms(1,2)] set_create_def emplace_def empty_set_def attribute_create_def
        set_items_def)
qed

end

lemma success_reply_discovers:
  assumes "binary_view cv" "map_order ord" "sha1_function (srv_sha1 s)" "address_wf (endpoint_address ep)"
    and "accepted view msg" "\<not> m_is_rfc3489 msg"
    and "success_reply cv s ep msg i = Respond rsp msg' i'" "\<forall>d. i = Some d \<longrightarrow> id_hash d = srv_sha1 s"
    and "message_build cv ord rsp i' = Inr out"
  shows "\<exists>m' a. message_parse cv out st = (st\<lparr>ps_success := ps_success st + 1\<rparr>, Inr m') \<and>
    h_cls (m_header m') = SUCCESS_RESPONSE \<and> h_transaction_id (m_header m') = h_transaction_id (m_header msg) \<and>
    get_xor_mapped (m_attribute_set m') = Some (a, endpoint_port ep) \<and>
    xored_to_address cv a (h_transaction_id (m_header m')) = endpoint_address ep \<and>
    unknown_comprehension_required (m_attribute_set m') = [] \<and>
    (\<forall>d. i = Some d \<longrightarrow> message_is_valid cv m' out d = Inr (Some True))"
proof -
  note h = success_reply_header [OF assms(7,5,6)]
  let ?v = "observed_value cv ep (h_transaction_id (m_header msg))"
  have look: "map_of (as_map (m_attribute_set rsp)) XOR_MAPPED_ADDRESS = Some (attribute_create ?v)"
    unfolding success_reply_set [OF assms(7,6)]
    by (simp add: set_create_def emplace_def empty_set_def attribute_create_def)
  obtain m' where m': "message_parse cv out st = (st\<lparr>ps_success := ps_success st + 1\<rparr>, Inr m')"
    "m_header m' = m_header rsp" "same_content (m_attribute_set rsp) (m_attribute_set m')"
    "\<forall>d. i' = Some d \<longrightarrow> message_is_valid cv m' out d = Inr (Some True)"
    using binary_view.build_parse_any [OF assms(1,2) _ binary_view.success_reply_buildable [OF assms(1,7,6,4)] _ assms(9)]
      h assms(3,8) by metis
  have "lookup_equiv (Some (attribute_create ?v)) (map_of (as_map (m_attribute_set m')) XOR_MAPPED_ADDRESS)"
    using m'(3) [unfolded same_content_def, THEN conjunct2, THEN conjunct2, rule_format, of XOR_MAPPED_ADDRESS] look
    by simp
  then have "get_xor_mapped (m_attribute_set m') =
      Some (xored_from_address cv (endpoint_address ep) (h_transaction_id (m_header msg)), endpoint_port ep)"
    by (auto simp: lookup_equiv_def get_xor_mapped_def access_def attribute_create_def split: option.splits)
  moreover have "as_unknown (m_attribute_set m') = []"
    using m'(3) success_reply_set [OF assms(7,6)]
    by (simp add: same_content_def set_create_def empty_set_def)
  then have "unknown_comprehension_required (m_attribute_set m') = []" by (simp add: unknown_comprehension_required_def)
  ultimately show ?thesis using m' h binary_view.xored_involution [OF assms(1,4)] by auto
qed

section \<open>Properties\<close>

text \<open>
  C9.  What the server does with a datagram.  Bytes that do not parse are ignored, a message that is not a request
  is handed back, and only the statistics change.  A request with unknown comprehension-required attributes is
  refused with 420 and their list; one with only one of USERNAME and MESSAGE-INTEGRITY with 400; one of an
  unknown user, or whose digest is not the HMAC of RFC 5389 15.4 under the user's password, with 401; a failing
  hash function is reported.  Every other request is served: the reply to the binding method has
  the address and the port it came from and comes with the credential of its user, other methods are ignored.
  Served without a credential are the requests with neither attribute, which RFC 5389 10.1.2 wants to be
  refused with 400.
\<close>

theorem server_process_contract:
  assumes "binary_view cv" "sha1_function (srv_sha1 s)" "address_wf (endpoint_address ep)"
    and "message_parse cv view (srv_stat s) = (st, m)" "server_process cv ep view s = (s', r)"
  shows "s' = s\<lparr>srv_stat := st\<rparr> \<and>
    (case m of
       Inl _ \<Rightarrow> r = Ignore None
     | Inr msg \<Rightarrow>
         let user = get_username (m_attribute_set msg); digest = get_integrity (m_attribute_set msg) in
         if h_cls (m_header msg) \<noteq> REQUEST then r = Ignore (Some msg)
         else if unknown_comprehension_required (m_attribute_set msg) \<noteq> [] then refused r msg UnknownAttribute_code
         else if user = None \<and> digest = None then served cv s ep msg None r
         else if user = None \<or> digest = None then refused r msg BadRequest
         else case srv_users s (the user) of
                None \<Rightarrow> refused r msg Unauthorized
              | Some pw \<Rightarrow>
                  (\<exists>n. m_integrity_interval msg = Some \<lparr>i_offset = 0, i_count = n\<rparr> \<and>
                     (case request_mac s pw view n of
                        Inl e \<Rightarrow> r = Error e
                      | Inr mac \<Rightarrow>
                          if Some mac = digest then served cv s ep msg (Some \<lparr>id_password = pw, id_hash = srv_sha1 s\<rparr>) r
                          else refused r msg Unauthorized)))"
proof (cases m)
  case (Inr msg)
  have acc: "accepted view msg" using message_parse_accepted [OF assms(1)] assms(4) Inr by simp
  have s': "s' = s\<lparr>srv_stat := st\<rparr>" using assms(4,5) Inr by (simp add: server_process_def)
  let ?u = "get_username (m_attribute_set msg)" and ?d = "get_integrity (m_attribute_set msg)"
  consider (other) "h_cls (m_header msg) \<noteq> REQUEST"
    | (unknown) "h_cls (m_header msg) = REQUEST" "unknown_comprehension_required (m_attribute_set msg) \<noteq> []"
    | (plain) "h_cls (m_header msg) = REQUEST" "unknown_comprehension_required (m_attribute_set msg) = []" "?u = None \<or> ?d = None"
    | (signed) user d where "h_cls (m_header msg) = REQUEST" "unknown_comprehension_required (m_attribute_set msg) = []"
        "?u = Some user" "?d = Some d"
    by (cases ?u; cases ?d) auto
  then show ?thesis
  proof cases
    case other
    then show ?thesis using assms(4,5) Inr s' by (simp add: server_process_def)
  next
    case unknown
    then have "r = process_request cv s ep msg view" using assms(4,5) Inr by (simp add: server_process_def)
    then have "refused r msg UnknownAttribute_code" using unknown(2) unknown_reply
      by (auto simp: process_request_def refused_def Let_def)
    then show ?thesis using unknown Inr s' by simp
  next
    case plain
    then have "r = process_request cv s ep msg view" using assms(4,5) Inr by (simp add: server_process_def)
    then show ?thesis using plain Inr s' success_reply_served [OF assms(1,3), of s msg None] refused_error [of BadRequest msg]
      by (auto simp: process_request_def Let_def)
  next
    case (signed user d)
    then have "r = process_request cv s ep msg view" using assms(4,5) Inr by (simp add: server_process_def)
    note r = this [unfolded process_request_signed [OF assms(1) acc signed(2-4)]]
    show ?thesis
    proof (cases "srv_users s user")
      case None
      then show ?thesis using r signed Inr s' refused_error [of Unauthorized msg] by simp
    next
      case (Some pw)
      let ?i = "\<lparr>id_password = pw, id_hash = srv_sha1 s\<rparr>"
      obtain n where n: "m_integrity_interval msg = Some \<lparr>i_offset = 0, i_count = n\<rparr>"
        "message_is_valid cv msg view ?i = rmap (\<lambda>d'. Some (d' = d)) (request_mac s pw view n)"
        using message_is_valid_mac [OF assms(1) _ acc signed(4), of ?i] assms(2) by (auto simp: request_mac_def)
      then show ?thesis using r Some signed Inr s' refused_error [of Unauthorized msg] success_reply_served [OF assms(1,3), of s msg "Some ?i"]
        by (cases "request_mac s pw view n") (auto simp: Let_def)
    qed
  qed
qed (use assms(4,5) in \<open>simp add: server_process_def\<close>)

text \<open>A hash function that is cheap to evaluate and meets the contract.\<close>

definition const_sha1 :: hash_func where
  "const_sha1 = (\<lambda>_. Inr (replicate 20 7))"

interpretation const: sha1_function const_sha1
  by unfold_locales (auto simp: const_sha1_def)

definition sample_server :: server where
  "sample_server = add_user [0x61] \<lparr>pw_ipad = [1], pw_opad = [2]\<rparr> (stateless const_sha1 None)"

definition sample_endpoint :: endpoint where
  "sample_endpoint = UdpEndpoint \<lparr>ep_address = AddressV4 [10, 0, 0, 1], ep_port = 5000\<rparr>"

theorem server_process_contract_witness:
  "\<exists>msg. snd (server_process list_view sample_endpoint (sample_head 8 @ [0x12, 0x34, 0, 0, 0x80, 0x77, 0, 0]) sample_server) \<noteq> Ignore (Some msg)
     \<and> refused (snd (server_process list_view sample_endpoint (sample_head 8 @ [0x12, 0x34, 0, 0, 0x80, 0x77, 0, 0]) sample_server))
         msg UnknownAttribute_code"
proof -
  let ?v = "sample_head 8 @ [0x12, 0x34, 0, 0, 0x80, 0x77, 0, 0] :: bytes"
  have "case message_parse list_view ?v (srv_stat sample_server) of
      (st, Inr msg) \<Rightarrow> h_cls (m_header msg) = REQUEST \<and> unknown_comprehension_required (m_attribute_set msg) = [0x1234]
    | _ \<Rightarrow> False"
    by code_simp
  then obtain st msg where p: "message_parse list_view ?v (srv_stat sample_server) = (st, Inr msg)"
    "h_cls (m_header msg) = REQUEST" "unknown_comprehension_required (m_attribute_set msg) = [0x1234]"
    by (elim case_success [THEN exE] exE conjE) simp
  have ok: "sha1_function (srv_sha1 sample_server)" "address_wf (endpoint_address sample_endpoint)"
    by (simp_all add: sample_endpoint_def sample_server_def add_user_def stateless_def const.sha1_function_axioms)
  let ?r = "snd (server_process list_view sample_endpoint ?v sample_server)"
  have "refused ?r msg UnknownAttribute_code"
    using server_process_contract [OF binary_view_list_view ok p(1) surjective_pairing] p by simp
  moreover from this have "?r \<noteq> Ignore (Some msg)" by (auto simp: refused_def)
  ultimately show ?thesis by blast
qed

text \<open>
  C10.  Authentication: when the server answers a request that carries a USERNAME or a
  MESSAGE-INTEGRITY with success, then the user is registered, the digest is the HMAC under that
  user's password, and the reply comes with the same credential to be signed with.
\<close>

theorem server_success_authenticated:
  assumes "binary_view cv" "server_process cv ep view s = (s', Respond rsp msg i)"
    and "h_cls (m_header rsp) = SUCCESS_RESPONSE"
    and "get_username (m_attribute_set msg) \<noteq> None \<or> get_integrity (m_attribute_set msg) \<noteq> None"
  shows "\<exists>user pw. get_username (m_attribute_set msg) = Some user \<and> srv_users s user = Some pw \<and>
    i = Some \<lparr>id_password = pw, id_hash = srv_sha1 s\<rparr> \<and>
    message_is_valid cv msg view \<lparr>id_password = pw, id_hash = srv_sha1 s\<rparr> = Inr (Some True)"
proof -
  obtain st x where p: "message_parse cv view (srv_stat s) = (st, x)" by force
  obtain m where x: "x = Inr m" and pr: "process_request cv s ep m view = Respond rsp msg i"
    using assms(2) p by (cases x) (auto simp: server_process_def split: if_splits)
  have acc: "accepted view m" using message_parse_accepted [OF assms(1)] p x by simp
  have m: "m = msg" "unknown_comprehension_required (m_attribute_set m) = []"
    and both: "(get_username (m_attribute_set m) = None) = (get_integrity (m_attribute_set m) = None)"
    using pr assms(3)
    by (auto simp: process_request_def check_auth_def Let_def split: if_splits option.splits prod.splits sum.splits
        dest: success_reply_Respond)
  obtain user d where ud: "get_username (m_attribute_set m) = Some user" "get_integrity (m_attribute_set m) = Some d"
    using both assms(4) m(1) by (cases "get_username (m_attribute_set m)"; cases "get_integrity (m_attribute_set m)") auto
  show ?thesis using pr [unfolded process_request_signed [OF assms(1) acc m(2) ud]] assms(3) ud m(1)
    by (auto split: option.splits sum.splits bool.splits dest!: success_reply_Respond)
qed

text \<open>The sample request of RFC 5769 at a server that knows its user.\<close>

definition rfc5769_username :: bytes where
  "rfc5769_username = [0x65, 0x76, 0x74, 0x6A, 0x3A, 0x68, 0x36, 0x76, 0x59]" \<comment> \<open>evtj:h6vY\<close>

definition rfc5769_key :: password where
  "rfc5769_key = (case short_term list_view rfc5769_password sha1_fips of Inr pwd \<Rightarrow> pwd | Inl _ \<Rightarrow> \<lparr>pw_ipad = [], pw_opad = []\<rparr>)"

definition rfc5769_server :: server where
  "rfc5769_server = add_user rfc5769_username rfc5769_key (stateless sha1_fips None)"

lemma rfc5769_reply:
  "case server_process list_view sample_endpoint rfc5769_request rfc5769_server of
     (_, Respond rsp msg i) \<Rightarrow> h_cls (m_header rsp) = SUCCESS_RESPONSE \<and> get_username (m_attribute_set msg) = Some rfc5769_username
   | _ \<Rightarrow> False"
  by code_simp

theorem server_success_authenticated_witness:
  "\<exists>s' rsp msg i. server_process list_view sample_endpoint rfc5769_request rfc5769_server = (s', Respond rsp msg i)
     \<and> message_is_valid list_view msg rfc5769_request \<lparr>id_password = rfc5769_key, id_hash = sha1_fips\<rparr> = Inr (Some True)"
proof -
  obtain s' rsp msg i where
    p: "server_process list_view sample_endpoint rfc5769_request rfc5769_server = (s', Respond rsp msg i)"
      "h_cls (m_header rsp) = SUCCESS_RESPONSE" "get_username (m_attribute_set msg) = Some rfc5769_username"
    using rfc5769_reply by (auto split: prod.splits process_result.splits)
  from server_success_authenticated [OF binary_view_list_view p(1,2)] p show ?thesis
    by (auto simp: rfc5769_server_def add_user_def stateless_def)
qed

text \<open>
  C11.  Address discovery: the success reply to an RFC 5389 request, built with the credential it
  comes with, is read back by the library's parser as a success response with the request's
  identifier, verifies under that credential, and carries, under that identifier, exactly the address
  and the port that the server was given as the source of the request.
\<close>

theorem server_reply_discovers_endpoint:
  assumes "binary_view cv" "map_order ord" "sha1_function (srv_sha1 s)" "address_wf (endpoint_address ep)"
    and "accepted view msg" "\<not> m_is_rfc3489 msg"
    and "success_reply cv s ep msg i = Respond rsp msg' i'" "\<forall>d. i = Some d \<longrightarrow> id_hash d = srv_sha1 s"
    and "message_build cv ord rsp i' = Inr out"
  shows "\<exists>m' a. message_parse cv out st = (st\<lparr>ps_success := ps_success st + 1\<rparr>, Inr m') \<and>
    h_cls (m_header m') = SUCCESS_RESPONSE \<and> h_transaction_id (m_header m') = h_transaction_id (m_header msg) \<and>
    get_xor_mapped (m_attribute_set m') = Some (a, endpoint_port ep) \<and>
    xored_to_address cv a (h_transaction_id (m_header m')) = endpoint_address ep \<and>
    (\<forall>d. i = Some d \<longrightarrow> message_is_valid cv m' out d = Inr (Some True))"
  using success_reply_discovers [OF assms(1-9), of st] by blast

theorem server_reply_discovers_endpoint_witness:
  "\<exists>out m' a. message_parse list_view out zero_stat = (zero_stat\<lparr>ps_success := 1\<rparr>, Inr m')
     \<and> get_xor_mapped (m_attribute_set m') = Some (a, 5000)
     \<and> xored_to_address list_view a (h_transaction_id (m_header m')) = AddressV4 [10, 0, 0, 1]"
proof -
  let ?m = "sample_message\<lparr>m_attribute_set := empty_set\<rparr>"
  have acc: "accepted (sample_head 0) ?m"
    by (simp add: accepted_def sample_message_def interval_ok_def empty_set_def attrs_wf_def get_integrity_def access_def)
  obtain rsp where rsp: "success_reply list_view sample_server sample_endpoint ?m None = Respond rsp ?m None"
    by (simp add: success_reply_def sample_message_def Let_def)
  have z: "ps_success zero_stat = 0" by (simp add: zero_stat_def)
  have ok: "address_wf (endpoint_address sample_endpoint)" "\<not> m_is_rfc3489 ?m" "sha1_function (srv_sha1 sample_server)"
    by (simp_all add: sample_endpoint_def sample_message_def sample_server_def add_user_def stateless_def const.sha1_function_axioms)
  obtain out where out: "message_build list_view rev rsp None = Inr out"
    using binary_view.build_parse_plain [OF binary_view_list_view map_order_rev _
        binary_view.success_reply_buildable [OF binary_view_list_view rsp ok(2,1)]]
      success_reply_header [OF rsp acc ok(2)] by blast
  from server_reply_discovers_endpoint [OF binary_view_list_view map_order_rev ok(3,1) acc ok(2) rsp _ out, of zero_stat] z
  show ?thesis by (auto simp: sample_endpoint_def)
qed

text \<open>
  An unsigned binding request without USERNAME is served by every server, whatever its users: the
  code rejects a request that has exactly one of USERNAME and MESSAGE-INTEGRITY, not one that lacks
  both.
\<close>

theorem server_serves_anonymous:
  assumes "unknown_comprehension_required (m_attribute_set msg) = []"
    "get_username (m_attribute_set msg) = None" "get_integrity (m_attribute_set msg) = None"
    "h_method (m_header msg) = binding_method"
  shows "\<exists>rsp. process_request cv s ep msg view = Respond rsp msg None \<and> h_cls (m_header rsp) = SUCCESS_RESPONSE"
  using assms by (simp add: process_request_def success_reply_def Let_def)

theorem server_serves_anonymous_witness:
  "\<exists>rsp. process_request list_view sample_server sample_endpoint
     (sample_message\<lparr>m_attribute_set := empty_set\<rparr>) [] = Respond rsp (sample_message\<lparr>m_attribute_set := empty_set\<rparr>) None
     \<and> h_cls (m_header rsp) = SUCCESS_RESPONSE"
  by (rule server_serves_anonymous)
    (simp_all add: unknown_comprehension_required_def empty_set_def get_username_def get_integrity_def access_def sample_message_def)

text \<open>
  Registering users one after the other gives each name the password it was first registered
  with; a later registration of the same name is ignored.
\<close>

theorem add_user_first_wins:
  "srv_users (fold (\<lambda>(n, p). add_user n p) us (stateless h settings)) = map_of us"
proof -
  have "srv_users (fold (\<lambda>(n, p). add_user n p) us s) = map_of us ++ srv_users s" for s
  proof (induction us arbitrary: s)
    case (Cons u us)
    then show ?case
      by (cases u) (auto simp: add_user_def fun_eq_iff map_add_def split: option.split)
  qed simp
  then show ?thesis by (simp add: stateless_def)
qed

end
