(* ===== verification/Intrusive_List.thy ===== *)
theory Intrusive_List
  imports Prelude
begin

text \<open>
  The intrusive doubly linked list: \<open>util/util_intrusive_list.hpp\<close>.  Links live in objects of the
  caller and point at each other, so the model has an explicit store from addresses to links; a list
  is the addresses of its two sentinels.  \<open>std::abort\<close> is the result \<open>None\<close>.  The representation
  invariant \<open>dll\<close> relates a store to the sequence of addresses it represents; every operation is
  shown to do to the store what the operation of the same name does to the sequence.
\<close>

section \<open>Links\<close>

type_synonym addr = nat

record 'a link =
  l_owner :: "'a option"
  l_next :: "addr option"
  l_prev :: "addr option"

type_synonym 'a store = "addr \<Rightarrow> 'a link"

definition set_next :: "addr \<Rightarrow> addr option \<Rightarrow> 'a store \<Rightarrow> 'a store" where
  "set_next a v s = s(a := (s a)\<lparr>l_next := v\<rparr>)"

definition set_prev :: "addr \<Rightarrow> addr option \<Rightarrow> 'a store \<Rightarrow> 'a store" where
  "set_prev a v s = s(a := (s a)\<lparr>l_prev := v\<rparr>)"

definition if_some :: "addr option \<Rightarrow> (addr \<Rightarrow> 'a store \<Rightarrow> 'a store) \<Rightarrow> 'a store \<Rightarrow> 'a store" where
  "if_some r f s = (case r of None \<Rightarrow> s | Some a \<Rightarrow> f a s)"

definition link_init :: "addr \<Rightarrow> 'a option \<Rightarrow> 'a store \<Rightarrow> 'a store" where
  "link_init a owner s = s(a := \<lparr>l_owner = owner, l_next = None, l_prev = None\<rparr>)"

definition link_remove :: "addr \<Rightarrow> 'a store \<Rightarrow> 'a store" where
  "link_remove a s =
     (let s = if_some (l_prev (s a)) (\<lambda>prev s. set_next prev (l_next (s a)) s) s;
          s = if_some (l_next (s a)) (\<lambda>nxt s. set_prev nxt (l_prev (s a)) s) s;
          s = set_prev a None s
      in set_next a None s)"

definition place_after :: "addr \<Rightarrow> addr \<Rightarrow> 'a store \<Rightarrow> 'a store" where
  "place_after a t s =
     (let s = link_remove a s;
          s = set_next a (l_next (s t)) s;
          s = set_next t (Some a) s;
          s = set_prev a (Some t) s
      in if_some (l_next (s a)) (\<lambda>nxt s. set_prev nxt (Some a) s) s)"

definition place_before :: "addr \<Rightarrow> addr \<Rightarrow> 'a store \<Rightarrow> 'a store" where
  "place_before a t s =
     (let s = link_remove a s;
          s = set_next a (Some t) s;
          s = set_prev a (l_prev (s t)) s;
          s = set_prev t (Some a) s
      in if_some (l_prev (s a)) (\<lambda>prev s. set_next prev (Some a) s) s)"

definition in_list :: "addr \<Rightarrow> 'a store \<Rightarrow> bool" where
  "in_list a s \<longleftrightarrow> l_next (s a) \<noteq> None \<and> l_prev (s a) \<noteq> None"

definition link_move :: "addr \<Rightarrow> 'a \<Rightarrow> addr \<Rightarrow> 'a store \<Rightarrow> 'a store" where
  \<comment> \<open>the link at \<open>a\<close> is constructed for the owner \<open>t\<close> from the link at \<open>other\<close>\<close>
  "link_move a t other s =
     (let s = s(a := \<lparr>l_owner = Some t, l_next = l_next (s other), l_prev = l_prev (s other)\<rparr>);
          s = if_some (l_prev (s a)) (\<lambda>prev s. set_next prev (Some a) s) s;
          s = if_some (l_next (s a)) (\<lambda>nxt s. set_prev nxt (Some a) s) s;
          s = set_next other None s
      in set_prev other None s)"

section \<open>Lists\<close>

record ilist =
  il_head :: addr
  il_tail :: addr

definition il_new :: "ilist \<Rightarrow> 'a store \<Rightarrow> 'a store" where
  "il_new l s = place_after (il_tail l) (il_head l) (link_init (il_tail l) None (link_init (il_head l) None s))"

definition il_empty :: "ilist \<Rightarrow> 'a store \<Rightarrow> bool option" where
  "il_empty l s = map_option (\<lambda>nxt. nxt = il_tail l) (l_next (s (il_head l)))"

definition push_back :: "ilist \<Rightarrow> addr \<Rightarrow> 'a store \<Rightarrow> 'a store" where
  "push_back l a s = place_before a (il_tail l) s"

definition push_front :: "ilist \<Rightarrow> addr \<Rightarrow> 'a store \<Rightarrow> 'a store" where
  "push_front l a s = place_after a (il_head l) s"

definition pop_front :: "ilist \<Rightarrow> 'a store \<Rightarrow> 'a store option" where
  "pop_front l s =
     (case il_empty l s of
        None \<Rightarrow> None
      | Some True \<Rightarrow> None
      | Some False \<Rightarrow> Some (if_some (l_next (s (il_head l))) link_remove s))"

definition pop_back :: "ilist \<Rightarrow> 'a store \<Rightarrow> 'a store option" where
  "pop_back l s =
     (case il_empty l s of
        None \<Rightarrow> None
      | Some True \<Rightarrow> None
      | Some False \<Rightarrow> Some (if_some (l_prev (s (il_tail l))) link_remove s))"

definition owner_at :: "addr option \<Rightarrow> 'a store \<Rightarrow> 'a option option" where
  \<comment> \<open>\<open>Link::get\<close> of the link a reference points to: aborts without an owner\<close>
  "owner_at r s = (case r of None \<Rightarrow> Some None | Some a \<Rightarrow> map_option Some (l_owner (s a)))"

definition il_front :: "ilist \<Rightarrow> 'a store \<Rightarrow> 'a option option" where
  "il_front l s =
     (case il_empty l s of
        None \<Rightarrow> None
      | Some True \<Rightarrow> Some None
      | Some False \<Rightarrow> owner_at (l_next (s (il_head l))) s)"

definition il_back :: "ilist \<Rightarrow> 'a store \<Rightarrow> 'a option option" where
  "il_back l s =
     (case il_empty l s of
        None \<Rightarrow> None
      | Some True \<Rightarrow> Some None
      | Some False \<Rightarrow> owner_at (l_prev (s (il_tail l))) s)"

partial_function (option) il_clear :: "ilist \<Rightarrow> 'a store \<Rightarrow> 'a store option" where
  [code]: "il_clear l s =
     Option.bind (il_empty l s) (\<lambda>e.
       if e then Some s else Option.bind (pop_front l s) (il_clear l))"

definition do_move :: "ilist \<Rightarrow> ilist \<Rightarrow> 'a store \<Rightarrow> 'a store" where
  "do_move l other s =
     (let s = set_next (il_head l) (l_next (s (il_head other))) s;
          s = if_some (l_next (s (il_head l))) (\<lambda>nxt s. set_prev nxt (Some (il_head l)) s) s;
          s = set_prev (il_tail l) (l_prev (s (il_tail other))) s;
          s = if_some (l_prev (s (il_tail l))) (\<lambda>prev s. set_next prev (Some (il_tail l)) s) s;
          s = set_next (il_head other) None s;
          s = set_prev (il_tail other) None s
      in place_after (il_tail other) (il_head other) s)"

definition il_move_construct :: "ilist \<Rightarrow> ilist \<Rightarrow> 'a store \<Rightarrow> 'a store option" where
  "il_move_construct l other s =
     (let s = link_init (il_tail l) None (link_init (il_head l) None s)
      in Option.bind (il_empty other s) (\<lambda>e.
           if e then Some (place_after (il_tail l) (il_head l) s) else Some (do_move l other s)))"

definition il_move_assign :: "ilist \<Rightarrow> ilist \<Rightarrow> 'a store \<Rightarrow> 'a store option" where
  "il_move_assign l other s =
     (if other = l then Some s
      else Option.bind (il_clear l s) (\<lambda>s.
             Option.bind (il_empty other s) (\<lambda>e. if e then Some s else Some (do_move l other s))))"

section \<open>The representation invariant\<close>

fun linked :: "'a store \<Rightarrow> addr list \<Rightarrow> bool" where
  "linked s (x # y # ns) \<longleftrightarrow> l_next (s x) = Some y \<and> l_prev (s y) = Some x \<and> linked s (y # ns)"
| "linked s _ \<longleftrightarrow> True"

definition dll :: "'a store \<Rightarrow> ilist \<Rightarrow> addr list \<Rightarrow> bool" where
  "dll s l xs \<longleftrightarrow> distinct (il_head l # xs @ [il_tail l]) \<and> linked s (il_head l # xs @ [il_tail l]) \<and>
     l_prev (s (il_head l)) = None \<and> l_next (s (il_tail l)) = None \<and> (\<forall>x \<in> set xs. l_owner (s x) \<noteq> None)"

definition detached :: "'a store \<Rightarrow> addr \<Rightarrow> bool" where
  "detached s a \<longleftrightarrow> l_next (s a) = None \<and> l_prev (s a) = None"

lemma linked_append: "linked s (xs @ x # ys) \<longleftrightarrow> linked s (xs @ [x]) \<and> linked s (x # ys)"
  by (induction xs rule: induct_list012) auto

lemma linked_cong:
  assumes "\<And>x. x \<in> set (butlast ns) \<Longrightarrow> l_next (s' x) = l_next (s x)"
    and "\<And>x. x \<in> set (tl ns) \<Longrightarrow> l_prev (s' x) = l_prev (s x)"
  shows "linked s' ns = linked s ns"
  using assms by (induction ns rule: induct_list012) auto

lemma set_next_simps [simp]:
  "l_next (set_next a v s x) = (if x = a then v else l_next (s x))"
  "l_prev (set_next a v s x) = l_prev (s x)"
  "l_owner (set_next a v s x) = l_owner (s x)"
  by (simp_all add: set_next_def)

lemma set_prev_simps [simp]:
  "l_prev (set_prev a v s x) = (if x = a then v else l_prev (s x))"
  "l_next (set_prev a v s x) = l_next (s x)"
  "l_owner (set_prev a v s x) = l_owner (s x)"
  by (simp_all add: set_prev_def)

lemma if_some_simps [simp]: "if_some None f s = s" "if_some (Some a) f s = f a s"
  by (simp_all add: if_some_def)

lemma in_set_tlD: "x \<in> set (tl xs) \<Longrightarrow> x \<in> set xs"
  by (cases xs) auto

lemma tl_snoc_notin: "n \<notin> set xs \<Longrightarrow> n \<noteq> p \<Longrightarrow> n \<notin> set (tl (xs @ [p]))"
  by (auto dest: in_set_tlD)

text \<open>Taking an inner link out of a linked sequence, and putting a detached one in.\<close>

lemma link_remove_fields:
  assumes "linked s (p # a # n # [])" "distinct [p, a, n]"
  shows "l_next (link_remove a s x) = (if x = p then Some n else if x = a then None else l_next (s x))"
    "l_prev (link_remove a s x) = (if x = n then Some p else if x = a then None else l_prev (s x))"
    "l_owner (link_remove a s x) = l_owner (s x)"
  using assms by (simp_all add: link_remove_def Let_def)

lemma link_remove_detached [simp]:
  assumes "detached s a"
  shows "l_next (link_remove a s x) = l_next (s x)" "l_prev (link_remove a s x) = l_prev (s x)"
    "l_owner (link_remove a s x) = l_owner (s x)"
  using assms by (simp_all add: link_remove_def detached_def Let_def)

lemma linked_remove:
  assumes "linked s (ps @ p # a # n # ns)" "distinct (ps @ p # a # n # ns)"
  shows "linked (link_remove a s) (ps @ p # n # ns)"
proof -
  have "linked s (p # a # n # [])" "distinct [p, a, n]"
    using assms linked_append [of s ps p "a # n # ns"] by auto
  note f = link_remove_fields [OF this]
  have "linked (link_remove a s) (ps @ [p]) = linked s (ps @ [p])"
    using assms(2) by (intro linked_cong) (auto simp: f butlast_append tl_snoc_notin dest: in_set_butlastD)
  moreover have "linked (link_remove a s) (n # ns) = linked s (n # ns)"
    using assms(2) by (intro linked_cong) (auto simp: f dest: in_set_butlastD split: if_splits)
  ultimately show ?thesis using assms(1) linked_append [of s ps p "a # n # ns"]
      linked_append [of "link_remove a s" ps p "n # ns"]
    by (auto simp: f)
qed

lemma linked_insert:
  assumes l: "linked s (ps @ p # n # ns)" and d: "distinct (ps @ p # n # ns)" "a \<notin> set (ps @ p # n # ns)"
    and nx: "\<And>x. l_next (s' x) = (if x = p then Some a else if x = a then Some n else l_next (s x))"
    and pv: "\<And>x. l_prev (s' x) = (if x = n then Some a else if x = a then Some p else l_prev (s x))"
  shows "linked s' (ps @ p # a # n # ns)"
proof -
  have "linked s' (ps @ [p]) = linked s (ps @ [p])"
    using d by (intro linked_cong) (auto simp: nx pv butlast_append tl_snoc_notin dest: in_set_butlastD)
  moreover have "linked s' (n # ns) = linked s (n # ns)"
    using d by (intro linked_cong) (auto simp: nx pv dest: in_set_butlastD split: if_splits)
  ultimately show ?thesis using l d linked_append [of s ps p "n # ns"] linked_append [of s' ps p "a # n # ns"]
    by (auto simp: nx pv)
qed

section \<open>The operations on the represented sequence\<close>

lemma place_before_detached:
  assumes "detached s a" "l_prev (s t) = Some p" "a \<noteq> t" "a \<noteq> p"
  shows "l_next (place_before a t s x) = (if x = p then Some a else if x = a then Some t else l_next (s x))"
    "l_prev (place_before a t s x) = (if x = t then Some a else if x = a then Some p else l_prev (s x))"
    "l_owner (place_before a t s x) = l_owner (s x)"
  using assms by (auto simp: place_before_def Let_def)

lemma place_after_detached:
  assumes "detached s a" "l_next (s t) = Some n" "a \<noteq> t" "a \<noteq> n"
  shows "l_next (place_after a t s x) = (if x = t then Some a else if x = a then Some n else l_next (s x))"
    "l_prev (place_after a t s x) = (if x = n then Some a else if x = a then Some t else l_prev (s x))"
    "l_owner (place_after a t s x) = l_owner (s x)"
  using assms by (auto simp: place_after_def Let_def)

text \<open>A placement first removes the link, so it may start from the store after the removal.\<close>

lemma link_remove_idem: "link_remove a (link_remove a s) = link_remove a s"
proof -
  have "detached (link_remove a s) a" by (auto simp: detached_def link_remove_def Let_def if_some_def split: option.split)
  then show ?thesis
    by (intro ext) (simp add: link.equality)
qed

lemma place_before_remove: "place_before a t s = place_before a t (link_remove a s)"
  by (simp add: place_before_def link_remove_idem)

lemma place_after_remove: "place_after a t s = place_after a t (link_remove a s)"
  by (simp add: place_after_def link_remove_idem)

lemma dll_remove:
  assumes "dll s l xs" "a \<in> set xs"
  shows "dll (link_remove a s) l (remove1 a xs)" "detached (link_remove a s) a"
    "\<And>x. l_owner (link_remove a s x) = l_owner (s x)"
proof -
  obtain ys zs where xs: "xs = ys @ a # zs" "a \<notin> set ys" using assms(2) by (metis split_list_first)
  obtain ps p where p: "il_head l # ys = ps @ [p]" by (metis append_butlast_last_id list.distinct(1))
  obtain n ns where n: "zs @ [il_tail l] = n # ns" by (cases zs) auto
  have all: "il_head l # xs @ [il_tail l] = ps @ p # a # n # ns"
    using p n by (metis append.assoc append_Cons append_Nil xs(1))
  have rest: "il_head l # remove1 a xs @ [il_tail l] = ps @ p # n # ns"
    using p n xs by (metis append.assoc append_Cons append_Nil remove1.simps(2) remove1_append)
  have l: "linked s (ps @ p # a # n # ns)" and d: "distinct (ps @ p # a # n # ns)"
    using assms(1) unfolding dll_def all by auto
  have "linked s (p # a # n # [])" "distinct [p, a, n]" using l d linked_append [of s ps p "a # n # ns"] by auto
  note f = link_remove_fields [OF this]
  have heads: "il_head l \<noteq> a" "il_tail l \<noteq> a" "il_head l \<noteq> n" "il_tail l \<noteq> p"
    using assms(1) xs(1) p n by (auto simp: dll_def Cons_eq_append_conv append_eq_Cons_conv)
  have "set (remove1 a xs) \<subseteq> set xs" by (rule set_remove1_subset)
  then show "dll (link_remove a s) l (remove1 a xs)"
    using linked_remove [OF l d] d assms(1) heads unfolding dll_def rest [symmetric]
    by (auto simp: f rest)
  show "detached (link_remove a s) a" using d by (simp add: detached_def f)
  show "\<And>x. l_owner (link_remove a s x) = l_owner (s x)" by (simp add: f)
qed

lemma dll_insert_back:
  assumes "dll s l xs" "detached s a" "a \<notin> set xs" "a \<noteq> il_head l" "a \<noteq> il_tail l" "l_owner (s a) \<noteq> None"
  shows "dll (place_before a (il_tail l) s) l (xs @ [a])"
proof -
  obtain ps p where p: "il_head l # xs = ps @ [p]" by (metis append_butlast_last_id list.distinct(1))
  have all: "il_head l # xs @ [il_tail l] = ps @ p # il_tail l # []" using p by (metis append_Cons append.assoc append_Nil)
  have l: "linked s (ps @ p # il_tail l # [])" and d: "distinct (ps @ p # il_tail l # [])"
    using assms(1) unfolding dll_def all by auto
  have prev: "l_prev (s (il_tail l)) = Some p" using l linked_append [of s ps p "[il_tail l]"] by simp
  have a: "a \<notin> set (ps @ p # il_tail l # [])" using assms(3-5) unfolding all [symmetric] by auto
  note f = place_before_detached [OF assms(2) prev assms(5)]
  have ap: "a \<noteq> p" using a by auto
  have "linked (place_before a (il_tail l) s) (ps @ p # a # il_tail l # [])"
    by (rule linked_insert [OF l d a]) (use f ap in auto)
  moreover have "il_head l # (xs @ [a]) @ [il_tail l] = ps @ p # a # il_tail l # []"
    using p by (metis append_Cons append.assoc append_Nil)
  ultimately have "linked (place_before a (il_tail l) s) (il_head l # (xs @ [a]) @ [il_tail l])" by (simp only:)
  moreover have "il_head l \<noteq> il_tail l" "il_tail l \<noteq> p" using assms(1) d by (auto simp: dll_def)
  ultimately show ?thesis using assms ap by (auto simp: dll_def f simp del: linked.simps)
qed

lemma dll_insert_front:
  assumes "dll s l xs" "detached s a" "a \<notin> set xs" "a \<noteq> il_head l" "a \<noteq> il_tail l" "l_owner (s a) \<noteq> None"
  shows "dll (place_after a (il_head l) s) l (a # xs)"
proof -
  obtain n ns where n: "xs @ [il_tail l] = n # ns" by (cases xs) auto
  have l: "linked s ([] @ il_head l # n # ns)" and d: "distinct ([] @ il_head l # n # ns)"
    using assms(1) unfolding dll_def n by auto
  have nxt: "l_next (s (il_head l)) = Some n" using l by simp
  have a: "a \<notin> set ([] @ il_head l # n # ns)" using assms(3-5) unfolding n [symmetric] by auto
  note f = place_after_detached [OF assms(2) nxt assms(4)]
  have an: "a \<noteq> n" using a by auto
  have "linked (place_after a (il_head l) s) ([] @ il_head l # a # n # ns)"
    by (rule linked_insert [OF l d a]) (use f an in auto)
  then show ?thesis using assms d a an n unfolding dll_def by (auto simp: f)
qed

definition pushable :: "'a store \<Rightarrow> ilist \<Rightarrow> addr list \<Rightarrow> addr \<Rightarrow> bool" where
  \<comment> \<open>a link of a live object that is in the list or in no list\<close>
  "pushable s l xs a \<longleftrightarrow> (a \<in> set xs \<or> detached s a) \<and> a \<noteq> il_head l \<and> a \<noteq> il_tail l \<and> l_owner (s a) \<noteq> None"

lemma dll_detach:
  assumes "dll s l xs" "pushable s l xs a"
  shows "dll (link_remove a s) l (remove1 a xs)" "detached (link_remove a s) a"
    "l_owner (link_remove a s a) \<noteq> None" "a \<notin> set (remove1 a xs)"
proof -
  have d: "distinct xs" using assms(1) by (simp add: dll_def)
  show "a \<notin> set (remove1 a xs)" using d by simp
  have "dll (link_remove a s) l (remove1 a xs) \<and> detached (link_remove a s) a \<and> l_owner (link_remove a s a) \<noteq> None"
  proof (cases "a \<in> set xs")
    case True
    then show ?thesis using assms dll_remove [OF assms(1) True] by (simp add: pushable_def)
  next
    case False
    then have "detached s a" using assms(2) by (simp add: pushable_def)
    moreover have "link_remove a s = s" using calculation by (intro ext link.equality) simp_all
    ultimately show ?thesis using assms False by (simp add: remove1_idem pushable_def)
  qed
  then show "dll (link_remove a s) l (remove1 a xs)" "detached (link_remove a s) a" "l_owner (link_remove a s a) \<noteq> None"
    by auto
qed

lemma dll_push_back: "dll s l xs \<Longrightarrow> pushable s l xs a \<Longrightarrow> dll (push_back l a s) l (remove1 a xs @ [a])"
  unfolding push_back_def place_before_remove [of a _ s]
  using dll_detach [of s l xs a] by (intro dll_insert_back) (simp_all add: pushable_def)

lemma dll_push_front: "dll s l xs \<Longrightarrow> pushable s l xs a \<Longrightarrow> dll (push_front l a s) l (a # remove1 a xs)"
  unfolding push_front_def place_after_remove [of a _ s]
  using dll_detach [of s l xs a] by (intro dll_insert_front) (simp_all add: pushable_def)

lemma dll_empty: "dll s l xs \<Longrightarrow> il_empty l s = Some (xs = [])"
  by (cases xs) (auto simp: dll_def il_empty_def)

lemma dll_next_head: "dll s l (x # xs) \<Longrightarrow> l_next (s (il_head l)) = Some x"
  by (simp add: dll_def)

lemma dll_prev_tail:
  assumes "dll s l xs" "xs \<noteq> []"
  shows "l_prev (s (il_tail l)) = Some (last xs)"
proof -
  have "il_head l # xs @ [il_tail l] = (il_head l # butlast xs) @ last xs # [il_tail l]" using assms(2) by simp
  then have "linked s ((il_head l # butlast xs) @ last xs # [il_tail l])" using assms(1) unfolding dll_def by metis
  then show ?thesis by (subst (asm) linked_append) simp
qed

lemma dll_pop_front:
  "dll s l (x # xs) \<Longrightarrow> \<exists>s'. pop_front l s = Some s' \<and> dll s' l xs \<and> detached s' x"
  using dll_remove [of s l "x # xs" x] by (simp add: pop_front_def dll_empty dll_next_head)

lemma dll_pop_back:
  assumes "dll s l xs" "xs \<noteq> []"
  shows "\<exists>s'. pop_back l s = Some s' \<and> dll s' l (butlast xs) \<and> detached s' (last xs)"
proof -
  obtain ys y where xs: "xs = ys @ [y]" using assms(2) by (metis append_butlast_last_id)
  then have "y \<notin> set ys" using assms(1) by (auto simp: dll_def)
  then have "remove1 (last xs) xs = butlast xs" using xs by (simp add: remove1_append)
  then show ?thesis using assms dll_remove [of s l xs "last xs"] by (simp add: pop_back_def dll_empty dll_prev_tail)
qed

lemma dll_owner: "dll s l xs \<Longrightarrow> x \<in> set xs \<Longrightarrow> \<exists>t. l_owner (s x) = Some t"
  by (auto simp: dll_def)

lemma dll_front:
  assumes "dll s l xs"
  shows "il_front l s = Some (case xs of [] \<Rightarrow> None | x # _ \<Rightarrow> l_owner (s x))"
proof (cases xs)
  case (Cons x ys)
  then show ?thesis using assms dll_owner [OF assms, of x] dll_next_head [of s l x ys]
    by (auto simp: il_front_def dll_empty owner_at_def)
qed (use assms in \<open>simp add: il_front_def dll_empty\<close>)

lemma dll_back:
  assumes "dll s l xs"
  shows "il_back l s = Some (if xs = [] then None else l_owner (s (last xs)))"
proof (cases "xs = []")
  case False
  then show ?thesis using assms dll_owner [OF assms, of "last xs"] dll_prev_tail [OF assms]
    by (auto simp: il_back_def dll_empty owner_at_def)
qed (use assms in \<open>simp add: il_back_def dll_empty\<close>)

text \<open>Clearing ends, and leaves an empty list and all its links detached.\<close>

lemma dll_clear:
  assumes "dll s l xs"
  shows "\<exists>s'. il_clear l s = Some s' \<and> dll s' l []"
  using assms
proof (induction xs arbitrary: s)
  case Nil
  then show ?case by (subst il_clear.simps) (simp add: dll_empty)
next
  case (Cons x xs)
  obtain s1 where s1: "pop_front l s = Some s1" "dll s1 l xs" using dll_pop_front [OF Cons.prems] by blast
  then show ?case using Cons by (subst il_clear.simps) (simp add: dll_empty)
qed

lemma dll_new: "il_head l \<noteq> il_tail l \<Longrightarrow> dll (il_new l s) l []"
  by (simp add: dll_def il_new_def place_after_def link_remove_def link_init_def Let_def)

lemma dll_in_list:
  assumes "dll s l xs" "a \<in> set xs"
  shows "in_list a s"
proof -
  obtain ys zs where xs: "xs = ys @ a # zs" using assms(2) by (metis split_list)
  obtain ps p where p: "il_head l # ys = ps @ [p]" by (metis append_butlast_last_id list.distinct(1))
  have all: "il_head l # xs @ [il_tail l] = ps @ p # a # zs @ [il_tail l]"
    using p xs by (metis append.assoc append_Cons append_Nil)
  have l: "linked s (ps @ p # a # zs @ [il_tail l])" using assms(1) unfolding dll_def all by blast
  then show ?thesis unfolding in_list_def
    by (subst (asm) linked_append) (cases zs; simp)
qed

text \<open>An object that moves to another address takes its place in the list with it.\<close>

lemma dll_link_move:
  assumes "dll s l (ys @ b # zs)" "a \<notin> set (ys @ b # zs)" "a \<noteq> il_head l" "a \<noteq> il_tail l"
  shows "dll (link_move a t b s) l (ys @ a # zs) \<and> detached (link_move a t b s) b"
proof -
  obtain ps p where p: "il_head l # ys = ps @ [p]" by (metis append_butlast_last_id list.distinct(1))
  obtain n ns where n: "zs @ [il_tail l] = n # ns" by (cases zs) auto
  have all: "il_head l # (ys @ x # zs) @ [il_tail l] = ps @ p # x # n # ns" for x
    using p n by (metis append.assoc append_Cons append_Nil)
  have l: "linked s (ps @ p # b # n # ns)" and d: "distinct (ps @ p # b # n # ns)"
    using assms(1) unfolding dll_def all by auto
  have a: "a \<notin> set (ps @ p # b # n # ns)" using assms(2-4) unfolding all [symmetric] by auto
  have pbn: "l_next (s p) = Some b" "l_prev (s b) = Some p" "l_next (s b) = Some n" "l_prev (s n) = Some b"
    using l linked_append [of s ps p "b # n # ns"] by auto
  let ?s = "link_move a t b s"
  have nx: "l_next (?s x) = (if x = p then Some a else if x = b then None else if x = a then Some n else l_next (s x))"
    and pv: "l_prev (?s x) = (if x = n then Some a else if x = b then None else if x = a then Some p else l_prev (s x))"
    and ow: "l_owner (?s x) = (if x = a then Some t else l_owner (s x))" for x
    using pbn a d by (auto simp: link_move_def Let_def)
  have "linked ?s (ps @ [p]) = linked s (ps @ [p])"
    using d a by (intro linked_cong) (auto simp: nx pv butlast_append tl_snoc_notin dest: in_set_butlastD)
  moreover have "linked ?s (n # ns) = linked s (n # ns)"
    using d a by (intro linked_cong) (auto simp: nx pv dest: in_set_butlastD split: if_splits)
  ultimately have "linked ?s (ps @ p # a # n # ns)"
    using l d a linked_append [of s ps p "b # n # ns"] linked_append [of ?s ps p "a # n # ns"] by (auto simp: nx pv)
  then have "linked ?s (il_head l # (ys @ a # zs) @ [il_tail l])" unfolding all .
  moreover have "il_head l \<noteq> n" "il_tail l \<noteq> p" "il_head l \<noteq> b" "il_tail l \<noteq> b"
    using assms(1) p n by (auto simp: dll_def Cons_eq_append_conv append_eq_Cons_conv)
  ultimately show ?thesis using assms d a
    by (auto simp: dll_def detached_def nx pv ow simp del: linked.simps)
qed

text \<open>Moving a whole list re-targets the two outermost links only.\<close>

lemma linked_between: "xs \<noteq> [] \<Longrightarrow> linked s (h # xs @ [t]) \<longleftrightarrow>
    l_next (s h) = Some (hd xs) \<and> l_prev (s (hd xs)) = Some h \<and> linked s xs \<and>
    l_next (s (last xs)) = Some t \<and> l_prev (s t) = Some (last xs)"
proof -
  assume "xs \<noteq> []"
  then obtain ys y where "xs = ys @ [y]" by (metis append_butlast_last_id)
  moreover from \<open>xs \<noteq> []\<close> obtain z zs where "xs = z # zs" by (cases xs) auto
  ultimately show ?thesis
    using linked_append [of s "h # ys" y "[t]"] by (metis append.assoc append_Cons append_Nil last_snoc linked.simps(1,3) list.sel(1))
qed

lemma place_after_end:
  assumes "detached s a" "l_next (s t) = None" "a \<noteq> t"
  shows "l_next (place_after a t s x) = (if x = t then Some a else l_next (s x))"
    "l_prev (place_after a t s x) = (if x = a then Some t else l_prev (s x))"
    "l_owner (place_after a t s x) = l_owner (s x)"
  using assms by (simp_all add: place_after_def Let_def) (simp add: detached_def)

lemma do_move_fields:
  assumes h: "l_next (s (il_head other)) = Some y" and t: "l_prev (s (il_tail other)) = Some z"
    and e: "l_next (s (il_tail other)) = None"
    and d: "y \<notin> {il_head other, il_tail other, il_head l, il_tail l}" "z \<notin> {il_head other, il_tail other, il_head l, il_tail l}"
      "il_head l \<notin> {il_head other, il_tail other}" "il_tail l \<notin> {il_head other, il_tail other}"
      "il_head other \<noteq> il_tail other" "il_head l \<noteq> il_tail l"
  shows "l_next (do_move l other s x) = (if x = il_head l then Some y else if x = z then Some (il_tail l)
      else if x = il_head other then Some (il_tail other) else l_next (s x))"
    "l_prev (do_move l other s x) = (if x = il_tail l then Some z else if x = y then Some (il_head l)
      else if x = il_tail other then Some (il_head other) else l_prev (s x))"
    "l_owner (do_move l other s x) = l_owner (s x)"
proof -
  define s2 where "s2 = set_prev y (Some (il_head l)) (set_next (il_head l) (Some y) s)"
  define s6 where "s6 = set_prev (il_tail other) None (set_next (il_head other) None
    (set_next z (Some (il_tail l)) (set_prev (il_tail l) (Some z) s2)))"
  have t2: "l_prev (s2 (il_tail other)) = Some z" using t d by (auto simp: s2_def)
  have m: "do_move l other s = place_after (il_tail other) (il_head other) s6"
    unfolding do_move_def Let_def h using t2 by (simp add: s2_def s6_def)
  have "detached s6 (il_tail other)" using e d by (auto simp: detached_def s6_def s2_def)
  moreover have "l_next (s6 (il_head other)) = None" by (simp add: s6_def)
  ultimately have f: "l_next (do_move l other s x) = (if x = il_head other then Some (il_tail other) else l_next (s6 x))"
    "l_prev (do_move l other s x) = (if x = il_tail other then Some (il_head other) else l_prev (s6 x))"
    "l_owner (do_move l other s x) = l_owner (s6 x)"
    unfolding m using d(5) by (simp_all add: place_after_end)
  show "l_next (do_move l other s x) = (if x = il_head l then Some y else if x = z then Some (il_tail l)
      else if x = il_head other then Some (il_tail other) else l_next (s x))"
    unfolding f(1) using d by (simp add: s6_def s2_def)
  show "l_prev (do_move l other s x) = (if x = il_tail l then Some z else if x = y then Some (il_head l)
      else if x = il_tail other then Some (il_head other) else l_prev (s x))"
    unfolding f(2) using d by (simp add: s6_def s2_def)
  show "l_owner (do_move l other s x) = l_owner (s x)"
    unfolding f(3) by (simp add: s6_def s2_def)
qed

lemma distinct_last_butlast: "distinct xs \<Longrightarrow> last xs \<in> set (butlast xs) \<Longrightarrow> False"
  by (cases xs rule: rev_cases) auto

lemma distinct_hd_tl: "distinct xs \<Longrightarrow> hd xs \<in> set (tl xs) \<Longrightarrow> False"
  by (cases xs) auto

lemma do_move_dll:
  assumes o: "dll s other xs" "xs \<noteq> []"
    and l: "l_prev (s (il_head l)) = None" "l_next (s (il_tail l)) = None" "il_head l \<noteq> il_tail l"
      "il_head l \<notin> set (il_head other # xs @ [il_tail other])" "il_tail l \<notin> set (il_head other # xs @ [il_tail other])"
  shows "dll (do_move l other s) l xs \<and> dll (do_move l other s) other []"
proof -
  let ?s = "do_move l other s"
  let ?h = "il_head other" and ?t = "il_tail other"
  have d: "distinct (?h # xs @ [?t])" and lk: "linked s (?h # xs @ [?t])"
    and on: "l_prev (s ?h) = None" "l_next (s ?t) = None"
    using o(1) by (auto simp: dll_def)
  have ends: "l_next (s ?h) = Some (hd xs)" "l_prev (s ?t) = Some (last xs)"
    using lk linked_between [OF o(2)] by blast+
  have mem: "hd xs \<in> set xs" "last xs \<in> set xs" using o(2) by simp_all
  then have neq: "hd xs \<notin> {?h, ?t, il_head l, il_tail l}" "last xs \<notin> {?h, ?t, il_head l, il_tail l}"
    "il_head l \<notin> {?h, ?t}" "il_tail l \<notin> {?h, ?t}" "?h \<noteq> ?t"
    using d l by auto
  note f = do_move_fields [OF ends on(2) neq l(3)]
  have "linked ?s xs = linked s xs"
  proof (rule linked_cong)
    fix x assume "x \<in> set (butlast xs)"
    then have "x \<in> set xs" "x \<noteq> last xs" using d by (auto dest: in_set_butlastD distinct_last_butlast)
    then show "l_next (?s x) = l_next (s x)" using l d by (auto simp: f)
  next
    fix x assume "x \<in> set (tl xs)"
    then have "x \<in> set xs" "x \<noteq> hd xs" using d by (auto dest: in_set_tlD distinct_hd_tl)
    then show "l_prev (?s x) = l_prev (s x)" using l d by (auto simp: f)
  qed
  moreover have "linked s xs" using lk linked_between [OF o(2)] by blast
  ultimately have "linked ?s (il_head l # xs @ [il_tail l])"
    unfolding linked_between [OF o(2)] using neq l(3) by (simp add: f)
  then show ?thesis using d l neq on mem dll_owner [OF o(1)]
    by (auto simp: dll_def f simp del: linked.simps) (simp_all add: f)
qed

section \<open>The interface to clients\<close>

text \<open>
  What a client that keeps its objects in the order of their last use relies on: \<open>touch\<close> moves a
  usable object to the back or appends it, and keeps the others usable.
\<close>

definition touch :: "'k \<Rightarrow> 'k list \<Rightarrow> 'k list" where
  "touch k xs = remove1 k xs @ [k]"

lemma touch_simps: "distinct xs \<Longrightarrow> distinct (touch k xs)" "set (touch k xs) = insert k (set xs)"
proof -
  have "set (remove1 k xs) \<union> {k} = insert k (set xs)"
    by (induction xs) auto
  then show "set (touch k xs) = insert k (set xs)" by (simp add: touch_def)
  show "distinct xs \<Longrightarrow> distinct (touch k xs)" by (simp add: touch_def)
qed

locale recency_list =
  fixes rep :: "'s \<Rightarrow> 'k list \<Rightarrow> bool"
    and usable :: "'s \<Rightarrow> 'k list \<Rightarrow> 'k \<Rightarrow> bool"
    and push :: "'k \<Rightarrow> 's \<Rightarrow> 's"
  assumes push_rep: "rep s xs \<Longrightarrow> usable s xs k \<Longrightarrow> rep (push k s) (touch k xs)"
    and push_usable: "rep s xs \<Longrightarrow> usable s xs k \<Longrightarrow> usable s xs j \<Longrightarrow> usable (push k s) (touch k xs) j"
begin

lemma push_all:
  "rep s xs \<Longrightarrow> \<forall>k \<in> set ks. usable s xs k \<Longrightarrow> rep (fold push ks s) (fold touch ks xs)"
proof (induction ks arbitrary: s xs)
  case (Cons k ks)
  then show ?case using push_rep push_usable by simp
qed simp

end

lemma fold_touch_remdups: "fold touch ks [] = remdups ks"
proof (induction ks rule: rev_induct)
  case (snoc k ks)
  have "remdups (ks @ [k]) = remove1 k (remdups ks) @ [k]"
    by (induction ks) (auto simp: remove1_idem)
  then show ?case using snoc by (simp add: touch_def)
qed simp

lemma push_back_frame:
  assumes "dll s l xs" "pushable s l xs a" "x \<notin> set (il_head l # xs @ [il_tail l])" "x \<noteq> a"
  shows "l_next (push_back l a s x) = l_next (s x)" "l_prev (push_back l a s x) = l_prev (s x)"
    "l_owner (push_back l a s x) = l_owner (s x)"
proof -
  note d = dll_detach [OF assms(1,2)]
  have rem: "l_next (link_remove a s x) = l_next (s x) \<and> l_prev (link_remove a s x) = l_prev (s x)
      \<and> l_owner (link_remove a s x) = l_owner (s x)"
  proof (cases "a \<in> set xs")
    case True
    obtain ys zs where xs: "xs = ys @ a # zs" using True by (metis split_list)
    obtain ps p where p: "il_head l # ys = ps @ [p]" by (metis append_butlast_last_id list.distinct(1))
    obtain n ns where n: "zs @ [il_tail l] = n # ns" by (cases zs) auto
    have all: "il_head l # xs @ [il_tail l] = ps @ p # a # n # ns"
      using p n xs by (metis append.assoc append_Cons append_Nil)
    have "linked s (p # a # n # [])" "distinct [p, a, n]"
      using assms(1) linked_append [of s ps p "a # n # ns"] unfolding dll_def all by auto
    then show ?thesis using assms(3,4) unfolding all by (auto simp: link_remove_fields)
  qed (use assms(2) in \<open>simp add: pushable_def\<close>)
  obtain p where p: "l_prev (link_remove a s (il_tail l)) = Some p" "p \<in> set (il_head l # remove1 a xs)"
  proof (cases "remove1 a xs = []")
    case True
    then show ?thesis using d(1) that by (simp add: dll_def)
  next
    case False
    then show ?thesis using dll_prev_tail [OF d(1)] that last_in_set [OF False] by simp
  qed
  then have "p \<noteq> x" using assms(3) set_remove1_subset [of a xs] by auto
  moreover have "a \<noteq> p" using p(2) d(4) assms(2) by (auto simp: pushable_def)
  ultimately show "l_next (push_back l a s x) = l_next (s x)" "l_prev (push_back l a s x) = l_prev (s x)"
    "l_owner (push_back l a s x) = l_owner (s x)"
    unfolding push_back_def place_before_remove [of a _ s]
    using rem place_before_detached [OF d(2) p(1)] assms(2-4) by (auto simp: pushable_def)
qed

lemma push_back_usable:
  assumes "dll s l xs" "pushable s l xs a" "pushable s l xs b"
  shows "pushable (push_back l a s) l (touch a xs) b"
proof (cases "b = a \<or> b \<in> set xs")
  case True
  then have "b \<in> set (touch a xs)" by (auto simp: touch_simps)
  moreover have "l_owner (push_back l a s b) \<noteq> None"
    using dll_push_back [OF assms(1,2)] \<open>b \<in> set (touch a xs)\<close> by (auto simp: dll_def touch_def)
  ultimately show ?thesis using assms(3) by (simp add: pushable_def)
next
  case False
  then show ?thesis using assms push_back_frame [OF assms(1,2), of b]
    by (auto simp: pushable_def detached_def)
qed

interpretation links: recency_list "\<lambda>s. dll s l" "\<lambda>s. pushable s l" "push_back l" for l :: ilist
  by unfold_locales (auto simp: touch_def [symmetric] intro: dll_push_back [folded touch_def] push_back_usable)

interpretation keys: recency_list "\<lambda>s xs. s = xs \<and> distinct xs" "\<lambda>_ _ _. True" touch
  by unfold_locales (auto simp: touch_simps)

section \<open>Properties\<close>

text \<open>
  Pushing any sequence of live, free links onto a new list, with repetitions, gives a well-formed
  doubly linked list that holds each link once, in the order of the last push; its front is the least
  recently pushed object, and clearing it ends with an empty list.
\<close>

theorem push_back_keeps_recency_order:
  assumes "il_head l \<noteq> il_tail l" "\<forall>k \<in> set ks. pushable (il_new l s) l [] k"
  shows "dll (fold (push_back l) ks (il_new l s)) l (remdups ks)
    \<and> il_front l (fold (push_back l) ks (il_new l s))
        = Some (case remdups ks of [] \<Rightarrow> None | x # _ \<Rightarrow> l_owner (fold (push_back l) ks (il_new l s) x))
    \<and> (\<exists>s'. il_clear l (fold (push_back l) ks (il_new l s)) = Some s' \<and> dll s' l [])"
proof -
  have "dll (fold (push_back l) ks (il_new l s)) l (remdups ks)"
    using links.push_all [OF dll_new [OF assms(1)] assms(2)] by (simp add: fold_touch_remdups)
  then show ?thesis using dll_front dll_clear by blast
qed

definition sample_store :: "nat store" where
  "sample_store = (\<lambda>a. \<lparr>l_owner = Some a, l_next = None, l_prev = None\<rparr>)"

theorem push_back_keeps_recency_order_witness:
  "il_front \<lparr>il_head = 100, il_tail = 101\<rparr>
     (fold (push_back \<lparr>il_head = 100, il_tail = 101\<rparr>) [1, 2, 3, 1] (il_new \<lparr>il_head = 100, il_tail = 101\<rparr> sample_store))
   = Some (l_owner (fold (push_back \<lparr>il_head = 100, il_tail = 101\<rparr>) [1, 2, 3, 1]
       (il_new \<lparr>il_head = 100, il_tail = 101\<rparr> sample_store) 2))"
proof -
  let ?l = "\<lparr>il_head = 100, il_tail = 101\<rparr>"
  have "pushable (il_new ?l sample_store) ?l [] k" if "k \<in> {1, 2, 3}" for k
    using that by (auto simp: pushable_def detached_def il_new_def place_after_def link_remove_def link_init_def
        sample_store_def set_next_def set_prev_def Let_def)
  then show ?thesis using push_back_keeps_recency_order [of ?l "[1, 2, 3, 1]" sample_store] by simp
qed

text \<open>
  C15.  The pointer operations do to a list that represents the sequence \<open>xs\<close> what the operations of the same
  name do to sequences: pushing the link of a live object at either end (first taking it out of the
  list, if it is in it), removing a link, popping at either end, which aborts exactly on the empty
  list, clearing, reading either end, and the tests for emptiness and membership.
\<close>

theorem intrusive_list_refines_sequence:
  assumes "dll s l xs"
  shows "(\<forall>a. pushable s l xs a \<longrightarrow> dll (push_back l a s) l (remove1 a xs @ [a]) \<and> dll (push_front l a s) l (a # remove1 a xs)
        \<and> in_list a (push_back l a s) \<and> in_list a (push_front l a s))
    \<and> (\<forall>a \<in> set xs. dll (link_remove a s) l (remove1 a xs) \<and> in_list a s \<and> \<not> in_list a (link_remove a s))
    \<and> (case pop_front l s of None \<Rightarrow> xs = [] | Some s' \<Rightarrow> xs \<noteq> [] \<and> dll s' l (tl xs) \<and> \<not> in_list (hd xs) s')
    \<and> (case pop_back l s of None \<Rightarrow> xs = [] | Some s' \<Rightarrow> xs \<noteq> [] \<and> dll s' l (butlast xs) \<and> \<not> in_list (last xs) s')
    \<and> (\<exists>s'. il_clear l s = Some s' \<and> dll s' l [])
    \<and> il_empty l s = Some (xs = [])
    \<and> il_front l s = Some (case xs of [] \<Rightarrow> None | x # _ \<Rightarrow> l_owner (s x))
    \<and> il_back l s = Some (if xs = [] then None else l_owner (s (last xs)))"
proof (intro conjI allI ballI impI)
  show "dll (push_back l a s) l (remove1 a xs @ [a])" "dll (push_front l a s) l (a # remove1 a xs)"
    "in_list a (push_back l a s)" "in_list a (push_front l a s)" if "pushable s l xs a" for a
    using dll_push_back [OF assms that] dll_push_front [OF assms that]
      dll_in_list [OF dll_push_back [OF assms that], of a] dll_in_list [OF dll_push_front [OF assms that], of a] by simp_all
  show "case pop_front l s of None \<Rightarrow> xs = [] | Some s' \<Rightarrow> xs \<noteq> [] \<and> dll s' l (tl xs) \<and> \<not> in_list (hd xs) s'"
  proof (cases xs)
    case (Cons x ys)
    then show ?thesis using dll_pop_front [of s l x ys] assms by (auto simp: in_list_def detached_def)
  qed (use assms in \<open>simp add: pop_front_def dll_empty\<close>)
  show "case pop_back l s of None \<Rightarrow> xs = [] | Some s' \<Rightarrow> xs \<noteq> [] \<and> dll s' l (butlast xs) \<and> \<not> in_list (last xs) s'"
    using dll_pop_back [OF assms] assms by (cases "xs = []") (auto simp: pop_back_def dll_empty in_list_def detached_def)
  show "\<not> in_list a (link_remove a s)" if "a \<in> set xs" for a
    using dll_remove(2) [OF assms that] by (simp add: in_list_def detached_def)
  show "dll (link_remove a s) l (remove1 a xs)" "in_list a s" if "a \<in> set xs" for a
    using dll_remove(1) [OF assms that] dll_in_list [OF assms that] .
  show "\<exists>s'. il_clear l s = Some s' \<and> dll s' l []" using assms by (rule dll_clear)
  show "il_empty l s = Some (xs = [])" using assms by (rule dll_empty)
  show "il_front l s = Some (case xs of [] \<Rightarrow> None | x # _ \<Rightarrow> l_owner (s x))" using assms by (rule dll_front)
  show "il_back l s = Some (if xs = [] then None else l_owner (s (last xs)))" using assms by (rule dll_back)
qed

theorem intrusive_list_refines_sequence_witness:
  "dll (push_back \<lparr>il_head = 100, il_tail = 101\<rparr> 7 (il_new \<lparr>il_head = 100, il_tail = 101\<rparr> sample_store))
     \<lparr>il_head = 100, il_tail = 101\<rparr> [7]
   \<and> in_list 7 (push_back \<lparr>il_head = 100, il_tail = 101\<rparr> 7 (il_new \<lparr>il_head = 100, il_tail = 101\<rparr> sample_store))"
proof -
  let ?l = "\<lparr>il_head = 100, il_tail = 101\<rparr>"
  have "pushable (il_new ?l sample_store) ?l [] 7"
    by (auto simp: pushable_def detached_def il_new_def place_after_def link_remove_def link_init_def
        sample_store_def set_next_def set_prev_def Let_def)
  moreover have "dll (il_new ?l sample_store) ?l []" by (rule dll_new) simp
  ultimately show ?thesis using intrusive_list_refines_sequence [of "il_new ?l sample_store" ?l "[]"] by simp
qed

text \<open>
  Moves: a list constructed or assigned from another one represents what the other represented
  and leaves it empty; an object that is moved to a new address keeps its place in the list.
\<close>

theorem intrusive_list_moves:
  assumes "dll s l []" "dll s other xs"
    "set [il_head l, il_tail l] \<inter> set (il_head other # xs @ [il_tail other]) = {}"
  shows "(\<exists>s'. il_move_assign l other s = Some s' \<and> dll s' l xs \<and> dll s' other [])
    \<and> (\<forall>ys b zs a t. xs = ys @ b # zs \<longrightarrow> a \<notin> set (il_head other # xs @ [il_tail other]) \<longrightarrow>
        dll (link_move a t b s) other (ys @ a # zs) \<and> detached (link_move a t b s) b)"
proof -
  have "other \<noteq> l" using assms(3) by auto
  moreover have "il_clear l s = Some s" using assms(1) by (subst il_clear.simps) (simp add: dll_empty)
  moreover have "xs \<noteq> [] \<Longrightarrow> dll (do_move l other s) l xs \<and> dll (do_move l other s) other []"
    using assms by (intro do_move_dll) (auto simp: dll_def)
  ultimately have "\<exists>s'. il_move_assign l other s = Some s' \<and> dll s' l xs \<and> dll s' other []"
    using assms(1,2) by (cases "xs = []") (simp_all add: il_move_assign_def dll_empty)
  moreover have "dll (link_move a t b s) other (ys @ a # zs) \<and> detached (link_move a t b s) b"
    if "xs = ys @ b # zs" "a \<notin> set (il_head other # xs @ [il_tail other])" for ys b zs a t
    using that assms(2) by (intro dll_link_move) auto
  ultimately show ?thesis by blast
qed

theorem intrusive_list_moves_witness:
  "\<exists>(s :: nat store) s'. dll s \<lparr>il_head = 100, il_tail = 101\<rparr> [] \<and> dll s \<lparr>il_head = 200, il_tail = 201\<rparr> [7]
     \<and> il_move_assign \<lparr>il_head = 100, il_tail = 101\<rparr> \<lparr>il_head = 200, il_tail = 201\<rparr> s = Some s'
     \<and> dll s' \<lparr>il_head = 100, il_tail = 101\<rparr> [7]"
proof -
  let ?l = "\<lparr>il_head = 100, il_tail = 101\<rparr>" and ?o = "\<lparr>il_head = 200, il_tail = 201\<rparr>"
  let ?s = "il_new ?l (push_back ?o 7 (il_new ?o sample_store))"
  have l: "dll ?s ?l []" by (rule dll_new) simp
  have o: "dll ?s ?o [7]"
    by (simp add: dll_def push_back_def place_before_def il_new_def place_after_def link_remove_def link_init_def
        sample_store_def set_next_def set_prev_def Let_def)
  have "set [il_head ?l, il_tail ?l] \<inter> set (il_head ?o # [7] @ [il_tail ?o]) = {}" by simp
  from intrusive_list_moves [OF l o this, THEN conjunct1] obtain s' where
    "il_move_assign ?l ?o ?s = Some s'" "dll s' ?l [7]" by (elim exE conjE)
  with l o show ?thesis by (intro exI [of _ ?s] exI [of _ s'] conjI)
qed

end
