(* ===== verification/Stun_Rto.thy ===== *)
theory Stun_Rto
  imports Clock Net Intrusive_List "HOL-Library.Signed_Division"
begin

text \<open>
  The calculator of the initial retransmission timeout: \<open>stun/details/stun_client_udp_rto.cpp\<close> and
  its header.  Per network path it keeps the smoothed round-trip time of RFC 6298 or, after a
  retransmission, the last back-off (Karn's algorithm); paths that were not used for a while are
  forgotten.  The objects of the hash map are the elements of the intrusive list, so the timeline is
  the list of their keys: \<open>touch\<close> is \<open>push_back\<close> by the refinement in \<open>Intrusive_List\<close>, and erasing
  an object unlinks it.  Divisions of durations truncate, as in C++.
\<close>

section \<open>State and operations\<close>

record smooth_vals =
  sv_srtt :: duration
  sv_rttvar :: duration

record rto_data =
  rd_path :: path
  rd_last_update :: timepoint
  rd_smooth :: "smooth_vals option"
  rd_backoff :: "duration option"

record rto_settings =
  rs_initial_rto :: duration
  rs_history_duration :: duration

record rto_calc =
  rc_settings :: rto_settings
  rc_by_path :: "path \<rightharpoonup> rto_data"
  rc_timeline :: "path list"

definition default_rto_settings :: rto_settings where
  "default_rto_settings = \<lparr>rs_initial_rto = 500 * 1000, rs_history_duration = 3600 * 1000 * 1000\<rparr>"

definition rto_calc_new :: "rto_settings \<Rightarrow> rto_calc" where
  "rto_calc_new settings = \<lparr>rc_settings = settings, rc_by_path = Map.empty, rc_timeline = []\<rparr>"

definition rto :: "path \<Rightarrow> rto_calc \<Rightarrow> duration" where
  "rto path c =
     (case rc_by_path c path of
        None \<Rightarrow> rs_initial_rto (rc_settings c)
      | Some dat \<Rightarrow>
          (case rd_backoff dat of
             Some b \<Rightarrow> b
           | None \<Rightarrow>
               (case rd_smooth dat of
                  Some s \<Rightarrow> sv_srtt s + 4 * sv_rttvar s
                | None \<Rightarrow> rs_initial_rto (rc_settings c))))"

fun clear_outdated_loop ::
    "duration \<Rightarrow> timepoint \<Rightarrow> (path \<rightharpoonup> rto_data) \<Rightarrow> path list \<Rightarrow> (path \<rightharpoonup> rto_data) \<times> path list" where
  "clear_outdated_loop hist now m [] = (m, [])"
| "clear_outdated_loop hist now m (front # ps) =
     (case m front of
        None \<Rightarrow> (m, front # ps)
      | Some dat \<Rightarrow>
          (if tp_minus now (rd_last_update dat) > hist
           then clear_outdated_loop hist now (m(front := None)) ps
           else (m, front # ps)))"

definition clear_outdated :: "timepoint \<Rightarrow> rto_calc \<Rightarrow> rto_calc" where
  "clear_outdated now c =
     (let (m, tml) = clear_outdated_loop (rs_history_duration (rc_settings c)) now (rc_by_path c) (rc_timeline c)
      in c\<lparr>rc_by_path := m, rc_timeline := tml\<rparr>)"

definition smooth_update :: "duration \<Rightarrow> smooth_vals \<Rightarrow> smooth_vals" where
  "smooth_update rtt s =
     (let srtt_delta = sv_srtt s - rtt;
          srtt_delta = (if srtt_delta < 0 then - srtt_delta else srtt_delta);
          rttvar = ((4 - 1) * sv_rttvar s + 1 * srtt_delta) sdiv 4;
          srtt = ((8 - 1) * sv_srtt s + 1 * rtt) sdiv 8
      in \<lparr>sv_srtt = srtt, sv_rttvar = rttvar\<rparr>)"

definition rtt_update :: "duration \<Rightarrow> rto_data \<Rightarrow> rto_data" where
  "rtt_update rtt dat = dat\<lparr>rd_backoff := None,
     rd_smooth := Some (case rd_smooth dat of
                          Some s \<Rightarrow> smooth_update rtt s
                        | None \<Rightarrow> \<lparr>sv_srtt = rtt, sv_rttvar = rtt sdiv 2\<rparr>)\<rparr>"

text \<open>The two constructors of \<open>Data\<close>.\<close>

definition data_new :: "path \<Rightarrow> timepoint \<Rightarrow> rto_data" where
  [simp]: "data_new p now = \<lparr>rd_path = p, rd_last_update = now, rd_smooth = None, rd_backoff = None\<rparr>"

definition data_new_backoff :: "path \<Rightarrow> timepoint \<Rightarrow> duration \<Rightarrow> rto_data" where
  [simp]: "data_new_backoff p now b = \<lparr>rd_path = p, rd_last_update = now, rd_smooth = None, rd_backoff = Some b\<rparr>"

definition new_rtt :: "timepoint \<Rightarrow> path \<Rightarrow> duration \<Rightarrow> rto_calc \<Rightarrow> rto_calc" where
  "new_rtt now path rtt c =
     (let dat = (case rc_by_path c path of
                   Some dat \<Rightarrow> dat
                 | None \<Rightarrow> data_new path now);
          dat = dat\<lparr>rd_last_update := now\<rparr>;
          c = c\<lparr>rc_by_path := (rc_by_path c)(path \<mapsto> dat), rc_timeline := touch path (rc_timeline c)\<rparr>;
          c = clear_outdated now c
      in c\<lparr>rc_by_path := (rc_by_path c)(path := map_option (rtt_update rtt) (rc_by_path c path))\<rparr>)"

definition backoff :: "timepoint \<Rightarrow> path \<Rightarrow> duration \<Rightarrow> rto_calc \<Rightarrow> rto_calc" where
  "backoff now path b c =
     (case rc_by_path c path of
        None \<Rightarrow>
          c\<lparr>rc_by_path := (rc_by_path c)(path \<mapsto> data_new_backoff path now b),
            rc_timeline := touch path (rc_timeline c)\<rparr>
      | Some dat \<Rightarrow>
          clear_outdated now
            (c\<lparr>rc_by_path := (rc_by_path c)(path \<mapsto> dat\<lparr>rd_last_update := now, rd_backoff := Some b\<rparr>),
               rc_timeline := touch path (rc_timeline c)\<rparr>))"

section \<open>The invariant\<close>

definition rto_inv :: "rto_calc \<Rightarrow> bool" where
  "rto_inv c \<longleftrightarrow> distinct (rc_timeline c) \<and> set (rc_timeline c) = dom (rc_by_path c) \<and>
     (\<forall>p dat. rc_by_path c p = Some dat \<longrightarrow> rd_path dat = p)"

lemma rto_inv_new: "rto_inv (rto_calc_new settings)"
  by (simp add: rto_inv_def rto_calc_new_def)

lemma clear_loop_result:
  assumes "clear_outdated_loop hist now m tml = (m', tml')" "distinct tml" "set tml = dom m"
  shows "\<exists>pre. tml = pre @ tml' \<and> m' = m |` (- set pre) \<and>
    (\<forall>p \<in> set pre. \<exists>dat. m p = Some dat \<and> hist < tp_minus now (rd_last_update dat)) \<and>
    (\<forall>p ps. tml' = p # ps \<longrightarrow> (\<exists>dat. m p = Some dat \<and> tp_minus now (rd_last_update dat) \<le> hist))"
  using assms
proof (induction hist now m tml rule: clear_outdated_loop.induct)
  case (1 hist now m)
  then show ?case by (auto simp: restrict_map_def)
next
  case (2 hist now m front ps)
  obtain dat where dat: "m front = Some dat" using 2(4) by auto
  show ?case
  proof (cases "tp_minus now (rd_last_update dat) > hist")
    case True
    have "set ps = dom (m(front := None))" "distinct ps" using 2(3,4) by auto
    moreover have "clear_outdated_loop hist now (m(front := None)) ps = (m', tml')" using 2(2) dat True by simp
    ultimately obtain pre where pre: "ps = pre @ tml'" "m' = (m(front := None)) |` (- set pre)"
      "\<forall>p \<in> set pre. \<exists>dat. (m(front := None)) p = Some dat \<and> hist < tp_minus now (rd_last_update dat)"
      "\<forall>p ps. tml' = p # ps \<longrightarrow> (\<exists>dat. (m(front := None)) p = Some dat \<and> tp_minus now (rd_last_update dat) \<le> hist)"
      using 2(1) [OF dat True] by blast
    have nf: "front \<notin> set pre" "front \<notin> set tml'" using 2(3) pre(1) by auto
    have "m' = m |` (- set (front # pre))" using pre(2) by (auto simp: restrict_map_def fun_eq_iff)
    then show ?thesis using pre nf dat True
      by (intro exI [of _ "front # pre"]) (auto split: if_splits)
  next
    case False
    then show ?thesis using 2(2) dat by (intro exI [of _ "[]"]) (auto simp: restrict_map_def)
  qed
qed

lemma clear_outdated_spec:
  assumes "rto_inv c"
  obtains pre where "rc_timeline c = pre @ rc_timeline (clear_outdated now c)"
    "rc_by_path (clear_outdated now c) = rc_by_path c |` (- set pre)"
    "\<forall>p \<in> set pre. \<exists>dat. rc_by_path c p = Some dat \<and> rs_history_duration (rc_settings c) < tp_minus now (rd_last_update dat)"
    "rc_settings (clear_outdated now c) = rc_settings c" "rto_inv (clear_outdated now c)"
    "\<forall>p ps. rc_timeline (clear_outdated now c) = p # ps \<longrightarrow>
       (\<exists>dat. rc_by_path c p = Some dat \<and> tp_minus now (rd_last_update dat) \<le> rs_history_duration (rc_settings c))"
proof -
  obtain m tml where r: "clear_outdated_loop (rs_history_duration (rc_settings c)) now (rc_by_path c) (rc_timeline c) = (m, tml)"
    by force
  have f: "rc_by_path (clear_outdated now c) = m" "rc_timeline (clear_outdated now c) = tml"
    "rc_settings (clear_outdated now c) = rc_settings c"
    by (simp_all add: clear_outdated_def r)
  obtain pre where pre: "rc_timeline c = pre @ tml" "m = rc_by_path c |` (- set pre)"
    "\<forall>p \<in> set pre. \<exists>dat. rc_by_path c p = Some dat \<and> rs_history_duration (rc_settings c) < tp_minus now (rd_last_update dat)"
    "\<forall>p ps. tml = p # ps \<longrightarrow> (\<exists>dat. rc_by_path c p = Some dat \<and> tp_minus now (rd_last_update dat) \<le> rs_history_duration (rc_settings c))"
    using clear_loop_result [OF r] assms by (auto simp: rto_inv_def)
  have "distinct (pre @ tml)" "set pre \<union> set tml = dom (rc_by_path c)"
    using assms pre(1) by (auto simp: rto_inv_def)
  then have "distinct tml" "set tml = dom m" unfolding pre(2) dom_restrict by auto
  moreover have "\<forall>p dat. m p = Some dat \<longrightarrow> rd_path dat = p"
    using assms pre(2) by (auto simp: rto_inv_def restrict_map_def split: if_splits)
  ultimately show ?thesis using that f pre by (auto simp: rto_inv_def)
qed

lemma touch_last: "\<exists>ys. touch p xs = ys @ [p]"
  by (simp add: touch_def)

lemma rto_inv_touch:
  assumes "rto_inv c" "rd_path dat = p"
  shows "rto_inv (c\<lparr>rc_by_path := (rc_by_path c)(p \<mapsto> dat), rc_timeline := touch p (rc_timeline c)\<rparr>)"
  using assms by (auto simp: rto_inv_def touch_simps)

text \<open>The path that was just used survives the clearing, if the history is not negative.\<close>

lemma clear_keeps_touched:
  assumes "rto_inv c" "rc_by_path c p = Some dat" "rd_last_update dat = now" "0 \<le> rs_history_duration (rc_settings c)"
  shows "rc_by_path (clear_outdated now c) p = Some dat"
proof -
  obtain pre where pre: "rc_by_path (clear_outdated now c) = rc_by_path c |` (- set pre)"
    "\<forall>q \<in> set pre. \<exists>d. rc_by_path c q = Some d \<and> rs_history_duration (rc_settings c) < tp_minus now (rd_last_update d)"
    using clear_outdated_spec [OF assms(1), of now] by metis
  have "p \<notin> set pre" using pre(2) assms by (auto simp: tp_minus_eq)
  then show ?thesis using pre(1) assms(2) by simp
qed

lemma rto_inv_fmap:
  assumes "rto_inv c" "\<And>d. rd_path (f d) = rd_path d"
  shows "rto_inv (c\<lparr>rc_by_path := (rc_by_path c)(p := map_option f (rc_by_path c p))\<rparr>)"
  using assms by (auto simp: rto_inv_def)

lemma clear_outdated_inv: "rto_inv c \<Longrightarrow> rto_inv (clear_outdated now c)"
  using clear_outdated_spec by metis

lemma rto_inv_ops:
  assumes "rto_inv c"
  shows "rto_inv (new_rtt now p rtt c)" "rto_inv (backoff now p b c)"
proof -
  let ?d = "(case rc_by_path c p of Some dat \<Rightarrow> dat
      | None \<Rightarrow> data_new p now)\<lparr>rd_last_update := now\<rparr>"
  have "rd_path ?d = p" using assms by (auto simp: rto_inv_def split: option.split)
  from clear_outdated_inv [OF rto_inv_touch [OF assms this]]
  show "rto_inv (new_rtt now p rtt c)"
    unfolding new_rtt_def Let_def by (rule rto_inv_fmap) (simp add: rtt_update_def)
  show "rto_inv (backoff now p b c)"
    using assms by (auto simp: backoff_def split: option.split intro!: clear_outdated_inv rto_inv_touch)
      (simp add: rto_inv_def)
qed

lemma settings_ops [simp]:
  "rc_settings (new_rtt now p rtt c) = rc_settings c" "rc_settings (backoff now p b c) = rc_settings c"
  by (simp_all add: new_rtt_def backoff_def Let_def clear_outdated_def split_beta split: option.split)

text \<open>The effect of the two updates on the path itself.\<close>

lemma new_rtt_lookup:
  assumes "rto_inv c" "0 \<le> rs_history_duration (rc_settings c)"
  shows "\<exists>d. rc_by_path (new_rtt now p rtt c) p = Some d \<and> rd_backoff d = None \<and> rd_last_update d = now \<and>
    rd_smooth d = Some (case Option.bind (rc_by_path c p) rd_smooth of
      Some s \<Rightarrow> smooth_update rtt s | None \<Rightarrow> \<lparr>sv_srtt = rtt, sv_rttvar = rtt sdiv 2\<rparr>)"
proof -
  let ?d = "(case rc_by_path c p of Some dat \<Rightarrow> dat
      | None \<Rightarrow> data_new p now)\<lparr>rd_last_update := now\<rparr>"
  let ?c = "c\<lparr>rc_by_path := (rc_by_path c)(p \<mapsto> ?d), rc_timeline := touch p (rc_timeline c)\<rparr>"
  have "rd_path ?d = p" using assms(1) by (auto simp: rto_inv_def split: option.split)
  from clear_keeps_touched [OF rto_inv_touch [OF assms(1) this], of p ?d now]
  have "rc_by_path (clear_outdated now ?c) p = Some ?d" using assms(2) by simp
  then show ?thesis
    unfolding new_rtt_def Let_def by (cases "rc_by_path c p") (auto simp: rtt_update_def)
qed

lemma backoff_lookup:
  assumes "rto_inv c" "0 \<le> rs_history_duration (rc_settings c)"
  shows "\<exists>d. rc_by_path (backoff now p b c) p = Some d \<and> rd_backoff d = Some b \<and> rd_last_update d = now \<and>
    rd_smooth d = Option.bind (rc_by_path c p) rd_smooth"
proof (cases "rc_by_path c p")
  case (Some dat)
  let ?d = "dat\<lparr>rd_last_update := now, rd_backoff := Some b\<rparr>"
  let ?c = "c\<lparr>rc_by_path := (rc_by_path c)(p \<mapsto> ?d), rc_timeline := touch p (rc_timeline c)\<rparr>"
  have "rd_path ?d = p" using assms(1) Some by (auto simp: rto_inv_def)
  from clear_keeps_touched [OF rto_inv_touch [OF assms(1) this], of p ?d now] show ?thesis
    using assms(2) Some by (simp add: backoff_def)
qed (simp add: backoff_def)

section \<open>Bounds on the estimate\<close>

definition smooth_ok :: "duration \<Rightarrow> duration \<Rightarrow> smooth_vals \<Rightarrow> bool" where
  "smooth_ok lo hi s \<longleftrightarrow> lo \<le> sv_srtt s \<and> sv_srtt s \<le> hi \<and> 0 \<le> sv_rttvar s \<and> sv_rttvar s \<le> max (hi - lo) (hi div 2)"

lemma sdiv_nonneg: "0 \<le> a \<Longrightarrow> 0 < b \<Longrightarrow> a sdiv b = a div (b :: int)"
  by (cases "a = 0") (simp_all add: signed_divide_int_def)

lemma smooth_first: "0 \<le> lo \<Longrightarrow> lo \<le> r \<Longrightarrow> r \<le> hi \<Longrightarrow> smooth_ok lo hi \<lparr>sv_srtt = r, sv_rttvar = r sdiv 2\<rparr>"
  by (simp add: smooth_ok_def sdiv_nonneg le_max_iff_disj zdiv_mono1)

lemma smooth_update_ok:
  assumes "0 \<le> lo" "lo \<le> r" "r \<le> hi" "smooth_ok lo hi s"
  shows "smooth_ok lo hi (smooth_update r s)"
proof -
  define d where "d = (if sv_srtt s - r < 0 then - (sv_srtt s - r) else sv_srtt s - r)"
  let ?v = "sv_rttvar s" and ?m = "sv_srtt s"
  have m: "lo \<le> ?m" "?m \<le> hi" and v: "0 \<le> ?v" "?v \<le> max (hi - lo) (hi div 2)" using assms(4) by (auto simp: smooth_ok_def)
  have d: "0 \<le> d" "d \<le> max (hi - lo) (hi div 2)" using assms m by (auto simp: d_def)
  have "smooth_update r s = \<lparr>sv_srtt = (7 * ?m + r) div 8, sv_rttvar = (3 * ?v + d) div 4\<rparr>"
    using assms m v d by (simp add: smooth_update_def Let_def sdiv_nonneg) (simp add: d_def)
  moreover have "lo \<le> (7 * ?m + r) div 8" "(7 * ?m + r) div 8 \<le> hi" using assms m by linarith+
  moreover have "0 \<le> (3 * ?v + d) div 4" "(3 * ?v + d) div 4 \<le> max (hi - lo) (hi div 2)" using v d by linarith+
  ultimately show ?thesis by (simp add: smooth_ok_def)
qed

section \<open>Events\<close>

datatype rto_event = Rtt timepoint path duration | Backoff timepoint path duration

fun rto_event_step :: "rto_event \<Rightarrow> rto_calc \<Rightarrow> rto_calc" where
  "rto_event_step (Rtt now p r) c = new_rtt now p r c"
| "rto_event_step (Backoff now p b) c = backoff now p b c"

lemma rto_event_settings [simp]: "rc_settings (rto_event_step e c) = rc_settings c"
  by (cases e) simp_all

definition sample_ok :: "duration \<Rightarrow> duration \<Rightarrow> rto_event \<Rightarrow> bool" where
  "sample_ok lo hi e \<longleftrightarrow> (\<forall>now p r. e = Rtt now p r \<longrightarrow> lo \<le> r \<and> r \<le> hi)"

fun ev_time :: "rto_event \<Rightarrow> timepoint" where
  "ev_time (Rtt now p r) = now" | "ev_time (Backoff now p b) = now"

fun ev_path :: "rto_event \<Rightarrow> path" where
  "ev_path (Rtt now p r) = p" | "ev_path (Backoff now p b) = p"

definition on_path :: "path \<Rightarrow> rto_event list \<Rightarrow> rto_event list" where
  "on_path p es = filter (\<lambda>e. ev_path e = p) es"

fun samples :: "rto_event list \<Rightarrow> duration list" where
  "samples [] = []"
| "samples (Rtt _ _ r # es) = r # samples es"
| "samples (Backoff _ _ _ # es) = samples es"

text \<open>
  The reference: what the timeout of one path should be after its events.  RFC 6298 2.2 and 2.3 for the
  samples (with the gains 1/8 and 1/4 and integer durations), Karn's algorithm for the back-offs.
\<close>

definition rfc6298 :: "duration list \<Rightarrow> (duration \<times> duration) option" where
  "rfc6298 rs =
     (case rs of
        [] \<Rightarrow> None
      | r # rs \<Rightarrow> Some (foldl (\<lambda>(srtt, rttvar) r'. ((7 * srtt + r') div 8, (3 * rttvar + \<bar>srtt - r'\<bar>) div 4)) (r, r div 2) rs))"

definition path_rto :: "duration \<Rightarrow> rto_event list \<Rightarrow> duration" where
  "path_rto initial es =
     (if es = [] then initial
      else case last es of
             Backoff _ _ b \<Rightarrow> b
           | Rtt _ _ _ \<Rightarrow> (case rfc6298 (samples es) of Some (srtt, rttvar) \<Rightarrow> srtt + 4 * rttvar | None \<Rightarrow> initial))"

text \<open>The last of the events is of another path and finds this one unused for more than the history.\<close>

definition aged_out :: "duration \<Rightarrow> path \<Rightarrow> rto_event list \<Rightarrow> bool" where
  "aged_out hist p es \<longleftrightarrow>
     (\<exists>es0 e. es = es0 @ [e] \<and> ev_path e \<noteq> p \<and> on_path p es0 \<noteq> [] \<and>
        hist < tp_minus (ev_time e) (ev_time (last (on_path p es0))))"

lemma on_path_simps [simp]:
  "on_path p [] = []" "on_path p (es @ es') = on_path p es @ on_path p es'"
  "on_path p (e # es) = (if ev_path e = p then e # on_path p es else on_path p es)"
  by (simp_all add: on_path_def)

lemma samples_append [simp]: "samples (es @ es') = samples es @ samples es'"
  by (induction es rule: samples.induct) simp_all

lemma rfc6298_snoc:
  "rfc6298 (rs @ [r]) = Some (case rfc6298 rs of
     None \<Rightarrow> (r, r div 2) | Some (s, v) \<Rightarrow> ((7 * s + r) div 8, (3 * v + \<bar>s - r\<bar>) div 4))"
  by (cases rs) (auto simp: rfc6298_def split: prod.split)

section \<open>The calculator follows its events\<close>

definition smooth_pair :: "smooth_vals \<Rightarrow> duration \<times> duration" where
  "smooth_pair s = (sv_srtt s, sv_rttvar s)"

text \<open>What the calculator holds for a path that the events \<open>es\<close> are remembered of.\<close>

definition entry_for :: "rto_event list \<Rightarrow> rto_data option \<Rightarrow> bool" where
  "entry_for es entry \<longleftrightarrow>
     (case entry of
        None \<Rightarrow> es = []
      | Some d \<Rightarrow> es \<noteq> [] \<and> rd_last_update d = ev_time (last es) \<and>
          rd_backoff d = (case last es of Backoff _ _ b \<Rightarrow> Some b | Rtt _ _ _ \<Rightarrow> None) \<and>
          map_option smooth_pair (rd_smooth d) = rfc6298 (samples es))"

definition remembers :: "rto_event list \<Rightarrow> rto_calc \<Rightarrow> path \<Rightarrow> bool" where
  "remembers es c p \<longleftrightarrow>
     (\<exists>old recent. es = old @ recent \<and> (on_path p old = [] \<or> aged_out (rs_history_duration (rc_settings c)) p old) \<and>
        entry_for (on_path p recent) (rc_by_path c p))"

lemma other_path:
  assumes "rto_inv c" "q \<noteq> p"
  shows "rc_by_path (new_rtt now p r c) q = rc_by_path c q \<or>
      rc_by_path (new_rtt now p r c) q = None \<and> (\<exists>d. rc_by_path c q = Some d \<and>
        rs_history_duration (rc_settings c) < tp_minus now (rd_last_update d))"
    and "rc_by_path (backoff now p b c) q = rc_by_path c q \<or>
      rc_by_path (backoff now p b c) q = None \<and> (\<exists>d. rc_by_path c q = Some d \<and>
        rs_history_duration (rc_settings c) < tp_minus now (rd_last_update d))"
proof -
  have clear: "rc_by_path (clear_outdated now c') q = rc_by_path c' q \<or>
      rc_by_path (clear_outdated now c') q = None \<and> (\<exists>d. rc_by_path c' q = Some d \<and>
        rs_history_duration (rc_settings c') < tp_minus now (rd_last_update d))" if "rto_inv c'" for c'
    by (rule clear_outdated_spec [OF that, of now]) (auto simp: restrict_map_def)
  have touched: "rto_inv (c\<lparr>rc_by_path := (rc_by_path c)(p \<mapsto> d), rc_timeline := touch p (rc_timeline c)\<rparr>)"
    if "rd_path d = p" for d
    by (rule rto_inv_touch [OF assms(1) that])
  let ?d = "(case rc_by_path c p of Some dat \<Rightarrow> dat | None \<Rightarrow> data_new p now)\<lparr>rd_last_update := now\<rparr>"
  have "rd_path ?d = p" using assms(1) by (auto simp: rto_inv_def split: option.split)
  from clear [OF touched [OF this]] assms(2)
  show "rc_by_path (new_rtt now p r c) q = rc_by_path c q \<or>
      rc_by_path (new_rtt now p r c) q = None \<and> (\<exists>d. rc_by_path c q = Some d \<and>
        rs_history_duration (rc_settings c) < tp_minus now (rd_last_update d))"
    by (simp add: new_rtt_def Let_def)
  show "rc_by_path (backoff now p b c) q = rc_by_path c q \<or>
      rc_by_path (backoff now p b c) q = None \<and> (\<exists>d. rc_by_path c q = Some d \<and>
        rs_history_duration (rc_settings c) < tp_minus now (rd_last_update d))"
  proof (cases "rc_by_path c p")
    case (Some dat)
    then have "rd_path (dat\<lparr>rd_last_update := now, rd_backoff := Some b\<rparr>) = p" using assms(1) by (auto simp: rto_inv_def)
    from clear [OF touched [OF this]] assms(2) Some show ?thesis by (simp add: backoff_def)
  qed (use assms(2) in \<open>simp add: backoff_def\<close>)
qed

lemma smooth_update_pair:
  assumes "smooth_ok lo hi s" "0 \<le> lo" "lo \<le> r" "r \<le> hi"
  shows "smooth_pair (smooth_update r s) = ((7 * sv_srtt s + r) div 8, (3 * sv_rttvar s + \<bar>sv_srtt s - r\<bar>) div 4)"
  using assms by (simp add: smooth_pair_def smooth_update_def Let_def smooth_ok_def abs_if sdiv_nonneg)


lemma rfc6298_ok:
  assumes "0 \<le> lo" "\<forall>r \<in> set rs. lo \<le> r \<and> r \<le> hi" "rfc6298 rs = Some (s, v)"
  shows "smooth_ok lo hi \<lparr>sv_srtt = s, sv_rttvar = v\<rparr>"
  using assms(2,3)
proof (induction rs arbitrary: s v rule: rev_induct)
  case (snoc r rs)
  show ?case
  proof (cases "rfc6298 rs")
    case None
    then show ?thesis using snoc.prems smooth_first [of lo r hi] assms(1) by (auto simp: rfc6298_snoc sdiv_nonneg)
  next
    case (Some x)
    obtain s' v' where x: "x = (s', v')" by force
    have ok: "smooth_ok lo hi \<lparr>sv_srtt = s', sv_rttvar = v'\<rparr>" using snoc Some x by simp
    from smooth_update_ok [OF assms(1) _ _ this, of r] smooth_update_pair [OF ok assms(1), of r] snoc.prems Some x
    show ?thesis by (simp add: rfc6298_snoc smooth_pair_def smooth_ok_def)
  qed
qed (simp add: rfc6298_def)

lemma samples_ok: "\<forall>e \<in> set es. sample_ok lo hi e \<Longrightarrow> \<forall>r \<in> set (samples (on_path p es)). lo \<le> r \<and> r \<le> hi"
  by (induction es rule: samples.induct) (auto simp: sample_ok_def)

text \<open>One event: the entry of its own path, and the entries of the other paths.\<close>

lemma entry_own_path:
  assumes "rto_inv c" "0 \<le> rs_history_duration (rc_settings c)" "entry_for es (rc_by_path c (ev_path e))"
    and "0 \<le> lo" "\<forall>e \<in> set (e # es). sample_ok lo hi e" "\<forall>e \<in> set es. ev_path e = p" "ev_path e = p"
  shows "entry_for (es @ [e]) (rc_by_path (rto_event_step e c) (ev_path e))"
proof (cases e)
  case (Rtt now q r)
  obtain d where d: "rc_by_path (new_rtt now q r c) q = Some d" "rd_backoff d = None" "rd_last_update d = now"
    "rd_smooth d = Some (case Option.bind (rc_by_path c q) rd_smooth of
      Some s \<Rightarrow> smooth_update r s | None \<Rightarrow> \<lparr>sv_srtt = r, sv_rttvar = r sdiv 2\<rparr>)"
    using new_rtt_lookup [OF assms(1,2)] by blast
  have old: "map_option smooth_pair (Option.bind (rc_by_path c q) rd_smooth) = rfc6298 (samples es)"
    using assms(3) Rtt by (auto simp: entry_for_def rfc6298_def split: option.splits)
  have r: "lo \<le> r" "r \<le> hi" using assms(5) Rtt by (simp_all add: sample_ok_def)
  have "on_path p es = es" using assms(6) by (simp add: on_path_def)
  then have sm: "\<forall>r \<in> set (samples es). lo \<le> r \<and> r \<le> hi" using samples_ok [of es lo hi p] assms(5) by simp
  have "map_option smooth_pair (rd_smooth d) = rfc6298 (samples es @ [r])"
  proof (cases "Option.bind (rc_by_path c q) rd_smooth")
    case None
    then show ?thesis using old d(4) r assms(4) by (simp add: rfc6298_snoc smooth_pair_def sdiv_nonneg)
  next
    case (Some s)
    then have f: "rfc6298 (samples es) = Some (sv_srtt s, sv_rttvar s)" using old by (simp add: smooth_pair_def)
    from rfc6298_ok [OF assms(4) sm f] have "smooth_ok lo hi s" by (simp add: smooth_ok_def)
    from smooth_update_pair [OF this assms(4) r] show ?thesis using Some f d(4) by (simp add: rfc6298_snoc)
  qed
  then show ?thesis using d Rtt by (simp add: entry_for_def)
next
  case (Backoff now q b)
  obtain d where d: "rc_by_path (backoff now q b c) q = Some d" "rd_backoff d = Some b" "rd_last_update d = now"
    "rd_smooth d = Option.bind (rc_by_path c q) rd_smooth"
    using backoff_lookup [OF assms(1,2)] by blast
  have "map_option smooth_pair (Option.bind (rc_by_path c q) rd_smooth) = rfc6298 (samples es)"
    using assms(3) Backoff by (auto simp: entry_for_def rfc6298_def split: option.splits)
  then show ?thesis using d Backoff by (simp add: entry_for_def)
qed

lemma remembers_step:
  assumes "rto_inv c" "0 \<le> rs_history_duration (rc_settings c)" "remembers es c p"
    and "0 \<le> lo" "\<forall>e \<in> set (es @ [e]). sample_ok lo hi e"
  shows "remembers (es @ [e]) (rto_event_step e c) p"
proof -
  let ?h = "rs_history_duration (rc_settings c)"
  obtain old recent where es: "es = old @ recent" "on_path p old = [] \<or> aged_out ?h p old"
    "entry_for (on_path p recent) (rc_by_path c p)"
    using assms(3) by (auto simp: remembers_def)
  show ?thesis
  proof (cases "ev_path e = p")
    case True
    have "entry_for (on_path p recent @ [e]) (rc_by_path (rto_event_step e c) p)"
    proof -
      have "\<forall>x \<in> set (e # on_path p recent). sample_ok lo hi x" "\<forall>x \<in> set (on_path p recent). ev_path x = p"
        using assms(5) es(1) by (simp_all add: on_path_def)
      from entry_own_path [OF assms(1,2) _ assms(4) this True] es(3) True show ?thesis by simp
    qed
    then show ?thesis using es(1,2) True unfolding remembers_def
      by (intro exI [of _ old] exI [of _ "recent @ [e]"]) simp
  next
    case False
    have "rc_by_path (rto_event_step e c) p = rc_by_path c p \<or>
      rc_by_path (rto_event_step e c) p = None \<and> (\<exists>d. rc_by_path c p = Some d \<and> ?h < tp_minus (ev_time e) (rd_last_update d))"
      using other_path [OF assms(1), of p "ev_path e" "ev_time e"] False by (cases e; simp)
    then show ?thesis
    proof
      assume "rc_by_path (rto_event_step e c) p = rc_by_path c p"
      then show ?thesis using es False unfolding remembers_def
        by (intro exI [of _ old] exI [of _ "recent @ [e]"]) simp
    next
      assume "rc_by_path (rto_event_step e c) p = None \<and> (\<exists>d. rc_by_path c p = Some d \<and> ?h < tp_minus (ev_time e) (rd_last_update d))"
      then obtain d where d: "rc_by_path (rto_event_step e c) p = None" "rc_by_path c p = Some d" "?h < tp_minus (ev_time e) (rd_last_update d)"
        by blast
      have "aged_out ?h p (es @ [e])" unfolding aged_out_def
        using d es False by (intro exI [of _ es] exI [of _ e]) (auto simp: entry_for_def)
      then show ?thesis using d(1) unfolding remembers_def
        by (intro exI [of _ "es @ [e]"] exI [of _ "[]"]) (simp add: entry_for_def)
    qed
  qed
qed

lemma remembers_run:
  assumes "0 \<le> rs_history_duration settings" "0 \<le> lo" "\<forall>e \<in> set es. sample_ok lo hi e"
  defines "c \<equiv> fold rto_event_step es (rto_calc_new settings)"
  shows "rto_inv c \<and> rc_settings c = settings \<and> remembers es c p"
  using assms(3) unfolding c_def
proof (induction es rule: rev_induct)
  case Nil
  then show ?case using rto_inv_new [of settings] by (simp add: remembers_def entry_for_def rto_calc_new_def)
next
  case (snoc e es)
  let ?c = "fold rto_event_step es (rto_calc_new settings)"
  have IH: "rto_inv ?c" "rc_settings ?c = settings" "remembers es ?c p" using snoc by simp_all
  moreover have "rto_inv (rto_event_step e ?c)" using rto_inv_ops [OF IH(1)] by (cases e) simp_all
  moreover have "remembers (es @ [e]) (rto_event_step e ?c) p"
    using remembers_step [OF IH(1) _ IH(3) assms(2) snoc.prems] IH(2) assms(1) by simp
  ultimately show ?case by simp
qed

lemma path_rto_entry:
  assumes "entry_for es (rc_by_path c p)"
  shows "rto p c = path_rto (rs_initial_rto (rc_settings c)) es"
proof (cases "rc_by_path c p")
  case (Some d)
  then show ?thesis using assms
    by (cases "last es"; cases "rd_smooth d") (auto simp: entry_for_def rto_def path_rto_def smooth_pair_def split: option.split)
qed (use assms in \<open>simp add: entry_for_def rto_def path_rto_def\<close>)

lemma samples_nonempty: "es \<noteq> [] \<Longrightarrow> last es = Rtt now p r \<Longrightarrow> samples es \<noteq> []"
  by (induction es rule: rev_induct) simp_all

lemma rfc6298_some: "rs \<noteq> [] \<Longrightarrow> \<exists>s v. rfc6298 rs = Some (s, v)"
  by (cases rs) (simp_all add: rfc6298_def)

lemma clear_outdated_submap: "rto_inv c \<Longrightarrow> rc_by_path (clear_outdated now c) q = Some d \<Longrightarrow> rc_by_path c q = Some d"
  by (rule clear_outdated_spec [of c now]) (auto simp: restrict_map_def split: if_splits)

section \<open>Properties\<close>

definition sample_path :: path where
  "sample_path = \<lparr>p_source = AddressV4 [10, 0, 0, 1], p_target = AddressV4 [10, 0, 0, 2]\<rparr>"

text \<open>
  C16.  Whatever the interleaving of round-trip samples and back-offs over any paths and times, the
  timeout handed out for a path is a function of the events of that path alone, since it was last
  forgotten: after a back-off it is that back-off, after a sample it is \<open>SRTT + 4 * RTTVAR\<close> of RFC 6298
  over the samples, and without events it is the configured one.  Events are forgotten only when an event of
  another path comes more than the history duration after the last event of this one.  After a
  sample the timeout is between the smallest sample and the largest one plus four times the larger
  of the sample spread and half the largest sample.
\<close>

theorem rto_follows_recent_events:
  assumes "0 \<le> lo" "0 \<le> rs_history_duration settings" "\<forall>e \<in> set es. sample_ok lo hi e"
  shows "\<exists>old recent. es = old @ recent \<and>
    (on_path p old = [] \<or> aged_out (rs_history_duration settings) p old) \<and>
    (let t = rto p (fold rto_event_step es (rto_calc_new settings)) in
       t = path_rto (rs_initial_rto settings) (on_path p recent) \<and>
       (\<forall>now r. on_path p recent \<noteq> [] \<and> last (on_path p recent) = Rtt now p r \<longrightarrow>
          lo \<le> t \<and> t \<le> hi + 4 * max (hi - lo) (hi div 2)))"
proof -
  let ?c = "fold rto_event_step es (rto_calc_new settings)"
  have c: "rc_settings ?c = settings" "remembers es ?c p" using remembers_run [OF assms(2,1,3), of p] by simp_all
  obtain old recent where o: "es = old @ recent" "on_path p old = [] \<or> aged_out (rs_history_duration settings) p old"
    "entry_for (on_path p recent) (rc_by_path ?c p)"
    using c by (auto simp: remembers_def)
  have t: "rto p ?c = path_rto (rs_initial_rto settings) (on_path p recent)" using path_rto_entry [OF o(3)] c(1) by simp
  have "lo \<le> rto p ?c \<and> rto p ?c \<le> hi + 4 * max (hi - lo) (hi div 2)"
    if l: "on_path p recent \<noteq> []" "last (on_path p recent) = Rtt now p r" for now r
  proof -
    obtain s v where sv: "rfc6298 (samples (on_path p recent)) = Some (s, v)"
      using samples_nonempty [OF l] rfc6298_some by blast
    have "\<forall>e \<in> set recent. sample_ok lo hi e" using assms(3) o(1) by simp
    from rfc6298_ok [OF assms(1) samples_ok [OF this] sv] show ?thesis
      using l sv unfolding t by (auto simp: path_rto_def smooth_ok_def)
  qed
  with o(1,2) t show ?thesis unfolding Let_def by blast
qed

definition sample_events :: "rto_event list" where
  "sample_events = [Rtt 0 sample_path 100, Backoff 5 sample_path 900, Rtt 10 sample_path 300]"

theorem rto_follows_recent_events_witness:
  "rto sample_path (fold rto_event_step sample_events (rto_calc_new default_rto_settings)) = path_rto 500000 sample_events
   \<and> path_rto 500000 sample_events = 473"
proof -
  let ?t = "rto sample_path (fold rto_event_step sample_events (rto_calc_new default_rto_settings))"
  have h: "rs_history_duration default_rto_settings = 3600000000" "rs_initial_rto default_rto_settings = 500000"
    by (simp_all add: default_rto_settings_def)
  have "\<forall>e \<in> set sample_events. sample_ok 100 300 e" by (simp add: sample_ok_def sample_events_def)
  from rto_follows_recent_events [OF _ _ this, of default_rto_settings sample_path]
  obtain old recent where o: "sample_events = old @ recent"
    "on_path sample_path old = [] \<or> aged_out 3600000000 sample_path old" "?t = path_rto 500000 (on_path sample_path recent)"
    unfolding h Let_def by force
  have "\<forall>e \<in> set sample_events. ev_path e = sample_path" by (simp add: sample_events_def)
  then have all: "\<forall>e \<in> set old. ev_path e = sample_path" "\<forall>e \<in> set recent. ev_path e = sample_path"
    unfolding o(1) by simp_all
  then have "\<not> aged_out 3600000000 sample_path old" by (auto simp: aged_out_def)
  then have "old = []" using o(2) all(1) by (cases old) simp_all
  moreover have "on_path sample_path recent = recent" using all(2) by (simp add: on_path_def)
  ultimately have "?t = path_rto 500000 sample_events" using o(1,3) by simp
  moreover have "path_rto 500000 sample_events = 473" by (simp add: path_rto_def rfc6298_def sample_events_def)
  ultimately show ?thesis by simp
qed

text \<open>
  Karn's algorithm: after a back-off the path's timeout is exactly that back-off; after a sample
  the back-off is forgotten and the timeout is the smoothed round-trip time plus four deviations, with
  the initial values and the update of RFC 6298.
\<close>

theorem rto_after_update:
  assumes "rto_inv c" "0 \<le> rs_history_duration (rc_settings c)"
  shows "rto p (backoff now p b c) = b
    \<and> rto p (new_rtt now p r c) =
        (case Option.bind (rc_by_path c p) rd_smooth of
           None \<Rightarrow> r + 4 * (r sdiv 2)
         | Some s \<Rightarrow> (7 * sv_srtt s + r) sdiv 8 + 4 * ((3 * sv_rttvar s + \<bar>sv_srtt s - r\<bar>) sdiv 4))"
proof -
  obtain d where d: "rc_by_path (new_rtt now p r c) p = Some d" "rd_backoff d = None"
    "rd_smooth d = Some (case Option.bind (rc_by_path c p) rd_smooth of
      Some s \<Rightarrow> smooth_update r s | None \<Rightarrow> \<lparr>sv_srtt = r, sv_rttvar = r sdiv 2\<rparr>)"
    using new_rtt_lookup [OF assms] by blast
  have "rto p (backoff now p b c) = b" using backoff_lookup [OF assms, of now p b] by (auto simp: rto_def)
  then show ?thesis using d
    by (auto simp: rto_def smooth_update_def Let_def abs_if split: option.split)
qed

theorem rto_after_update_witness:
  "rto sample_path (backoff 7 sample_path 8000 (rto_calc_new default_rto_settings)) = 8000
   \<and> rto sample_path (new_rtt 7 sample_path 100 (rto_calc_new default_rto_settings)) = 300"
  using rto_after_update [OF rto_inv_new [of default_rto_settings], of sample_path 7 8000 100]
  by (simp add: rto_calc_new_def default_rto_settings_def signed_divide_int_def)

text \<open>
  Forgetting: the calculator remembers each path at most once, in the timeline and in the map; and
  when the timeline is in the order of age, an update leaves no path that was not used within the
  history duration.
\<close>

theorem rto_forgets_old_paths:
  assumes "rto_inv c" "sorted_wrt (\<lambda>p q. age q \<le> age p) (rc_timeline c)" "0 \<le> rs_history_duration (rc_settings c)"
    and age: "\<And>p d. rc_by_path c p = Some d \<Longrightarrow> age p = tp_minus now (rd_last_update d)"
    and "\<And>p. p \<in> set (rc_timeline c) \<Longrightarrow> 0 \<le> age p"
  shows "rto_inv (new_rtt now p r c) \<and>
    (\<forall>q d. rc_by_path (new_rtt now p r c) q = Some d \<longrightarrow> tp_minus now (rd_last_update d) \<le> rs_history_duration (rc_settings c))"
proof -
  let ?d = "(case rc_by_path c p of Some dat \<Rightarrow> dat
      | None \<Rightarrow> data_new p now)\<lparr>rd_last_update := now\<rparr>"
  let ?c = "c\<lparr>rc_by_path := (rc_by_path c)(p \<mapsto> ?d), rc_timeline := touch p (rc_timeline c)\<rparr>"
  have "rd_path ?d = p" using assms(1) by (auto simp: rto_inv_def split: option.split)
  from rto_inv_touch [OF assms(1) this] have inv: "rto_inv ?c" .
  let ?cl = "clear_outdated now ?c"
  obtain pre where pre: "rc_timeline ?c = pre @ rc_timeline ?cl" "rc_by_path ?cl = rc_by_path ?c |` (- set pre)"
    "\<forall>p \<in> set pre. \<exists>dat. rc_by_path ?c p = Some dat \<and> rs_history_duration (rc_settings ?c) < tp_minus now (rd_last_update dat)"
    "rc_settings ?cl = rc_settings ?c" "rto_inv ?cl"
    "\<forall>p ps. rc_timeline ?cl = p # ps \<longrightarrow>
       (\<exists>dat. rc_by_path ?c p = Some dat \<and> tp_minus now (rd_last_update dat) \<le> rs_history_duration (rc_settings ?c))"
    by (rule clear_outdated_spec [OF inv, of now])
  define a where "a = age(p := 0)"
  have a: "a q = tp_minus now (rd_last_update d)" if "rc_by_path ?c q = Some d" for q d
    using that age by (auto simp: a_def tp_minus_eq split: if_splits)
  have dist: "distinct (rc_timeline c)" and dom: "set (rc_timeline c) = dom (rc_by_path c)" using assms(1) by (auto simp: rto_inv_def)
  have "sorted_wrt (\<lambda>p q. age q \<le> age p) (remove1 p (rc_timeline c))"
    using assms(2) dist by (simp add: distinct_remove1_removeAll removeAll_filter_not_eq sorted_wrt_filter)
  then have "sorted_wrt (\<lambda>p q. a q \<le> a p) (remove1 p (rc_timeline c))"
    by (rule sorted_wrt_mono_rel [rotated]) (use dist in \<open>auto simp: a_def\<close>)
  moreover have "\<forall>q \<in> set (remove1 p (rc_timeline c)). a p \<le> a q"
    using assms(5) dist by (auto simp: a_def)
  ultimately have "sorted_wrt (\<lambda>p q. a q \<le> a p) (pre @ rc_timeline ?cl)"
    unfolding pre(1) [symmetric] by (simp add: touch_def sorted_wrt_append)
  then have sorted: "sorted_wrt (\<lambda>p q. a q \<le> a p) (rc_timeline ?cl)" by (simp add: sorted_wrt_append)
  have all: "a q \<le> rs_history_duration (rc_settings c)" if "q \<in> set (rc_timeline ?cl)" for q
    using that sorted pre(6) a by (cases "rc_timeline ?cl") fastforce+
  have "tp_minus now (rd_last_update d) \<le> rs_history_duration (rc_settings c)"
    if q: "rc_by_path (new_rtt now p r c) q = Some d" for q d
  proof -
    obtain d' where d': "rc_by_path ?cl q = Some d'" "rd_last_update d' = rd_last_update d"
      using q by (cases "q = p") (auto simp: new_rtt_def Let_def rtt_update_def)
    then have "q \<in> set (rc_timeline ?cl)" using pre(5) by (auto simp: rto_inv_def)
    moreover have "rc_by_path ?c q = Some d'" using d'(1) by (rule clear_outdated_submap [OF inv])
    ultimately show ?thesis using all a d'(2) by metis
  qed
  then show ?thesis using rto_inv_ops(1) [OF assms(1)] by blast
qed

definition sample_calc :: rto_calc where
  "sample_calc = new_rtt 0 sample_path 100 (rto_calc_new \<lparr>rs_initial_rto = 500, rs_history_duration = 1000\<rparr>)"

theorem rto_forgets_old_paths_witness:
  "rto_inv (new_rtt 5000 (sample_path\<lparr>p_target := AddressV4 [1, 1, 1, 1]\<rparr>) 50 sample_calc)
   \<and> rc_by_path (new_rtt 5000 (sample_path\<lparr>p_target := AddressV4 [1, 1, 1, 1]\<rparr>) 50 sample_calc) sample_path = None"
proof -
  let ?n = "new_rtt 5000 (sample_path\<lparr>p_target := AddressV4 [1, 1, 1, 1]\<rparr>) 50 sample_calc"
  have tl: "rc_timeline sample_calc = [sample_path]" by code_simp
  have inv: "rto_inv sample_calc" by (simp add: sample_calc_def rto_inv_ops rto_inv_new)
  have d: "map_option rd_last_update (rc_by_path sample_calc sample_path) = Some 0" by code_simp
  have age: "(5000 :: int) = tp_minus 5000 (rd_last_update d)" if "rc_by_path sample_calc p = Some d" for p d
  proof -
    have "p \<in> set (rc_timeline sample_calc)" using inv that by (auto simp: rto_inv_def)
    then show ?thesis using d that by (simp add: tl tp_minus_eq)
  qed
  have h: "rs_history_duration (rc_settings sample_calc) = 1000" by code_simp
  have "\<forall>q d. rc_by_path ?n q = Some d \<longrightarrow> tp_minus 5000 (rd_last_update d) \<le> 1000" "rto_inv ?n"
    using rto_forgets_old_paths [OF inv, of "\<lambda>_. 5000" 5000] age by (simp_all add: tl h)
  moreover have "rc_by_path ?n sample_path = None" by code_simp
  ultimately show ?thesis by blast
qed

end
