(* ===== verification/Stun_Client.thy ===== *)
theory Stun_Client
  imports Stun_Parse_Sound Stun_Rto
begin

text \<open>
  The UDP client: \<open>stun/stun_client_udp.hpp\<close>, \<open>stun/stun_client_udp.cpp\<close>, its settings, effects and
  handles.  The client is a state machine without I/O: \<open>create\<close> and \<open>response\<close> change its state,
  \<open>next\<close> returns one effect for the caller to perform.

  The timeline is a \<open>std::priority_queue\<close> with the comparison \<open>TimelineGreater\<close>; it is a list kept in
  the order of that comparison, whose head is \<open>top()\<close>.  The hash of the transaction identifiers
  (\<open>maybe_tid_hash\<close>) decides only where the map keeps an entry and does not appear here.  The view in
  \<open>SendData\<close> points into the transaction; here it is the bytes it points at.  Two loops of the
  sources need not end (the search for a free handle, the search for an unused identifier); they are
  partial functions, and not ending is \<open>None\<close>.
\<close>

section \<open>Settings, effects and state\<close>

type_synonym handle = u32

record retransmit_default =
  rt_max_rto :: "duration option"
  rt_request_count :: u32
  rt_retransmission_multiplier :: u32
  rt_server_error_timeout :: "duration option"
  rt_server_error_max_retransmits :: u32

record client_settings =
  cs_use_fingerprint :: bool
  cs_retransmit :: retransmit_default
  cs_rto_settings :: rto_settings
  cs_allow_unauthenticated_alternate :: bool

definition default_retransmit :: retransmit_default where
  "default_retransmit = \<lparr>rt_max_rto = None, rt_request_count = 7, rt_retransmission_multiplier = 16,
     rt_server_error_timeout = None, rt_server_error_max_retransmits = 4\<rparr>"

definition default_settings :: client_settings where
  "default_settings = \<lparr>cs_use_fingerprint = True, cs_retransmit = default_retransmit,
     cs_rto_settings = default_rto_settings, cs_allow_unauthenticated_alternate = False\<rparr>"

datatype fail_reason =
    UnknownComprehensionRequiredAttribute "attribute_type list"
  | UnknownAttributeReported "attribute_type list"
  | AlternateServer generic_endpoint
  | ErrorCode u32 "bytes option"
  | FailError error
  | Timeout

datatype effect =
    SendData handle bytes
  | TransactionOk handle generic_endpoint message "duration option"
  | TransactionFailed handle fail_reason
  | Sleep duration
  | Idle

record rtx_algo =
  rx_initial_rto :: duration
  rx_settings :: retransmit_default
  rx_maybe_next :: "timepoint option"
  rx_last_timeout :: duration
  rx_rtx_count :: u32
  rx_5xx_count :: u32

record auth =
  au_username :: bytes
  au_integrity :: integrity_data

record request =
  rq_path :: path
  rq_attrs :: "attr_value list"
  rq_unknown_attrs :: "unknown_attribute list"
  rq_maybe_auth :: "auth option"

record transaction =
  tr_tid :: transaction_id
  tr_hnd :: handle
  tr_msg_data :: bytes
  tr_rtx_algo :: rtx_algo
  tr_path :: path
  tr_create_time :: timepoint
  tr_maybe_auth :: "auth option"
  tr_rtx_count :: u32

record client_stat =
  st_parse :: parse_stat
  st_started :: counter
  st_success :: counter
  st_retransmits :: counter
  st_hash_calc_errors :: counter
  st_integrity_missing :: counter
  st_integrity_check_errors :: counter
  st_transaction_not_found :: counter
  st_unknown_attribute :: counter
  st_no_error_code :: counter
  st_try_alternate_responses :: counter
  st_no_alternate_server_attr :: counter
  st_response_3xx :: counter
  st_response_4xx :: counter
  st_response_5xx :: counter
  st_unexpected_response_code :: counter
  st_no_mapped_address :: counter

type_synonym timeline = "(timepoint \<times> handle) list"

record client =
  cl_settings :: client_settings
  cl_stat :: client_stat
  cl_next_handle :: u32
  cl_tid_to_handle :: "transaction_id \<rightharpoonup> handle"
  cl_tmap :: "handle \<rightharpoonup> transaction"
  cl_timeline :: timeline
  cl_effects :: "effect list"
  cl_rto_calc :: rto_calc

definition zero_client_stat :: client_stat where
  "zero_client_stat = \<lparr>st_parse = zero_stat, st_started = 0, st_success = 0, st_retransmits = 0,
     st_hash_calc_errors = 0, st_integrity_missing = 0, st_integrity_check_errors = 0,
     st_transaction_not_found = 0, st_unknown_attribute = 0, st_no_error_code = 0,
     st_try_alternate_responses = 0, st_no_alternate_server_attr = 0, st_response_3xx = 0,
     st_response_4xx = 0, st_response_5xx = 0, st_unexpected_response_code = 0, st_no_mapped_address = 0\<rparr>"

definition client_new :: "client_settings \<Rightarrow> client" where
  "client_new settings = \<lparr>cl_settings = settings, cl_stat = zero_client_stat, cl_next_handle = 0,
     cl_tid_to_handle = Map.empty, cl_tmap = Map.empty, cl_timeline = [], cl_effects = [],
     cl_rto_calc = rto_calc_new (cs_rto_settings settings)\<rparr>"

section \<open>The retransmission algorithm\<close>

definition rx_new :: "duration \<Rightarrow> retransmit_default \<Rightarrow> timepoint \<Rightarrow> rtx_algo" where
  "rx_new initial_rto settings now = \<lparr>rx_initial_rto = initial_rto, rx_settings = settings,
     rx_maybe_next = Some (advance now initial_rto), rx_last_timeout = initial_rto,
     rx_rtx_count = 0, rx_5xx_count = 0\<rparr>"

definition rx_init :: "timepoint \<Rightarrow> rtx_algo \<Rightarrow> rtx_algo \<times> timepoint option" where
  "rx_init now a =
     (let a = a\<lparr>rx_maybe_next := Some (advance now (rx_last_timeout a))\<rparr> in (a, rx_maybe_next a))"

definition rx_calc_next :: "timepoint \<Rightarrow> rtx_algo \<Rightarrow> timepoint option \<times> duration" where
  "rx_calc_next now a =
     (if rx_rtx_count a + 1 \<ge> rt_request_count (rx_settings a) + rx_5xx_count a then (None, 0)
      else
        let current = (if rx_rtx_count a + 2 = rt_request_count (rx_settings a)
                       then rx_initial_rto a * uint (rt_retransmission_multiplier (rx_settings a))
                       else rx_last_timeout a * 2);
            timeout = (case rt_max_rto (rx_settings a) of Some settings_max_rto \<Rightarrow> max current settings_max_rto
                       | None \<Rightarrow> current)
        in (Some (advance now timeout), timeout))"

definition rx_next :: "timepoint \<Rightarrow> rtx_algo \<Rightarrow> rtx_algo \<times> timepoint option" where
  "rx_next now a =
     (let time_for_next = (case rx_maybe_next a of Some nxt \<Rightarrow> \<not> is_before now nxt | None \<Rightarrow> False);
          a = (if time_for_next
               then let (maybe_next, timeout) = rx_calc_next now a;
                        a = a\<lparr>rx_maybe_next := maybe_next\<rparr>
                    in if maybe_next \<noteq> None
                       then a\<lparr>rx_rtx_count := rx_rtx_count a + 1, rx_last_timeout := timeout\<rparr>
                       else a
               else a)
      in (a, rx_maybe_next a))"

datatype process_5xx_result = TransactionFailed_5xx | RetransmitScheduled

definition rx_process_5xx :: "timepoint \<Rightarrow> rtx_algo \<Rightarrow> rtx_algo \<times> process_5xx_result" where
  "rx_process_5xx now a =
     (case rt_server_error_timeout (rx_settings a) of
        Some timeout \<Rightarrow>
          (if rx_5xx_count a \<ge> rt_server_error_max_retransmits (rx_settings a) then (a, TransactionFailed_5xx)
           else (a\<lparr>rx_5xx_count := rx_5xx_count a + 1, rx_maybe_next := Some (advance now timeout)\<rparr>,
                 RetransmitScheduled))
      | None \<Rightarrow> (a, TransactionFailed_5xx))"

section \<open>The timeline\<close>

definition timeline_greater :: "timepoint \<times> handle \<Rightarrow> timepoint \<times> handle \<Rightarrow> bool" where
  "timeline_greater lhs rhs =
     (if is_after (fst lhs) (fst rhs) then True
      else if is_after (fst rhs) (fst lhs) then False
      else snd lhs > snd rhs)"

fun timeline_push :: "timepoint \<times> handle \<Rightarrow> timeline \<Rightarrow> timeline" where
  "timeline_push x [] = [x]"
| "timeline_push x (y # ys) = (if timeline_greater x y then y # timeline_push x ys else x # y # ys)"

lemma mset_timeline_push [simp]: "mset (timeline_push x xs) = add_mset x (mset xs)"
  by (induction xs) simp_all

lemma set_timeline_push [simp]: "set (timeline_push x xs) = insert x (set xs)"
  by (induction xs) auto

lemma sum_timeline_push [simp]: "sum_list (map f (timeline_push x xs)) = f x + (sum_list (map f xs) :: nat)"
  by (induction xs) auto

section \<open>Creating a transaction\<close>

partial_function (option) allocate_handle :: "client \<Rightarrow> (client \<times> handle) option" where
  [code]: "allocate_handle c =
     (let hnd = cl_next_handle c;
          c = c\<lparr>cl_next_handle := cl_next_handle c + 1\<rparr>
      in if cl_tmap c hnd = None then Some (c, hnd) else allocate_handle c)"

definition request_message :: "client_settings \<Rightarrow> transaction_id \<Rightarrow> request \<Rightarrow> message" where
  "request_message settings tid rq =
     (let attrs = set_create (rq_attrs rq) (rq_unknown_attrs rq);
          attrs = (case rq_maybe_auth rq of
                     Some a \<Rightarrow> emplace (attribute_create (UsernameAttribute (au_username a))) attrs
                   | None \<Rightarrow> attrs);
          attrs = (if cs_use_fingerprint settings
                   then emplace (attribute_create (FingerprintAttribute 0)) attrs else attrs)
      in \<lparr>m_header = \<lparr>h_cls = REQUEST, h_method = binding_method, h_transaction_id = tid\<rparr>,
          m_attribute_set = attrs, m_is_rfc3489 = False, m_integrity_interval = None\<rparr>)"

definition allocate_rtx_algo :: "path \<Rightarrow> timepoint \<Rightarrow> client \<Rightarrow> rtx_algo" where
  "allocate_rtx_algo path now c = rx_new (rto path (cl_rto_calc c)) (cs_retransmit (cl_settings c)) now"

definition transaction_new ::
    "timepoint \<Rightarrow> transaction_id \<Rightarrow> handle \<Rightarrow> bytes \<Rightarrow> rtx_algo \<Rightarrow> path \<Rightarrow> auth option \<Rightarrow> transaction" where
  "transaction_new now t h dat algo p a =
     \<lparr>tr_tid = t, tr_hnd = h, tr_msg_data = dat, tr_rtx_algo = algo, tr_path = p, tr_create_time = now,
      tr_maybe_auth = a, tr_rtx_count = 0\<rparr>"

definition start_transaction :: "timepoint \<Rightarrow> transaction_id \<Rightarrow> request \<Rightarrow> bytes \<Rightarrow> client \<Rightarrow> handle \<Rightarrow> client" where
  "start_transaction now tid rq dat c hnd =
     (let c = (if cl_tid_to_handle c tid \<noteq> None then c
               else c\<lparr>cl_tid_to_handle := (cl_tid_to_handle c)(tid \<mapsto> hnd)\<rparr>);
          algo = allocate_rtx_algo (rq_path rq) now c;
          t = transaction_new now tid hnd dat algo (rq_path rq) (rq_maybe_auth rq);
          c = c\<lparr>cl_tmap := (cl_tmap c)(hnd \<mapsto> t), cl_effects := cl_effects c @ [SendData hnd (tr_msg_data t)]\<rparr>;
          (algo, maybe_timepoint) = rx_init now (tr_rtx_algo t);
          c = c\<lparr>cl_tmap := (cl_tmap c)(hnd \<mapsto> t\<lparr>tr_rtx_algo := algo\<rparr>)\<rparr>;
          c = (case maybe_timepoint of
                 Some tp \<Rightarrow> c\<lparr>cl_timeline := timeline_push (tp, hnd) (cl_timeline c)\<rparr>
               | None \<Rightarrow> c)
      in c\<lparr>cl_stat := (cl_stat c)\<lparr>st_started := inc (st_started (cl_stat c))\<rparr>\<rparr>)"

definition do_create ::
    "craftpp \<Rightarrow> (attr_map \<Rightarrow> attr_map) \<Rightarrow> timepoint \<Rightarrow> transaction_id \<Rightarrow> request \<Rightarrow> client
     \<Rightarrow> (client \<times> handle result) option" where
  "do_create cv ord now tid rq c =
     (case message_build cv ord (request_message (cl_settings c) tid rq)
             (map_option au_integrity (rq_maybe_auth rq)) of
        Inl e \<Rightarrow> Some (c, Inl e)
      | Inr dat \<Rightarrow>
          map_option (\<lambda>(c, hnd). (start_transaction now tid rq dat c hnd, Inr hnd)) (allocate_handle c))"

partial_function (option) client_create ::
    "('g \<Rightarrow> u32 \<times> 'g) \<Rightarrow> (u32 \<Rightarrow> bytes) \<Rightarrow> craftpp \<Rightarrow> (attr_map \<Rightarrow> attr_map) \<Rightarrow> 'g \<Rightarrow> timepoint \<Rightarrow> request
     \<Rightarrow> client \<Rightarrow> ('g \<times> client \<times> handle result) option" where
  [code]: "client_create r load cv ord g now rq c =
     (let (tid, g') = tid_generate r load g
      in if cl_tid_to_handle c tid \<noteq> None then client_create r load cv ord g' now rq c
         else map_option (\<lambda>x. (g', x)) (do_create cv ord now tid rq c))"

section \<open>Processing a response\<close>

definition upd_stat :: "(client_stat \<Rightarrow> client_stat) \<Rightarrow> client \<Rightarrow> client" where
  "upd_stat f c = c\<lparr>cl_stat := f (cl_stat c)\<rparr>"

definition push_effect :: "effect \<Rightarrow> client \<Rightarrow> client" where
  "push_effect e c = c\<lparr>cl_effects := cl_effects c @ [e]\<rparr>"

definition find_transaction :: "transaction_id \<Rightarrow> client \<Rightarrow> client \<times> transaction result" where
  "find_transaction tid c =
     (case cl_tid_to_handle c tid of
        None \<Rightarrow> (upd_stat (\<lambda>s. s\<lparr>st_transaction_not_found := inc (st_transaction_not_found s)\<rparr>) c,
                 Inl (ClientError transaction_not_found))
      | Some hnd \<Rightarrow>
          (case cl_tmap c hnd of
             None \<Rightarrow> (upd_stat (\<lambda>s. s\<lparr>st_transaction_not_found := inc (st_transaction_not_found s)\<rparr>) c,
                      Inl (ClientError transaction_not_found))
           | Some t \<Rightarrow> (c, Inr t)))"

definition check_response_auth :: "craftpp \<Rightarrow> transaction \<Rightarrow> message \<Rightarrow> bytes \<Rightarrow> client \<Rightarrow> client \<times> unit result" where
  "check_response_auth cv tran msg view c =
     (case tr_maybe_auth tran of
        None \<Rightarrow> (c, Inr ())
      | Some a \<Rightarrow>
          (case message_is_valid cv msg view (au_integrity a) of
             Inl e \<Rightarrow> (c, Inl e)
           | Inr (Some is_valid) \<Rightarrow>
               (if \<not> is_valid
                then (upd_stat (\<lambda>s. s\<lparr>st_integrity_check_errors := inc (st_integrity_check_errors s)\<rparr>) c,
                      Inl (ClientError digest_is_not_valid))
                else (c, Inr ()))
           | Inr None \<Rightarrow>
               (if \<not> cs_allow_unauthenticated_alternate (cl_settings c) \<or> \<not> is_alternate_server msg
                then (upd_stat (\<lambda>s. s\<lparr>st_integrity_missing := inc (st_integrity_missing s)\<rparr>) c,
                      Inl (ClientError no_integrity_attribute_in_response))
                else (c, Inr ()))))"

definition fail_unknown :: "handle \<Rightarrow> attribute_type list \<Rightarrow> client \<Rightarrow> client" where
  "fail_unknown hnd ucr c =
     push_effect (TransactionFailed hnd (UnknownComprehensionRequiredAttribute ucr))
       (upd_stat (\<lambda>s. s\<lparr>st_unknown_attribute := inc (st_unknown_attribute s)\<rparr>) c)"

definition response_effect :: "craftpp \<Rightarrow> handle \<Rightarrow> message \<Rightarrow> duration option \<Rightarrow> client \<Rightarrow> client \<times> effect" where
  "response_effect cv hnd msg maybe_rtt c =
     (case get_xor_mapped (m_attribute_set msg) of
        Some (addr, port) \<Rightarrow>
          (upd_stat (\<lambda>s. s\<lparr>st_success := inc (st_success s)\<rparr>) c,
           TransactionOk hnd \<lparr>ep_address = xored_to_address cv addr (h_transaction_id (m_header msg)), ep_port = port\<rparr>
             msg maybe_rtt)
      | None \<Rightarrow>
          (case get_mapped (m_attribute_set msg) of
             Some (addr, port) \<Rightarrow>
               (upd_stat (\<lambda>s. s\<lparr>st_success := inc (st_success s)\<rparr>) c,
                TransactionOk hnd \<lparr>ep_address = addr, ep_port = port\<rparr> msg maybe_rtt)
           | None \<Rightarrow>
               (upd_stat (\<lambda>s. s\<lparr>st_no_mapped_address := inc (st_no_mapped_address s)\<rparr>) c,
                TransactionFailed hnd (FailError (ClientError no_address_in_response)))))"

definition handle_success_response :: "craftpp \<Rightarrow> timepoint \<Rightarrow> transaction \<Rightarrow> message \<Rightarrow> client \<Rightarrow> client" where
  "handle_success_response cv now t msg c =
     (let ucr = unknown_comprehension_required (m_attribute_set msg)
      in if ucr \<noteq> [] then fail_unknown (tr_hnd t) ucr c
         else
           let (maybe_rtt, c) =
                 (if tr_rtx_count t = 0
                  then let rtt = tp_minus now (tr_create_time t)
                       in (Some rtt, c\<lparr>cl_rto_calc := new_rtt now (tr_path t) rtt (cl_rto_calc c)\<rparr>)
                  else (None, c\<lparr>cl_rto_calc := backoff now (tr_path t) (rx_last_timeout (tr_rtx_algo t)) (cl_rto_calc c)\<rparr>));
               (c, e) = response_effect cv (tr_hnd t) msg maybe_rtt c
           in push_effect e c)"

definition handle_alternate :: "transaction \<Rightarrow> message \<Rightarrow> client \<Rightarrow> client" where
  "handle_alternate t msg c =
     (let c = upd_stat (\<lambda>s. s\<lparr>st_response_3xx := inc (st_response_3xx s)\<rparr>) c
      in case get_alternate_server (m_attribute_set msg) of
           None \<Rightarrow>
             push_effect (TransactionFailed (tr_hnd t) (FailError (ClientError no_alternate_server_in_response)))
               (upd_stat (\<lambda>s. s\<lparr>st_no_alternate_server_attr := inc (st_no_alternate_server_attr s)\<rparr>) c)
         | Some (addr, port) \<Rightarrow>
             push_effect (TransactionFailed (tr_hnd t) (AlternateServer \<lparr>ep_address = addr, ep_port = port\<rparr>))
               (upd_stat (\<lambda>s. s\<lparr>st_try_alternate_responses := inc (st_try_alternate_responses s)\<rparr>) c))"

definition handle_error_code ::
    "timepoint \<Rightarrow> transaction \<Rightarrow> message \<Rightarrow> u32 \<Rightarrow> bytes option \<Rightarrow> client \<Rightarrow> client" where
  "handle_error_code now t msg code reason c =
     (if code div 100 = 3
      then push_effect (TransactionFailed (tr_hnd t) (ErrorCode code reason))
             (upd_stat (\<lambda>s. s\<lparr>st_response_3xx := inc (st_response_3xx s)\<rparr>) c)
      else if code div 100 = 4
      then (let c = upd_stat (\<lambda>s. s\<lparr>st_response_4xx := inc (st_response_4xx s)\<rparr>) c
            in if code = UnknownAttribute_code
               then (case get_unknown_attributes (m_attribute_set msg) of
                       Some types \<Rightarrow> push_effect (TransactionFailed (tr_hnd t) (UnknownAttributeReported types)) c
                     | None \<Rightarrow> push_effect (TransactionFailed (tr_hnd t) (ErrorCode code reason)) c)
               else push_effect (TransactionFailed (tr_hnd t) (ErrorCode code reason)) c)
      else if code div 100 = 5
      then (let c = upd_stat (\<lambda>s. s\<lparr>st_response_5xx := inc (st_response_5xx s)\<rparr>) c;
                (algo, r) = rx_process_5xx now (tr_rtx_algo t);
                c = c\<lparr>cl_tmap := (cl_tmap c)(tr_hnd t \<mapsto> t\<lparr>tr_rtx_algo := algo\<rparr>)\<rparr>
            in case r of
                 RetransmitScheduled \<Rightarrow> c
               | TransactionFailed_5xx \<Rightarrow> push_effect (TransactionFailed (tr_hnd t) (ErrorCode code reason)) c)
      else upd_stat (\<lambda>s. s\<lparr>st_unexpected_response_code := inc (st_unexpected_response_code s)\<rparr>) c)"

definition handle_error_response :: "timepoint \<Rightarrow> transaction \<Rightarrow> message \<Rightarrow> client \<Rightarrow> client" where
  "handle_error_response now t msg c =
     (let ucr = unknown_comprehension_required (m_attribute_set msg)
      in if ucr \<noteq> [] then fail_unknown (tr_hnd t) ucr c
         else case get_error_code (m_attribute_set msg) of
                None \<Rightarrow>
                  push_effect (TransactionFailed (tr_hnd t) (FailError (ClientError no_error_code_in_response)))
                    (upd_stat (\<lambda>s. s\<lparr>st_no_error_code := inc (st_no_error_code s)\<rparr>) c)
              | Some (code, reason) \<Rightarrow>
                  (if is_alternate_server msg then handle_alternate t msg c
                   else handle_error_code now t msg code reason c))"

definition response :: "craftpp \<Rightarrow> timepoint \<Rightarrow> bytes \<Rightarrow> message option \<Rightarrow> client \<Rightarrow> client \<times> unit result" where
  "response cv now view maybe_msg c =
     (let (c, msg_rv) = (case maybe_msg of
                           Some msg \<Rightarrow> (c, Inr msg)
                         | None \<Rightarrow> (let (st, r) = message_parse cv view (st_parse (cl_stat c))
                                    in (upd_stat (\<lambda>s. s\<lparr>st_parse := st\<rparr>) c, r)));
          (c, trans_ref_rv) = (case msg_rv of
                                 Inl e \<Rightarrow> (c, Inl e)
                               | Inr msg \<Rightarrow> find_transaction (h_transaction_id (m_header msg)) c);
          (c, auth_err) = (case (trans_ref_rv, msg_rv) of
                             (Inr tran, Inr msg) \<Rightarrow> check_response_auth cv tran msg view c
                           | _ \<Rightarrow> (c, combine2 cv (\<lambda>_ _. Inr ()) trans_ref_rv msg_rv))
      in case (trans_ref_rv, msg_rv, auth_err) of
           (Inr tran, Inr msg, Inr _) \<Rightarrow>
             (if h_cls (m_header msg) = SUCCESS_RESPONSE then handle_success_response cv now tran msg c
              else if h_cls (m_header msg) = ERROR_RESPONSE then handle_error_response now tran msg c
              else c, Inr ())
         | _ \<Rightarrow> (c, combine3 cv (\<lambda>_ _ _. Inr ()) trans_ref_rv msg_rv auth_err))"

section \<open>The next step\<close>

definition cleanup :: "handle \<Rightarrow> client \<Rightarrow> client" where
  "cleanup hnd c =
     (case cl_tmap c hnd of
        Some t \<Rightarrow> c\<lparr>cl_tid_to_handle := (cl_tid_to_handle c)(tr_tid t := None),
                    cl_tmap := (cl_tmap c)(hnd := None)\<rparr>
      | None \<Rightarrow> c)"

definition fire :: "timepoint \<Rightarrow> handle \<Rightarrow> transaction \<Rightarrow> client \<Rightarrow> client" where
  \<comment> \<open>the body of the loop for a timeline entry whose transaction exists\<close>
  "fire now hnd t c =
     (case rx_next now (tr_rtx_algo t) of
        (algo, Some nxt) \<Rightarrow>
          (let c = upd_stat (\<lambda>s. s\<lparr>st_retransmits := inc (st_retransmits s)\<rparr>) c;
               t = t\<lparr>tr_rtx_algo := algo, tr_rtx_count := tr_rtx_count t + 1\<rparr>
           in push_effect (SendData hnd (tr_msg_data t))
                (c\<lparr>cl_tmap := (cl_tmap c)(hnd \<mapsto> t), cl_timeline := timeline_push (nxt, hnd) (cl_timeline c)\<rparr>))
      | (algo, None) \<Rightarrow>
          push_effect (TransactionFailed hnd Timeout)
            (c\<lparr>cl_tmap := (cl_tmap c)(hnd \<mapsto> t\<lparr>tr_rtx_algo := algo\<rparr>)\<rparr>))"

definition rx_left :: "rtx_algo \<Rightarrow> nat" where
  \<comment> \<open>how often \<open>calc_next\<close> can still return a timepoint\<close>
  "rx_left a = unat (rt_request_count (rx_settings a) + rx_5xx_count a - 1 - rx_rtx_count a)"

definition due_weight :: "timepoint \<Rightarrow> (handle \<rightharpoonup> transaction) \<Rightarrow> timepoint \<times> handle \<Rightarrow> nat" where
  "due_weight now m x =
     (if is_after (fst x) now then 0
      else Suc (case m (snd x) of None \<Rightarrow> 0 | Some t \<Rightarrow> rx_left (tr_rtx_algo t)))"

definition due_measure :: "timepoint \<Rightarrow> client \<Rightarrow> nat" where
  "due_measure now c = sum_list (map (due_weight now (cl_tmap c)) (cl_timeline c))"

lemma word_pred_less: "(x :: u32) + 1 < y \<Longrightarrow> unat (y - 1 - (x + 1)) < unat (y - 1 - x)"
proof -
  assume a: "x + 1 < y"
  have "y - 1 - x \<noteq> 0"
  proof
    assume "y - 1 - x = 0"
    then have "y = x + 1" by (simp add: algebra_simps)
    with a show False by simp
  qed
  moreover have "y - 1 - (x + 1) = (y - 1 - x) - 1" by (simp add: algebra_simps)
  moreover have "unat w - 1 < unat w" if "w \<noteq> 0" for w :: u32
    using that unat_gt_0 [of w] by linarith
  ultimately show ?thesis by (metis unat_minus_one)
qed

lemma rx_next_cases:
  obtains (stop) "rx_next now a = (a\<lparr>rx_maybe_next := None\<rparr>, None)"
  | (wait) nxt where "rx_next now a = (a, Some nxt)" "is_after nxt now" "rx_maybe_next a = Some nxt"
  | (again) nxt a' where "rx_next now a = (a', Some nxt)" "rx_left a' < rx_left a"
      "rx_rtx_count a + 1 < rt_request_count (rx_settings a) + rx_5xx_count a" "rx_rtx_count a' = rx_rtx_count a + 1"
      "rx_calc_next now a = (Some nxt, rx_last_timeout a')"
proof (cases "rx_maybe_next a")
  case None
  then show ?thesis using stop by (simp add: rx_next_def)
next
  case (Some n)
  show ?thesis
  proof (cases "is_before now n")
    case True
    then show ?thesis using wait [of n] Some by (simp add: rx_next_def is_before_is_after)
  next
    case due: False
    show ?thesis
    proof (cases "rx_rtx_count a + 1 \<ge> rt_request_count (rx_settings a) + rx_5xx_count a")
      case True
      then show ?thesis using stop Some due by (simp add: rx_next_def rx_calc_next_def)
    next
      case False
      obtain nxt timeout where n: "rx_calc_next now a = (Some nxt, timeout)"
        using False by (simp add: rx_calc_next_def Let_def)
      let ?a = "a\<lparr>rx_maybe_next := Some nxt, rx_rtx_count := rx_rtx_count a + 1, rx_last_timeout := timeout\<rparr>"
      have "rx_next now a = (?a, Some nxt)" using Some due n by (simp add: rx_next_def)
      moreover have "rx_left ?a < rx_left a" 
        using word_pred_less [of "rx_rtx_count a" "rt_request_count (rx_settings a) + rx_5xx_count a"] False
        by (cases a) (simp only: rx_left_def rtx_algo.simps rtx_algo.update_convs not_le)
      ultimately show ?thesis using again [of ?a nxt] False n by (simp add: not_le)
    qed
  qed
qed

lemma sum_list_weight_mono:
  "(\<And>x. x \<in> set xs \<Longrightarrow> f x \<le> g x) \<Longrightarrow> sum_list (map f xs) \<le> (sum_list (map g xs) :: nat)"
  by (induction xs) (auto intro: add_mono)

lemma due_measure_fire:
  assumes tl: "cl_timeline c = (tp, hnd) # rest" "\<not> is_after tp now" and t: "cl_tmap c hnd = Some t"
  shows "due_measure now (fire now hnd t (c\<lparr>cl_timeline := rest\<rparr>)) < due_measure now c"
proof (cases rule: rx_next_cases [of now "tr_rtx_algo t"])
  case stop
  have "due_weight now ((cl_tmap c)(hnd \<mapsto> t\<lparr>tr_rtx_algo := tr_rtx_algo t\<lparr>rx_maybe_next := None\<rparr>\<rparr>)) x
          \<le> due_weight now (cl_tmap c) x" for x
    using t by (auto simp: due_weight_def rx_left_def)
  then show ?thesis
    using stop tl t sum_list_weight_mono [of rest "due_weight now ((cl_tmap c)(hnd \<mapsto> t\<lparr>tr_rtx_algo := tr_rtx_algo t\<lparr>rx_maybe_next := None\<rparr>\<rparr>))"
        "due_weight now (cl_tmap c)"]
    by (simp add: fire_def due_measure_def push_effect_def due_weight_def [of now "cl_tmap c" "(tp, hnd)"])
next
  case (wait nxt)
  let ?m = "(cl_tmap c)(hnd \<mapsto> t\<lparr>tr_rtx_count := tr_rtx_count t + 1\<rparr>)"
  have "due_weight now ?m x \<le> due_weight now (cl_tmap c) x" for x
    using t by (auto simp: due_weight_def rx_left_def)
  then show ?thesis
    using wait tl t sum_list_weight_mono [of rest "due_weight now ?m" "due_weight now (cl_tmap c)"]
    by (simp add: fire_def due_measure_def push_effect_def upd_stat_def Let_def due_weight_def [of now _ "(_, hnd)"])
next
  case (again nxt a')
  let ?m = "(cl_tmap c)(hnd \<mapsto> t\<lparr>tr_rtx_algo := a', tr_rtx_count := tr_rtx_count t + 1\<rparr>)"
  have "due_weight now ?m x \<le> due_weight now (cl_tmap c) x" for x
    using t again(2) by (auto simp: due_weight_def)
  then show ?thesis
    using again(1,2) tl t sum_list_weight_mono [of rest "due_weight now ?m" "due_weight now (cl_tmap c)"]
    by (simp add: fire_def due_measure_def push_effect_def upd_stat_def Let_def due_weight_def [of now _ "(_, hnd)"])
qed

lemma due_measure_pop:
  assumes "cl_timeline c = x # rest" "\<not> is_after (fst x) now"
  shows "due_measure now (c\<lparr>cl_timeline := rest\<rparr>) < due_measure now c"
  using assms by (simp add: due_measure_def due_weight_def)

function next_loop :: "timepoint \<Rightarrow> client \<Rightarrow> client" where
  "next_loop now c =
     (case cl_timeline c of
        [] \<Rightarrow> c
      | (tp, hnd) # rest \<Rightarrow>
          (if is_after tp now then c
           else let c = c\<lparr>cl_timeline := rest\<rparr>
                in case cl_tmap c hnd of
                     Some t \<Rightarrow> next_loop now (fire now hnd t c)
                   | None \<Rightarrow> next_loop now c))"
  by pat_completeness auto
termination
  by (relation "measure (\<lambda>(now, c). due_measure now c)")
    (auto intro: due_measure_fire due_measure_pop)

declare next_loop.simps [simp del]

definition client_next :: "timepoint \<Rightarrow> client \<Rightarrow> client \<times> effect" where
  "client_next now c =
     (let c = next_loop now c
      in case cl_effects c of
           e # es \<Rightarrow>
             (let c = c\<lparr>cl_effects := es\<rparr>
              in (case e of
                    TransactionFailed hnd _ \<Rightarrow> cleanup hnd c
                  | TransactionOk hnd _ _ _ \<Rightarrow> cleanup hnd c
                  | _ \<Rightarrow> c, e))
         | [] \<Rightarrow>
             (case cl_timeline c of
                [] \<Rightarrow> (c, Idle)
              | (tp, _) # _ \<Rightarrow> (c, Sleep (tp_minus tp now))))"

end
