(* ===== verification/Stun_Client_Inv.thy ===== *)
theory Stun_Client_Inv
  imports Stun_Client
begin

text \<open>
  The invariant of the UDP client over every sequence of its operations: the two tables of
  transactions are inverse to each other, and a transaction that is alive has a timer or a queued
  final effect.  From it: the client is idle only when no transaction is left.
\<close>

section \<open>Allocation of handles\<close>

lemma allocate_handle_fields:
  assumes "allocate_handle c = Some (c', hnd)"
  shows "cl_tmap c hnd = None \<and> (\<exists>n. c' = c\<lparr>cl_next_handle := n\<rparr>)"
proof -
  have "\<forall>c' hnd. r = (c', hnd) \<longrightarrow> cl_tmap c hnd = None \<and> (\<exists>n. c' = c\<lparr>cl_next_handle := n\<rparr>)"
    if "allocate_handle c = Some r" for c r
    using that
  proof (induction rule: allocate_handle.raw_induct [rotated, consumes 1])
    case (1 f c r)
    show ?case
    proof (cases "cl_tmap c (cl_next_handle c) = None")
      case True
      then show ?thesis using 1(2) by (auto simp: Let_def)
    next
      case False
      then have "f (c\<lparr>cl_next_handle := cl_next_handle c + 1\<rparr>) = Some r" using 1(2) by (auto simp: Let_def)
      from 1(1) [OF this] show ?thesis by auto
    qed
  qed
  with assms show ?thesis by blast
qed

lemma allocate_handle_skip:
  assumes "\<And>j. j < n \<Longrightarrow> cl_tmap c (cl_next_handle c + of_nat j) \<noteq> None"
    and "cl_tmap c (cl_next_handle c + of_nat n) = None"
  shows "allocate_handle c = Some (c\<lparr>cl_next_handle := cl_next_handle c + of_nat n + 1\<rparr>, cl_next_handle c + of_nat n)"
  using assms
proof (induction n arbitrary: c)
  case 0
  then show ?case by (subst allocate_handle.simps) (simp add: Let_def)
next
  case (Suc n)
  let ?c = "c\<lparr>cl_next_handle := cl_next_handle c + 1\<rparr>"
  have "allocate_handle ?c = Some (?c\<lparr>cl_next_handle := cl_next_handle ?c + of_nat n + 1\<rparr>, cl_next_handle ?c + of_nat n)"
  proof (rule Suc.IH)
    show "cl_tmap ?c (cl_next_handle ?c + of_nat j) \<noteq> None" if "j < n" for j
      using Suc.prems(1) [of "Suc j"] that by (simp add: add.assoc)
    show "cl_tmap ?c (cl_next_handle ?c + of_nat n) = None" using Suc.prems(2) by (simp add: add.assoc)
  qed
  moreover have "cl_tmap c (cl_next_handle c) \<noteq> None" using Suc.prems(1) [of 0] by simp
  ultimately show ?case by (subst allocate_handle.simps) (auto simp: Let_def add.assoc)
qed

lemma allocate_handle_total:
  assumes "cl_tmap c h = None"
  shows "\<exists>c' hnd. allocate_handle c = Some (c', hnd)"
proof -
  let ?P = "\<lambda>n. cl_tmap c (cl_next_handle c + of_nat n) = None"
  have "?P (unat (h - cl_next_handle c))" using assms by simp
  then have "?P (LEAST n. ?P n)" by (rule LeastI)
  then show ?thesis using allocate_handle_skip [of "LEAST n. ?P n" c] not_less_Least [of _ ?P] by blast
qed

lemma client_create_do_create:
  assumes "client_create r load cv ord g now rq c = Some (g', c', res)"
  shows "\<exists>tid. cl_tid_to_handle c tid = None \<and> do_create cv ord now tid rq c = Some (c', res)"
proof -
  have "\<forall>g' c' res. x = (g', c', res) \<longrightarrow> (\<exists>tid. cl_tid_to_handle c tid = None \<and> do_create cv ord now tid rq c = Some (c', res))"
    if "client_create r load cv ord g now rq c = Some x" for r load cv ord g now rq c x
    using that
  proof (induction rule: client_create.raw_induct [rotated, consumes 1])
    case (1 f r load cv ord g now rq c x)
    obtain tid g1 where t: "tid_generate r load g = (tid, g1)" by force
    show ?case
    proof (cases "cl_tid_to_handle c tid = None")
      case True
      then show ?thesis using 1(2) t by (auto simp: Let_def)
    next
      case False
      then have "f r load cv ord g1 now rq c = Some x" using 1(2) t by (simp add: Let_def)
      from 1(1) [OF this] show ?thesis .
    qed
  qed
  from this [OF assms] show ?thesis by simp
qed

section \<open>The invariant\<close>

fun final_for :: "handle \<Rightarrow> effect \<Rightarrow> bool" where
  "final_for h (TransactionOk h' _ _ _) \<longleftrightarrow> h' = h"
| "final_for h (TransactionFailed h' _) \<longleftrightarrow> h' = h"
| "final_for h _ \<longleftrightarrow> False"

fun queued_kind :: "effect \<Rightarrow> bool" where
  "queued_kind (Sleep _) \<longleftrightarrow> False"
| "queued_kind Idle \<longleftrightarrow> False"
| "queued_kind _ \<longleftrightarrow> True"

definition tables_ok :: "client \<Rightarrow> bool" where
  "tables_ok c \<longleftrightarrow>
     (\<forall>h t. cl_tmap c h = Some t \<longrightarrow> tr_hnd t = h \<and> cl_tid_to_handle c (tr_tid t) = Some h) \<and>
     (\<forall>tid h. cl_tid_to_handle c tid = Some h \<longrightarrow> (\<exists>t. cl_tmap c h = Some t \<and> tr_tid t = tid))"

definition scheduled :: "client \<Rightarrow> bool" where
  "scheduled c \<longleftrightarrow>
     (\<forall>h. cl_tmap c h \<noteq> None \<longrightarrow>
        h \<in> snd ` set (cl_timeline c) \<or> (\<exists>e \<in> set (cl_effects c). final_for h e))"

definition client_inv :: "client \<Rightarrow> bool" where
  "client_inv c \<longleftrightarrow> tables_ok c \<and> scheduled c \<and> list_all queued_kind (cl_effects c) \<and> rto_inv (cl_rto_calc c)"

lemma tables_okD:
  "tables_ok c \<Longrightarrow> cl_tmap c h = Some t \<Longrightarrow> tr_hnd t = h"
  "tables_ok c \<Longrightarrow> cl_tmap c h = Some t \<Longrightarrow> cl_tid_to_handle c (tr_tid t) = Some h"
  "tables_ok c \<Longrightarrow> cl_tid_to_handle c tid = Some h \<Longrightarrow> \<exists>t. cl_tmap c h = Some t \<and> tr_tid t = tid"
  by (auto simp: tables_ok_def)

lemma client_inv_new: "client_inv (client_new settings)"
  by (simp add: client_inv_def tables_ok_def scheduled_def client_new_def rto_inv_new)

lemma tables_ok_same:
  assumes "tables_ok c" "cl_tid_to_handle c' = cl_tid_to_handle c"
    and "\<And>h. map_option (\<lambda>t. (tr_tid t, tr_hnd t)) (cl_tmap c' h) = map_option (\<lambda>t. (tr_tid t, tr_hnd t)) (cl_tmap c h)"
  shows "tables_ok c'"
proof -
  have fwd: "\<exists>t'. cl_tmap c' h = Some t' \<and> tr_tid t' = tr_tid t \<and> tr_hnd t' = tr_hnd t" if "cl_tmap c h = Some t" for h t
    using assms(3) [of h] that by auto
  have bwd: "\<exists>t. cl_tmap c h = Some t \<and> tr_tid t = tr_tid t' \<and> tr_hnd t = tr_hnd t'" if "cl_tmap c' h = Some t'" for h t'
    using assms(3) [of h] that by (cases "cl_tmap c h") auto
  show ?thesis unfolding tables_ok_def assms(2)
  proof (intro conjI allI impI)
    fix h t' assume "cl_tmap c' h = Some t'"
    with bwd tables_okD(1,2) [OF assms(1)] show "tr_hnd t' = h" "cl_tid_to_handle c (tr_tid t') = Some h" by metis+
  next
    fix tid h assume "cl_tid_to_handle c tid = Some h"
    with fwd tables_okD(3) [OF assms(1)] show "\<exists>t. cl_tmap c' h = Some t \<and> tr_tid t = tid" by metis
  qed
qed

lemma tables_ok_update:
  assumes "tables_ok c" "cl_tmap c h = Some t" "tr_tid t' = tr_tid t" "tr_hnd t' = tr_hnd t"
    "cl_tid_to_handle c' = cl_tid_to_handle c" "cl_tmap c' = (cl_tmap c)(h \<mapsto> t')"
  shows "tables_ok c'"
  by (rule tables_ok_same [OF assms(1,5)]) (simp add: assms(2-4,6))

lemma tables_ok_insert:
  assumes "tables_ok c" "cl_tmap c h = None" "cl_tid_to_handle c tid = None" "tr_tid t = tid" "tr_hnd t = h"
    "cl_tid_to_handle c' = (cl_tid_to_handle c)(tid \<mapsto> h)" "cl_tmap c' = (cl_tmap c)(h \<mapsto> t)"
  shows "tables_ok c'"
proof -
  have "tr_tid u \<noteq> tid" if "cl_tmap c k = Some u" for k u
    using tables_okD(2) [OF assms(1) that] assms(3) by auto
  moreover have "k \<noteq> h" if "cl_tid_to_handle c i = Some k" for i k
    using tables_okD(3) [OF assms(1) that] assms(2) by auto
  ultimately show ?thesis using assms unfolding tables_ok_def by simp
qed

lemma tables_ok_cleanup:
  assumes "tables_ok c"
  shows "tables_ok (cleanup h c)"
proof (cases "cl_tmap c h")
  case (Some t)
  have "tr_tid t' \<noteq> tr_tid t" if "cl_tmap c h' = Some t'" "h' \<noteq> h" for h' t'
    using tables_okD(2) [OF assms that(1)] tables_okD(2) [OF assms Some] that(2) by auto
  moreover have "tid = tr_tid t" if "cl_tid_to_handle c tid = Some h" for tid
    using tables_okD(3) [OF assms that] Some by auto
  ultimately show ?thesis using assms Some unfolding tables_ok_def cleanup_def by auto
qed (use assms in \<open>simp add: cleanup_def\<close>)

section \<open>Every operation keeps the invariant\<close>

lemma start_transaction_fields [client_simps]:
  "cl_tid_to_handle (start_transaction now tid rq dat c hnd) =
     (if cl_tid_to_handle c tid = None then (cl_tid_to_handle c)(tid \<mapsto> hnd) else cl_tid_to_handle c)"
  "cl_effects (start_transaction now tid rq dat c hnd) = cl_effects c @ [SendData hnd dat]"
  "cl_timeline (start_transaction now tid rq dat c hnd) =
     timeline_push (advance now (rto (rq_path rq) (cl_rto_calc c)), hnd) (cl_timeline c)"
  "cl_rto_calc (start_transaction now tid rq dat c hnd) = cl_rto_calc c"
  "cl_settings (start_transaction now tid rq dat c hnd) = cl_settings c"
  "cl_tmap (start_transaction now tid rq dat c hnd) = (cl_tmap c)(hnd \<mapsto>
     \<lparr>tr_tid = tid, tr_hnd = hnd, tr_msg_data = dat,
      tr_rtx_algo = rx_new (rto (rq_path rq) (cl_rto_calc c)) (cs_retransmit (cl_settings c)) now,
      tr_path = rq_path rq, tr_create_time = now, tr_maybe_auth = rq_maybe_auth rq, tr_rtx_count = 0\<rparr>)"
  by (simp_all add: start_transaction_def allocate_rtx_algo_def transaction_new_def rx_init_def rx_new_def Let_def)

lemma scheduled_add:
  assumes "scheduled c" "cl_tmap c' = (cl_tmap c)(hnd \<mapsto> t)" "set (cl_effects c) \<subseteq> set (cl_effects c')"
    "set (cl_timeline c) \<subseteq> set (cl_timeline c')" "hnd \<in> snd ` set (cl_timeline c')"
  shows "scheduled c'"
  unfolding scheduled_def
proof (intro allI impI)
  fix h assume "cl_tmap c' h \<noteq> None"
  then consider "h = hnd" | "cl_tmap c h \<noteq> None" using assms(2) by (auto split: if_splits)
  then show "h \<in> snd ` set (cl_timeline c') \<or> (\<exists>e \<in> set (cl_effects c'). final_for h e)"
    using assms(1,3,4,5) unfolding scheduled_def by cases blast+
qed

lemma client_inv_create:
  assumes "client_inv c" "cl_tid_to_handle c tid = None" "do_create cv ord now tid rq c = Some (c', r)"
  shows "client_inv c'"
proof (cases r)
  case (Inl e)
  then show ?thesis using assms by (auto simp: do_create_def split: sum.splits)
next
  case (Inr hnd)
  then obtain dat c1 where d: "allocate_handle c = Some (c1, hnd)" "c' = start_transaction now tid rq dat c1 hnd"
    using assms(3) by (auto simp: do_create_def split: sum.splits)
  obtain n where n: "cl_tmap c hnd = None" "c1 = c\<lparr>cl_next_handle := n\<rparr>" using allocate_handle_fields [OF d(1)] by blast
  note f = d(2) n(2) start_transaction_fields
  have inv: "tables_ok c" "scheduled c" "list_all queued_kind (cl_effects c)" "rto_inv (cl_rto_calc c)"
    using assms(1) by (simp_all add: client_inv_def)
  have "tables_ok c'" by (rule tables_ok_insert [OF inv(1) n(1) assms(2)]) (simp_all add: f assms(2))
  moreover have "scheduled c'" by (rule scheduled_add [OF inv(2)]) (auto simp: f)
  ultimately show ?thesis using inv(3,4) by (simp add: client_inv_def f)
qed

text \<open>
  What processing a response can change: the statistics, the memory of round-trip times, the
  retransmission state of the one transaction concerned, and one more final effect for it.
\<close>

definition response_frame :: "transaction \<Rightarrow> client \<Rightarrow> client \<Rightarrow> bool" where
  "response_frame t c c' \<longleftrightarrow>
     (\<exists>st rt es a. c' = c\<lparr>cl_stat := st, cl_rto_calc := rt, cl_effects := cl_effects c @ es, cl_tmap := cl_tmap c'\<rparr> \<and>
        (cl_tmap c' = cl_tmap c \<or> cl_tmap c' = (cl_tmap c)(tr_hnd t \<mapsto> t\<lparr>tr_rtx_algo := a\<rparr>)) \<and>
        length es \<le> 1 \<and> list_all (final_for (tr_hnd t)) es \<and>
        (rto_inv (cl_rto_calc c) \<longrightarrow> rto_inv rt))"

lemma response_frameI:
  assumes "c' = c\<lparr>cl_stat := st, cl_rto_calc := rt, cl_effects := cl_effects c @ es, cl_tmap := m\<rparr>"
    "m = cl_tmap c \<or> m = (cl_tmap c)(tr_hnd t \<mapsto> t\<lparr>tr_rtx_algo := a\<rparr>)" "length es \<le> 1" "list_all (final_for (tr_hnd t)) es"
    "rto_inv (cl_rto_calc c) \<longrightarrow> rto_inv rt"
  shows "response_frame t c c'"
  unfolding response_frame_def using assms by (intro exI [of _ st] exI [of _ rt] exI [of _ es] exI [of _ a]) simp

lemma client_eqI:
  "cl_settings c = cl_settings c' \<Longrightarrow> cl_stat c = cl_stat c' \<Longrightarrow> cl_next_handle c = cl_next_handle c' \<Longrightarrow>
   cl_tid_to_handle c = cl_tid_to_handle c' \<Longrightarrow> cl_tmap c = cl_tmap c' \<Longrightarrow> cl_timeline c = cl_timeline c' \<Longrightarrow>
   cl_effects c = cl_effects c' \<Longrightarrow> cl_rto_calc c = cl_rto_calc c' \<Longrightarrow> c = (c' :: client)"
  by simp

lemma fail_frame:
  "response_frame t c (push_effect (TransactionFailed (tr_hnd t) w) (upd_stat f c))"
  "response_frame t c (push_effect (TransactionFailed (tr_hnd t) w) (upd_stat f (upd_stat g c)))"
  "response_frame t c (upd_stat f c)"
    apply (rule response_frameI [where st = "f (cl_stat c)" and rt = "cl_rto_calc c" and es = "[TransactionFailed (tr_hnd t) w]" and m = "cl_tmap c"];
      simp add: push_effect_def upd_stat_def)
   apply (rule response_frameI [where st = "f (g (cl_stat c))" and rt = "cl_rto_calc c" and es = "[TransactionFailed (tr_hnd t) w]" and m = "cl_tmap c"];
     simp add: push_effect_def upd_stat_def)
  apply (rule response_frameI [where st = "f (cl_stat c)" and rt = "cl_rto_calc c" and es = "[]" and m = "cl_tmap c"]; simp add: upd_stat_def)
  done

lemma handle_error_code_frame: "response_frame t c (handle_error_code now t msg code reason c)"
proof (cases "code div 100 = 5")
  case True
  let ?st = "(cl_stat c)\<lparr>st_response_5xx := inc (st_response_5xx (cl_stat c))\<rparr>"
  obtain a r where p: "rx_process_5xx now (tr_rtx_algo t) = (a, r)" by force
  let ?m = "(cl_tmap c)(tr_hnd t \<mapsto> t\<lparr>tr_rtx_algo := a\<rparr>)"
  show ?thesis
  proof (cases r)
    case TransactionFailed_5xx
    then show ?thesis using True p
      by (intro response_frameI [where rt = "cl_rto_calc c" and es = "[TransactionFailed (tr_hnd t) (ErrorCode code reason)]" and a = a
            and st = ?st and m = ?m])
        (auto simp: handle_error_code_def push_effect_def upd_stat_def Let_def)
  next
    case RetransmitScheduled
    then show ?thesis using True p
      by (intro response_frameI [where rt = "cl_rto_calc c" and es = "[]" and a = a and st = ?st and m = ?m])
        (auto simp: handle_error_code_def upd_stat_def Let_def)
  qed
qed (auto simp: handle_error_code_def fail_frame Let_def split: option.split)

lemma handle_error_frame: "response_frame t c (handle_error_response now t msg c)"
  by (auto simp: handle_error_response_def handle_alternate_def fail_unknown_def fail_frame handle_error_code_frame Let_def
      split: option.split)

lemma response_effect_fields:
  "\<exists>f e. response_effect cv hnd msg rtt c = (upd_stat f c, e) \<and> final_for hnd e"
  by (auto simp: response_effect_def split: option.split prod.split)

lemma handle_success_frame: "response_frame t c (handle_success_response cv now t msg c)"
proof (cases "unknown_comprehension_required (m_attribute_set msg) = []")
  case True
  define rtt where "rtt = (if tr_rtx_count t = 0 then Some (tp_minus now (tr_create_time t)) else None)"
  define rc where "rc = (if tr_rtx_count t = 0 then new_rtt now (tr_path t) (tp_minus now (tr_create_time t)) (cl_rto_calc c)
    else backoff now (tr_path t) (rx_last_timeout (tr_rtx_algo t)) (cl_rto_calc c))"
  obtain f e where f: "response_effect cv (tr_hnd t) msg rtt (c\<lparr>cl_rto_calc := rc\<rparr>) = (upd_stat f (c\<lparr>cl_rto_calc := rc\<rparr>), e)"
    "final_for (tr_hnd t) e"
    using response_effect_fields by blast
  have "handle_success_response cv now t msg c = push_effect e (upd_stat f (c\<lparr>cl_rto_calc := rc\<rparr>))"
    using True f by (simp add: handle_success_response_def Let_def rtt_def rc_def split: if_splits)
  then show ?thesis using f(2)
    by (intro response_frameI [where st = "f (cl_stat c)" and rt = rc and es = "[e]" and m = "cl_tmap c"])
      (simp_all add: push_effect_def upd_stat_def rc_def rto_inv_ops)
qed (simp add: handle_success_response_def fail_unknown_def fail_frame)

text \<open>
  When a response is processed at all: its transaction is known and, if the request was signed, the
  response is signed with the same credential, or it is an unsigned redirection and the settings allow
  those.
\<close>

definition received :: "craftpp \<Rightarrow> bytes \<Rightarrow> message option \<Rightarrow> client \<Rightarrow> message result" where
  "received cv view maybe_msg c =
     (case maybe_msg of Some msg \<Rightarrow> Inr msg | None \<Rightarrow> snd (message_parse cv view (st_parse (cl_stat c))))"

definition authentic :: "craftpp \<Rightarrow> client_settings \<Rightarrow> transaction \<Rightarrow> message \<Rightarrow> bytes \<Rightarrow> bool" where
  "authentic cv settings t msg view \<longleftrightarrow>
     (case tr_maybe_auth t of
        None \<Rightarrow> True
      | Some a \<Rightarrow>
          message_is_valid cv msg view (au_integrity a) = Inr (Some True) \<or>
          (message_is_valid cv msg view (au_integrity a) = Inr None \<and>
           cs_allow_unauthenticated_alternate settings \<and> is_alternate_server msg))"

definition dispatch :: "craftpp \<Rightarrow> timepoint \<Rightarrow> transaction \<Rightarrow> message \<Rightarrow> client \<Rightarrow> client" where
  "dispatch cv now t msg c =
     (if h_cls (m_header msg) = SUCCESS_RESPONSE then handle_success_response cv now t msg c
      else if h_cls (m_header msg) = ERROR_RESPONSE then handle_error_response now t msg c
      else c)"

lemma dispatch_frame: "response_frame t c (dispatch cv now t msg c)"
proof -
  have "response_frame t c c"
    by (rule response_frameI [where es = "[]" and m = "cl_tmap c" and st = "cl_stat c" and rt = "cl_rto_calc c"]) simp_all
  then show ?thesis by (simp add: dispatch_def handle_success_frame handle_error_frame)
qed

section \<open>The reaction to a response\<close>

text \<open>
  What an authentic response means for its transaction (RFC 5389 7.3.3 and 7.3.4), as a table over the
  message: the address it discovers, the effect that ends the transaction, and when it stays open.
\<close>

definition discovered :: "craftpp \<Rightarrow> message \<Rightarrow> udp_endpoint option" where
  "discovered cv msg =
     (case get_xor_mapped (m_attribute_set msg) of
        Some (x, p) \<Rightarrow> Some \<lparr>ep_address = xored_to_address cv x (h_transaction_id (m_header msg)), ep_port = p\<rparr>
      | None \<Rightarrow> map_option (\<lambda>(a, p). \<lparr>ep_address = a, ep_port = p\<rparr>) (get_mapped (m_attribute_set msg)))"

definition retry_allowed :: "transaction \<Rightarrow> bool" where
  "retry_allowed t \<longleftrightarrow>
     rt_server_error_timeout (rx_settings (tr_rtx_algo t)) \<noteq> None \<and>
     rx_5xx_count (tr_rtx_algo t) < rt_server_error_max_retransmits (rx_settings (tr_rtx_algo t))"

fun error_verdict :: "transaction \<Rightarrow> message \<Rightarrow> u32 \<Rightarrow> bytes option \<Rightarrow> fail_reason option" where
  "error_verdict t msg code reason =
     (if code = TryAlternate
      then Some (case get_alternate_server (m_attribute_set msg) of
                   Some (a, p) \<Rightarrow> AlternateServer \<lparr>ep_address = a, ep_port = p\<rparr>
                 | None \<Rightarrow> FailError (ClientError no_alternate_server_in_response))
      else if code div 100 = 5 \<and> retry_allowed t \<or> code div 100 \<notin> {3, 4, 5} then None
      else case (code = UnknownAttribute_code, get_unknown_attributes (m_attribute_set msg)) of
             (True, Some types) \<Rightarrow> Some (UnknownAttributeReported types)
           | _ \<Rightarrow> Some (ErrorCode code reason))"

definition response_verdict :: "craftpp \<Rightarrow> timepoint \<Rightarrow> transaction \<Rightarrow> message \<Rightarrow> effect option" where
  "response_verdict cv now t msg =
     (let unknown = unknown_comprehension_required (m_attribute_set msg); cls = h_cls (m_header msg) in
      if cls \<notin> {SUCCESS_RESPONSE, ERROR_RESPONSE} then None
      else if unknown \<noteq> [] then Some (TransactionFailed (tr_hnd t) (UnknownComprehensionRequiredAttribute unknown))
      else if cls = SUCCESS_RESPONSE
      then Some (case discovered cv msg of
                   Some ep \<Rightarrow> TransactionOk (tr_hnd t) ep msg
                     (if tr_rtx_count t = 0 then Some (tp_minus now (tr_create_time t)) else None)
                 | None \<Rightarrow> TransactionFailed (tr_hnd t) (FailError (ClientError no_address_in_response)))
      else case get_error_code (m_attribute_set msg) of
             None \<Rightarrow> Some (TransactionFailed (tr_hnd t) (FailError (ClientError no_error_code_in_response)))
           | Some (code, reason) \<Rightarrow> map_option (TransactionFailed (tr_hnd t)) (error_verdict t msg code reason))"

text \<open>A server error that is answered with another attempt after the configured time.\<close>

definition retried :: "transaction \<Rightarrow> message \<Rightarrow> bool" where
  "retried t msg \<longleftrightarrow>
     h_cls (m_header msg) = ERROR_RESPONSE \<and> unknown_comprehension_required (m_attribute_set msg) = [] \<and>
     (\<exists>code reason. get_error_code (m_attribute_set msg) = Some (code, reason) \<and> code div 100 = 5) \<and> retry_allowed t"

definition retry_scheduled :: "timepoint \<Rightarrow> transaction \<Rightarrow> transaction" where
  "retry_scheduled now t =
     t\<lparr>tr_rtx_algo := (tr_rtx_algo t)\<lparr>rx_5xx_count := rx_5xx_count (tr_rtx_algo t) + 1,
        rx_maybe_next := Some (advance now (the (rt_server_error_timeout (rx_settings (tr_rtx_algo t)))))\<rparr>\<rparr>"

text \<open>Karn's algorithm: a round-trip time is only taken from a request that was sent once.\<close>

definition rto_learned :: "timepoint \<Rightarrow> transaction \<Rightarrow> message \<Rightarrow> rto_calc \<Rightarrow> rto_calc" where
  "rto_learned now t msg rc =
     (if h_cls (m_header msg) \<noteq> SUCCESS_RESPONSE \<or> unknown_comprehension_required (m_attribute_set msg) \<noteq> [] then rc
      else if tr_rtx_count t = 0 then new_rtt now (tr_path t) (tp_minus now (tr_create_time t)) rc
      else backoff now (tr_path t) (rx_last_timeout (tr_rtx_algo t)) rc)"

lemma process_5xx_retry:
  "rx_process_5xx now (tr_rtx_algo t) =
     (if retry_allowed t then (tr_rtx_algo (retry_scheduled now t), RetransmitScheduled)
      else (tr_rtx_algo t, TransactionFailed_5xx))"
  by (auto simp: rx_process_5xx_def retry_allowed_def retry_scheduled_def split: option.split)

lemma response_effect_snd:
  "snd (response_effect cv h msg rtt c) =
     (case discovered cv msg of Some ep \<Rightarrow> TransactionOk h ep msg rtt
      | None \<Rightarrow> TransactionFailed h (FailError (ClientError no_address_in_response)))"
  by (auto simp: response_effect_def discovered_def split: option.split)

lemma dispatch_success:
  assumes "h_cls (m_header msg) = SUCCESS_RESPONSE"
  shows "cl_effects (dispatch cv now t msg c) = cl_effects c @ (case response_verdict cv now t msg of None \<Rightarrow> [] | Some e \<Rightarrow> [e])"
    "cl_rto_calc (dispatch cv now t msg c) = rto_learned now t msg (cl_rto_calc c)" "cl_tmap (dispatch cv now t msg c) = cl_tmap c"
proof -
  have e: "\<exists>f. fst (response_effect cv (tr_hnd t) msg rtt x) = upd_stat f x" for rtt x
    using response_effect_fields [of cv "tr_hnd t" msg rtt x] by auto
  have fields: "cl_effects (fst (response_effect cv (tr_hnd t) msg rtt x)) = cl_effects x"
    "cl_rto_calc (fst (response_effect cv (tr_hnd t) msg rtt x)) = cl_rto_calc x"
    "cl_tmap (fst (response_effect cv (tr_hnd t) msg rtt x)) = cl_tmap x" for rtt x
    using e [of rtt x] by (auto simp: upd_stat_def)
  show "cl_effects (dispatch cv now t msg c) = cl_effects c @ (case response_verdict cv now t msg of None \<Rightarrow> [] | Some e \<Rightarrow> [e])"
    "cl_rto_calc (dispatch cv now t msg c) = rto_learned now t msg (cl_rto_calc c)" "cl_tmap (dispatch cv now t msg c) = cl_tmap c"
    using assms by (simp_all add: dispatch_def handle_success_response_def response_verdict_def rto_learned_def fail_unknown_def
        push_effect_def upd_stat_def case_prod_beta response_effect_snd fields Let_def split: option.split)
qed

lemma dispatch_error:
  assumes "h_cls (m_header msg) = ERROR_RESPONSE" "cl_tmap c (tr_hnd t) = Some t"
  shows "cl_effects (dispatch cv now t msg c) = cl_effects c @ (case response_verdict cv now t msg of None \<Rightarrow> [] | Some e \<Rightarrow> [e])
    \<and> cl_rto_calc (dispatch cv now t msg c) = cl_rto_calc c
    \<and> cl_tmap (dispatch cv now t msg c) = (if retried t msg then (cl_tmap c)(tr_hnd t \<mapsto> retry_scheduled now t) else cl_tmap c)"
proof (cases "unknown_comprehension_required (m_attribute_set msg) = []")
  case False
  then show ?thesis using assms(1)
    by (simp add: dispatch_def handle_error_response_def response_verdict_def fail_unknown_def push_effect_def upd_stat_def retried_def)
next
  case known: True
  show ?thesis
  proof (cases "get_error_code (m_attribute_set msg)")
    case None
    then show ?thesis using assms(1) known
      by (simp add: dispatch_def handle_error_response_def response_verdict_def push_effect_def upd_stat_def retried_def)
  next
    case (Some cr)
    obtain code reason where cr: "cr = (code, reason)" by force
    show ?thesis
    proof (cases "code = TryAlternate")
      case True
      then show ?thesis using assms(1) known Some cr
        by (auto simp: dispatch_def handle_error_response_def handle_alternate_def is_alternate_server_def response_verdict_def
            push_effect_def upd_stat_def retried_def Let_def split: option.split)
    next
      case False
      have hundreds: "code div 100 = 4" if "code = UnknownAttribute_code" using that by simp
      have same: "(cl_tmap c)(tr_hnd t \<mapsto> t) = cl_tmap c" using assms(2) by (simp add: fun_upd_idem)
      from False show ?thesis using assms(1) known Some cr hundreds
        by (auto simp: dispatch_def handle_error_response_def handle_error_code_def is_alternate_server_def response_verdict_def
            push_effect_def upd_stat_def retried_def process_5xx_retry retry_scheduled_def same Let_def split: option.split)
    qed
  qed
qed

section \<open>Which responses are processed\<close>

lemma check_response_auth_cases:
  obtains (no) st e where "check_response_auth cv t msg view c = (c\<lparr>cl_stat := st\<rparr>, Inl e)"
      "\<not> authentic cv (cl_settings c) t msg view"
  | (yes) "check_response_auth cv t msg view c = (c, Inr ())" "authentic cv (cl_settings c) t msg view"
proof (cases "tr_maybe_auth t")
  case None
  then show ?thesis using yes by (simp add: check_response_auth_def authentic_def)
next
  case (Some a)
  show ?thesis
  proof (cases "message_is_valid cv msg view (au_integrity a)")
    case (Inl e)
    then show ?thesis using Some no [of "cl_stat c"] by (simp add: check_response_auth_def authentic_def)
  next
    case v: (Inr m)
    show ?thesis
    proof (cases m)
      case None
      then show ?thesis using Some v yes no
        by (auto simp: check_response_auth_def authentic_def upd_stat_def split: if_splits)
    next
      case b: (Some b)
      then show ?thesis using Some v yes no
        by (cases b) (auto simp: check_response_auth_def authentic_def upd_stat_def)
    qed
  qed
qed

lemma find_transaction_cases:
  obtains (unknown) st where "find_transaction tid c = (c\<lparr>cl_stat := st\<rparr>, Inl (ClientError transaction_not_found))"
      "Option.bind (cl_tid_to_handle c tid) (cl_tmap c) = None"
  | (found) t where "find_transaction tid c = (c, Inr t)" "Option.bind (cl_tid_to_handle c tid) (cl_tmap c) = Some t"
proof (cases "cl_tid_to_handle c tid")
  case None
  then show ?thesis using unknown by (simp add: find_transaction_def upd_stat_def)
next
  case (Some h)
  then show ?thesis using unknown found by (cases "cl_tmap c h") (simp_all add: find_transaction_def upd_stat_def)
qed

lemma response_cases:
  assumes "response cv now view maybe_msg c = (c', r)"
  obtains (ignored) st e where "r = Inl e" "c' = c\<lparr>cl_stat := st\<rparr>"
      "\<And>msg t. received cv view maybe_msg c = Inr msg \<Longrightarrow>
         Option.bind (cl_tid_to_handle c (h_transaction_id (m_header msg))) (cl_tmap c) = Some t \<Longrightarrow>
         \<not> authentic cv (cl_settings c) t msg view"
  | (processed) st msg t where "r = Inr ()" "received cv view maybe_msg c = Inr msg"
      "Option.bind (cl_tid_to_handle c (h_transaction_id (m_header msg))) (cl_tmap c) = Some t"
      "authentic cv (cl_settings c) t msg view" "c' = dispatch cv now t msg (c\<lparr>cl_stat := st\<rparr>)"
proof -
  define p where "p = (case maybe_msg of Some msg \<Rightarrow> (c, Inr msg)
    | None \<Rightarrow> (let (st, r) = message_parse cv view (st_parse (cl_stat c)) in (upd_stat (\<lambda>s. s\<lparr>st_parse := st\<rparr>) c, r)))"
  have "\<exists>st. p = (c\<lparr>cl_stat := st\<rparr>, received cv view maybe_msg c)"
    unfolding p_def received_def by (cases maybe_msg) (auto simp: upd_stat_def split: prod.split intro: exI [of _ "cl_stat c"])
  then obtain st where p: "p = (c\<lparr>cl_stat := st\<rparr>, received cv view maybe_msg c)" ..
  let ?c = "c\<lparr>cl_stat := st\<rparr>"
  show ?thesis
  proof (cases "received cv view maybe_msg c")
    case (Inl e)
    with assms p show ?thesis
      by (intro ignored [of _ st]) (auto simp: response_def combine2_def combine3_def simp flip: p_def)
  next
    case msg: (Inr msg)
    show ?thesis
    proof (cases rule: find_transaction_cases [of "h_transaction_id (m_header msg)" ?c])
      case (unknown st')
      with assms p msg show ?thesis
        by (intro ignored [of _ st']) (auto simp: response_def combine2_def combine3_def simp flip: p_def)
    next
      case (found t)
      show ?thesis
      proof (cases rule: check_response_auth_cases [of cv t msg view ?c])
        case (no st' e)
        with assms p msg found show ?thesis
          by (intro ignored [of _ st']) (auto simp: response_def combine3_def simp flip: p_def)
      next
        case yes
        with assms p msg found show ?thesis
          by (intro processed [of msg t st]) (auto simp: response_def dispatch_def simp flip: p_def)
      qed
    qed
  qed
qed

lemma client_inv_frame:
  assumes "client_inv c" "cl_tmap c h = Some t" "response_frame t c c'"
  shows "client_inv c'"
proof -
  have h: "tr_hnd t = h" using assms(1,2) tables_okD(1) by (auto simp: client_inv_def)
  obtain st rt es a m where c': "c' = c\<lparr>cl_stat := st, cl_rto_calc := rt, cl_effects := cl_effects c @ es, cl_tmap := m\<rparr>"
    "m = cl_tmap c \<or> m = (cl_tmap c)(h \<mapsto> t\<lparr>tr_rtx_algo := a\<rparr>)"
    "list_all (final_for h) es" "rto_inv (cl_rto_calc c) \<longrightarrow> rto_inv rt"
    using assms(3) h unfolding response_frame_def by blast
  have "tables_ok c'"
    by (rule tables_ok_same [of c]) (use assms(1,2) c' in \<open>auto simp: client_inv_def\<close>)
  moreover have "scheduled c'" unfolding scheduled_def
  proof (intro allI impI)
    fix k assume "cl_tmap c' k \<noteq> None"
    then have "cl_tmap c k \<noteq> None" using c'(1,2) assms(2) by (auto split: if_splits)
    then show "k \<in> snd ` set (cl_timeline c') \<or> (\<exists>e \<in> set (cl_effects c'). final_for k e)"
      using assms(1) c'(1) by (auto simp: client_inv_def scheduled_def)
  qed
  moreover have "list_all queued_kind es"
  proof -
    have "final_for h e \<Longrightarrow> queued_kind e" for e by (cases e) simp_all
    then show ?thesis using c'(3) by (auto simp: list_all_iff)
  qed
  ultimately show ?thesis using assms(1) c' by (simp add: client_inv_def)
qed

lemma client_inv_stat [simp]: "client_inv (c\<lparr>cl_stat := st\<rparr>) \<longleftrightarrow> client_inv c"
  by (simp add: client_inv_def tables_ok_def scheduled_def)

lemma client_inv_response:
  assumes "client_inv c" "response cv now view maybe_msg c = (c', r)"
  shows "client_inv c'"
  using assms(2)
proof (cases rule: response_cases)
  case (ignored st e)
  then show ?thesis using assms(1) by simp
next
  case (processed st msg t)
  obtain h where "cl_tmap (c\<lparr>cl_stat := st\<rparr>) h = Some t" using processed(3) by (auto simp: Option.bind_eq_Some_conv)
  from client_inv_frame [OF _ this dispatch_frame] show ?thesis using assms(1) processed(5) by simp
qed

section \<open>The timer loop\<close>

lemma fire_cases:
  obtains (again) t' nxt st where
      "fire now hnd t c = c\<lparr>cl_stat := st, cl_tmap := (cl_tmap c)(hnd \<mapsto> t'),
         cl_timeline := timeline_push (nxt, hnd) (cl_timeline c), cl_effects := cl_effects c @ [SendData hnd (tr_msg_data t)]\<rparr>"
      "tr_tid t' = tr_tid t" "tr_hnd t' = tr_hnd t" "snd (rx_next now (tr_rtx_algo t)) = Some nxt"
  | (timeout) t' where
      "fire now hnd t c = c\<lparr>cl_tmap := (cl_tmap c)(hnd \<mapsto> t'),
         cl_effects := cl_effects c @ [TransactionFailed hnd Timeout]\<rparr>"
      "tr_tid t' = tr_tid t" "tr_hnd t' = tr_hnd t" "snd (rx_next now (tr_rtx_algo t)) = None"
proof (cases "rx_next now (tr_rtx_algo t)")
  case (Pair a m)
  show ?thesis
  proof (cases m)
    case None
    then show ?thesis using Pair by (intro timeout [of "t\<lparr>tr_rtx_algo := a\<rparr>"]) (simp_all add: fire_def push_effect_def)
  next
    case (Some nxt)
    then show ?thesis using Pair
      by (intro again [of _ "t\<lparr>tr_rtx_algo := a, tr_rtx_count := tr_rtx_count t + 1\<rparr>"]) (simp_all add: fire_def push_effect_def upd_stat_def Let_def)
  qed
qed

lemma client_inv_fire:
  assumes "client_inv c" "cl_timeline c = (tp, hnd) # rest" "cl_tmap c hnd = Some t"
  shows "client_inv (fire now hnd t (c\<lparr>cl_timeline := rest\<rparr>))" (is "client_inv ?c")
proof -
  have inv: "tables_ok c" "scheduled c" "list_all queued_kind (cl_effects c)" "rto_inv (cl_rto_calc c)"
    using assms(1) by (simp_all add: client_inv_def)
  have sch: "h \<in> snd ` set rest \<or> (\<exists>e \<in> set (cl_effects c). final_for h e)" if "h \<noteq> hnd" "cl_tmap c h \<noteq> None" for h
    using inv(2) that assms(2) by (auto simp: scheduled_def)
  show ?thesis
  proof (cases rule: fire_cases [of now hnd t "c\<lparr>cl_timeline := rest\<rparr>"])
    case (again t' nxt st)
    have "tables_ok ?c" by (rule tables_ok_update [OF inv(1) assms(3) again(2,3)]) (simp_all add: again(1))
    moreover have "scheduled ?c" using sch by (auto simp: scheduled_def again(1))
    ultimately show ?thesis using inv(3,4) by (simp add: client_inv_def again(1))
  next
    case (timeout t')
    have "tables_ok ?c" by (rule tables_ok_update [OF inv(1) assms(3) timeout(2,3)]) (simp_all add: timeout(1))
    moreover have "scheduled ?c" using sch by (auto simp: scheduled_def timeout(1))
    ultimately show ?thesis using inv(3,4) by (simp add: client_inv_def timeout(1))
  qed
qed

lemma client_inv_pop:
  assumes "client_inv c" "cl_timeline c = (tp, hnd) # rest" "cl_tmap c hnd = None"
  shows "client_inv (c\<lparr>cl_timeline := rest\<rparr>)"
  using assms by (auto simp: client_inv_def tables_ok_def scheduled_def)

text \<open>One step of the loop, so that what every step keeps, the loop keeps.\<close>

lemma next_loop_cases:
  obtains (halt) "next_loop now c = c" "cl_timeline c = [] \<or> is_after (fst (hd (cl_timeline c))) now"
  | (gone) tp hnd rest where "cl_timeline c = (tp, hnd) # rest" "\<not> is_after tp now" "cl_tmap c hnd = None"
      "next_loop now c = next_loop now (c\<lparr>cl_timeline := rest\<rparr>)"
  | (fired) tp hnd rest t where "cl_timeline c = (tp, hnd) # rest" "\<not> is_after tp now" "cl_tmap c hnd = Some t"
      "next_loop now c = next_loop now (fire now hnd t (c\<lparr>cl_timeline := rest\<rparr>))"
proof (cases "cl_timeline c")
  case Nil
  then show ?thesis by (intro halt) (subst next_loop.simps, simp_all)
next
  case (Cons x rest)
  obtain tp hnd where x: "x = (tp, hnd)" by force
  show ?thesis
  proof (cases "is_after tp now")
    case True
    then show ?thesis using Cons x by (intro halt) (subst next_loop.simps, simp_all)
  next
    case due: False
    show ?thesis
    proof (cases "cl_tmap c hnd")
      case None
      then show ?thesis using Cons x due by (intro gone) (auto simp: next_loop.simps [of now c])
    next
      case (Some t)
      then show ?thesis using Cons x due by (intro fired) (auto simp: next_loop.simps [of now c])
    qed
  qed
qed

lemma next_loop_keeps:
  assumes "P c"
    and "\<And>c tp hnd rest. P c \<Longrightarrow> cl_timeline c = (tp, hnd) # rest \<Longrightarrow> \<not> is_after tp now \<Longrightarrow> cl_tmap c hnd = None \<Longrightarrow>
      P (c\<lparr>cl_timeline := rest\<rparr>)"
    and "\<And>c tp hnd rest t. P c \<Longrightarrow> cl_timeline c = (tp, hnd) # rest \<Longrightarrow> \<not> is_after tp now \<Longrightarrow> cl_tmap c hnd = Some t \<Longrightarrow>
      P (fire now hnd t (c\<lparr>cl_timeline := rest\<rparr>))"
  shows "P (next_loop now c) \<and> (cl_timeline (next_loop now c) = [] \<or> is_after (fst (hd (cl_timeline (next_loop now c)))) now)"
  using assms(1)
proof (induction "due_measure now c" arbitrary: c rule: less_induct)
  case less
  show ?case
  proof (cases rule: next_loop_cases [of now c])
    case halt
    then show ?thesis using less.prems by simp
  next
    case (gone tp hnd rest)
    show ?thesis unfolding gone(4)
      using less.hyps [OF due_measure_pop assms(2) [OF less.prems gone(1-3)]] gone(1,2) by simp
  next
    case (fired tp hnd rest t)
    show ?thesis unfolding fired(4)
      using less.hyps [OF due_measure_fire [OF fired(1-3)] assms(3) [OF less.prems fired(1-3)]] .
  qed
qed

lemma client_inv_loop: "client_inv c \<Longrightarrow> client_inv (next_loop now c)"
  using next_loop_keeps [of client_inv c now] client_inv_pop client_inv_fire by blast

lemma next_loop_head: "cl_timeline (next_loop now c) = [] \<or> is_after (fst (hd (cl_timeline (next_loop now c)))) now"
  using next_loop_keeps [of "\<lambda>_. True" c now] by blast

lemma client_inv_cleanup:
  assumes "client_inv c" "cl_effects c = e # es" "\<forall>k. final_for k e \<longrightarrow> k = h"
  shows "client_inv (cleanup h (c\<lparr>cl_effects := es\<rparr>))" (is "client_inv (cleanup h ?c)")
proof -
  have "tables_ok ?c" using assms(1) by (simp add: client_inv_def tables_ok_def)
  then have "tables_ok (cleanup h ?c)" by (rule tables_ok_cleanup)
  moreover have "scheduled (cleanup h ?c)"
    using assms by (fastforce simp: client_inv_def scheduled_def cleanup_def split: option.split)
  ultimately show ?thesis using assms(1,2) by (simp add: client_inv_def cleanup_def split: option.split)
qed

lemma client_next_cases:
  obtains (idle) "client_next now c = (next_loop now c, Idle)" "cl_effects (next_loop now c) = []"
      "cl_timeline (next_loop now c) = []"
  | (sleep) tp h rest where "client_next now c = (next_loop now c, Sleep (tp_minus tp now))"
      "cl_effects (next_loop now c) = []" "cl_timeline (next_loop now c) = (tp, h) # rest" "is_after tp now"
  | (send) e es where "client_next now c = ((next_loop now c)\<lparr>cl_effects := es\<rparr>, e)"
      "cl_effects (next_loop now c) = e # es" "\<And>h. \<not> final_for h e"
  | (final) e es h where "client_next now c = (cleanup h ((next_loop now c)\<lparr>cl_effects := es\<rparr>), e)"
      "cl_effects (next_loop now c) = e # es" "\<And>k. final_for k e \<longleftrightarrow> k = h"
proof (cases "cl_effects (next_loop now c)")
  case Nil
  then show ?thesis using idle sleep next_loop_head [of now c]
    by (cases "cl_timeline (next_loop now c)") (auto simp: client_next_def Let_def)
next
  case (Cons e es)
  show ?thesis
  proof (cases "\<exists>h. final_for h e")
    case True
    then obtain h where "final_for h e" ..
    then show ?thesis using Cons final [of h es e] by (cases e) (auto simp: client_next_def Let_def)
  next
    case False
    then show ?thesis using Cons send [of es e] by (cases e) (auto simp: client_next_def Let_def)
  qed
qed

lemma client_inv_next:
  assumes "client_inv c" "client_next now c = (c', e)"
  shows "client_inv c'"
proof (cases rule: client_next_cases [of now c])
  case idle
  then show ?thesis using assms client_inv_loop by simp
next
  case sleep
  then show ?thesis using assms client_inv_loop by simp
next
  case (send e es)
  then show ?thesis using assms client_inv_loop [OF assms(1), of now]
    by (auto simp: client_inv_def tables_ok_def scheduled_def)
next
  case (final e es h)
  then show ?thesis using assms client_inv_cleanup [OF client_inv_loop [OF assms(1)] final(2)] by simp
qed

section \<open>Runs of the client\<close>

text \<open>One operation of the interface, with any arguments.\<close>

inductive client_step :: "client \<Rightarrow> client \<Rightarrow> bool" where
  create: "cl_tid_to_handle c tid = None \<Longrightarrow> do_create cv ord now tid rq c = Some (c', r) \<Longrightarrow> client_step c c'"
| respond: "response cv now view maybe_msg c = (c', r) \<Longrightarrow> client_step c c'"
| tick: "client_next now c = (c', e) \<Longrightarrow> client_step c c'"

inductive reachable :: "client \<Rightarrow> bool" where
  start: "reachable (client_new settings)"
| step: "reachable c \<Longrightarrow> client_step c c' \<Longrightarrow> reachable c'"

inductive_cases client_stepE: "client_step c c'"

lemma client_create_step: "client_create r load cv ord g now rq c = Some (g', c', res) \<Longrightarrow> client_step c c'"
  using client_create_do_create client_step.create by metis

lemma client_inv_step: "client_inv c \<Longrightarrow> client_step c c' \<Longrightarrow> client_inv c'"
  by (erule client_stepE) (blast intro: client_inv_create client_inv_response client_inv_next)+

lemma reachable_inv: "reachable c \<Longrightarrow> client_inv c"
  by (induction rule: reachable.induct) (blast intro: client_inv_new client_inv_step)+

text \<open>The identifiers that the generator hands out one after the other.\<close>

fun nth_generator :: "('g \<Rightarrow> u32 \<times> 'g) \<Rightarrow> (u32 \<Rightarrow> bytes) \<Rightarrow> nat \<Rightarrow> 'g \<Rightarrow> 'g" where
  "nth_generator r load 0 g = g"
| "nth_generator r load (Suc k) g = nth_generator r load k (snd (tid_generate r load g))"

lemma client_create_total:
  assumes "cl_tmap c h = None" "cl_tid_to_handle c (fst (tid_generate r load (nth_generator r load k g))) = None"
  shows "\<exists>res. client_create r load cv ord g now rq c = Some res"
  using assms(2)
proof (induction k arbitrary: g)
  case 0
  obtain tid g1 where t: "tid_generate r load g = (tid, g1)" by force
  moreover have "cl_tid_to_handle c tid = None" using 0 t by simp
  moreover have "\<exists>x. do_create cv ord now tid rq c = Some x"
    using allocate_handle_total [OF assms(1)] by (auto simp: do_create_def split: sum.split)
  ultimately show ?case by (subst client_create.simps) auto
next
  case (Suc k)
  obtain tid g1 where t: "tid_generate r load g = (tid, g1)" by force
  show ?case
  proof (cases "cl_tid_to_handle c tid")
    case None
    moreover have "\<exists>x. do_create cv ord now tid rq c = Some x"
      using allocate_handle_total [OF assms(1)] by (auto simp: do_create_def split: sum.split)
    ultimately show ?thesis using t by (subst client_create.simps) auto
  next
    case (Some k)
    moreover have "\<exists>res. client_create r load cv ord g1 now rq c = Some res"
      using Suc t by simp
    ultimately show ?thesis using t by (subst client_create.simps) auto
  qed
qed

section \<open>Properties\<close>

text \<open>A client in the middle of a transaction, for the examples.\<close>

definition sample_request :: request where
  "sample_request = \<lparr>rq_path = sample_path, rq_attrs = [], rq_unknown_attrs = [],
     rq_maybe_auth = Some \<lparr>au_username = [0x61],
       au_integrity = \<lparr>id_password = \<lparr>pw_ipad = [1], pw_opad = [2]\<rparr>, id_hash = (\<lambda>_. Inr (replicate 20 7))\<rparr>\<rparr>\<rparr>"

definition sample_tid :: transaction_id where
  "sample_tid = [1, 2, 3, 4, 5, 6, 7, 8, 9, 10, 11, 12]"

definition sample_client :: client where
  "sample_client =
     (case do_create list_view (\<lambda>m. m) 1000 sample_tid sample_request (client_new (default_settings\<lparr>cs_use_fingerprint := False\<rparr>)) of
        Some (c, _) \<Rightarrow> c | None \<Rightarrow> client_new default_settings)"

lemma sample_client_created:
  "case do_create list_view (\<lambda>m. m) 1000 sample_tid sample_request (client_new (default_settings\<lparr>cs_use_fingerprint := False\<rparr>)) of
     Some (c, Inr hnd) \<Rightarrow> hnd = 0 \<and> cl_tid_to_handle c sample_tid = Some 0 \<and> cl_timeline c = [(501000, 0)]
   | _ \<Rightarrow> False"
  by code_simp

lemma sample_client_result:
  "do_create list_view (\<lambda>m. m) 1000 sample_tid sample_request (client_new (default_settings\<lparr>cs_use_fingerprint := False\<rparr>))
     = Some (sample_client, Inr 0)"
  using sample_client_created unfolding sample_client_def by (simp split: option.splits prod.splits sum.splits)

lemma sample_client_reachable: "reachable sample_client"
proof -
  have "client_step (client_new (default_settings\<lparr>cs_use_fingerprint := False\<rparr>)) sample_client"
    by (rule client_step.create [OF _ sample_client_result]) (simp add: client_new_def)
  then show ?thesis by (blast intro: reachable.intros)
qed

lemma sample_client_fields:
  "cl_tid_to_handle sample_client sample_tid = Some 0" "\<exists>t. cl_tmap sample_client 0 = Some t"
proof -
  show t: "cl_tid_to_handle sample_client sample_tid = Some 0"
    using sample_client_created sample_client_result by simp
  show "\<exists>t. cl_tmap sample_client 0 = Some t"
    using reachable_inv [OF sample_client_reachable] tables_okD(3) [OF _ t] by (auto simp: client_inv_def)
qed

text \<open>
  C5.  The state invariant of the client: in every state that any sequence of \<open>create\<close>, \<open>response\<close> and
  \<open>next\<close> leads to, a transaction is found under its own handle and its identifier leads to that
  handle, every registered identifier leads to a transaction with that identifier, and every
  transaction has a timer in the timeline or a queued effect that ends it.
\<close>

theorem client_tables_consistent:
  assumes "reachable c"
  shows "(\<forall>h t. cl_tmap c h = Some t \<longrightarrow> tr_hnd t = h \<and> cl_tid_to_handle c (tr_tid t) = Some h)
    \<and> (\<forall>tid h. cl_tid_to_handle c tid = Some h \<longrightarrow> (\<exists>t. cl_tmap c h = Some t \<and> tr_tid t = tid))
    \<and> (\<forall>h t. cl_tmap c h = Some t \<longrightarrow>
         (\<exists>tp. (tp, h) \<in> set (cl_timeline c)) \<or> (\<exists>e \<in> set (cl_effects c). final_for h e))"
proof -
  have inv: "tables_ok c" "scheduled c" using reachable_inv [OF assms] by (simp_all add: client_inv_def)
  have "(\<exists>tp. (tp, h) \<in> set (cl_timeline c)) \<or> (\<exists>e \<in> set (cl_effects c). final_for h e)" if "cl_tmap c h = Some t" for h t
    using inv(2) that unfolding scheduled_def by (force dest: spec [of _ h])
  with inv(1) show ?thesis unfolding tables_ok_def by simp
qed

theorem client_tables_consistent_witness:
  "reachable sample_client \<and> cl_tid_to_handle sample_client sample_tid = Some 0
   \<and> (\<exists>t. cl_tmap sample_client 0 = Some t \<and> tr_tid t = sample_tid \<and> tr_hnd t = 0)"
  using client_tables_consistent [OF sample_client_reachable] sample_client_reachable sample_client_fields(1) by blast

lemma idle_empty:
  assumes "client_inv c" "client_next now c = (c', Idle)"
  shows "cl_tmap c' = Map.empty \<and> cl_tid_to_handle c' = Map.empty \<and> cl_effects c' = []"
proof -
  have inv: "client_inv (next_loop now c)" by (rule client_inv_loop [OF assms(1)])
  then have kinds: "e \<noteq> Idle" if "e \<in> set (cl_effects (next_loop now c))" for e
    using that by (auto simp: client_inv_def list_all_iff)
  obtain "c' = next_loop now c" "cl_effects c' = []" "cl_timeline c' = []"
    by (cases rule: client_next_cases [of now c]) (use assms(2) kinds in auto)
  moreover from this have "cl_tmap c' = Map.empty" using inv by (auto simp: client_inv_def scheduled_def)
  ultimately show ?thesis using inv by (auto simp: client_inv_def tables_ok_def fun_eq_iff)
qed

text \<open>
  C6.  No transaction is lost: when \<open>next\<close> reports that the client is idle, no transaction is left in
  either table, after any sequence of operations.
\<close>

theorem client_idle_when_done:
  assumes "reachable c" "client_next now c = (c', Idle)"
  shows "cl_tmap c' = Map.empty \<and> cl_tid_to_handle c' = Map.empty \<and> cl_effects c' = []"
  by (rule idle_empty [OF reachable_inv [OF assms(1)] assms(2)])

theorem client_idle_when_done_witness:
  "\<exists>c. client_next 5 (client_new default_settings) = (c, Idle) \<and> cl_tmap c = Map.empty"
proof -
  have "client_next 5 (client_new default_settings) = (client_new default_settings, Idle)"
    by (simp add: client_next_def next_loop.simps client_new_def)
  from client_idle_when_done [OF reachable.start this] this show ?thesis by blast
qed

lemma bound_transaction:
  assumes "client_inv c" "Option.bind (cl_tid_to_handle c tid) (cl_tmap c) = Some t"
  shows "cl_tmap c (tr_hnd t) = Some t"
  using assms tables_okD(1) by (auto simp: client_inv_def bind_eq_Some_conv)

lemma rto_learned_other_path:
  assumes "rto_inv rc" "q \<noteq> tr_path t"
  shows "rc_by_path (rto_learned now t msg rc) q = rc_by_path rc q \<or>
    rc_by_path (rto_learned now t msg rc) q = None \<and>
      (\<exists>d. rc_by_path rc q = Some d \<and> rs_history_duration (rc_settings rc) < tp_minus now (rd_last_update d))"
  using other_path [OF assms] by (simp add: rto_learned_def)

lemma dispatch_reaction:
  assumes "cl_tmap c (tr_hnd t) = Some t" and c'_def: "c' = dispatch cv now t msg c"
  shows "c' = c\<lparr>cl_stat := cl_stat c',
      cl_effects := cl_effects c @ (case response_verdict cv now t msg of None \<Rightarrow> [] | Some e \<Rightarrow> [e]),
      cl_tmap := (if retried t msg then (cl_tmap c)(tr_hnd t \<mapsto> retry_scheduled now t) else cl_tmap c),
      cl_rto_calc := rto_learned now t msg (cl_rto_calc c)\<rparr>"
proof -
  have frame: "cl_settings c' = cl_settings c" "cl_next_handle c' = cl_next_handle c" "cl_tid_to_handle c' = cl_tid_to_handle c"
    "cl_timeline c' = cl_timeline c"
    using dispatch_frame [of t c cv now msg] by (auto simp: c'_def response_frame_def)
  consider (success) "h_cls (m_header msg) = SUCCESS_RESPONSE" | (error) "h_cls (m_header msg) = ERROR_RESPONSE"
    | (other) "h_cls (m_header msg) \<notin> {SUCCESS_RESPONSE, ERROR_RESPONSE}" by blast
  then show ?thesis
  proof cases
    case success
    then show ?thesis using dispatch_success [OF success, of cv now t c] frame
      by (intro client_eqI) (simp_all add: c'_def retried_def)
  next
    case error
    then show ?thesis using dispatch_error [OF error assms(1), of cv now] frame
      by (intro client_eqI) (simp_all add: c'_def rto_learned_def)
  next
    case other
    then show ?thesis by (simp add: c'_def dispatch_def response_verdict_def retried_def rto_learned_def)
  qed
qed

text \<open>
  C8.  A response takes effect exactly if it is authentic.  Bytes that do not parse, a message of an unknown
  transaction, and, for a signed request, a message without the digest of the same credential (or an
  unsigned redirection that the settings do not allow) are answered with an error and change nothing but
  the statistics.  An authentic message queues the effect that its contents ask for, which ends its
  transaction, or, if it is neither a success nor an error response, an error of no known class or a server error that may be retried, none; a
  retried server error changes the timer of this transaction only; a success gives the round-trip
  time, or the last timeout if the request was repeated, to the path of this transaction; the memory
  of another path stays as it is or is forgotten because of its age.
\<close>

theorem response_takes_effect_iff_authentic:
  assumes "reachable c" "response cv now view maybe_msg c = (c', r)"
  shows "case received cv view maybe_msg c of
      Inl _ \<Rightarrow> is_err r \<and> c' = c\<lparr>cl_stat := cl_stat c'\<rparr>
    | Inr msg \<Rightarrow>
        (case Option.bind (cl_tid_to_handle c (h_transaction_id (m_header msg))) (cl_tmap c) of
           None \<Rightarrow> is_err r \<and> c' = c\<lparr>cl_stat := cl_stat c'\<rparr>
         | Some t \<Rightarrow>
             (if \<not> authentic cv (cl_settings c) t msg view then is_err r \<and> c' = c\<lparr>cl_stat := cl_stat c'\<rparr>
              else r = Inr () \<and>
                c' = c\<lparr>cl_stat := cl_stat c',
                  cl_effects := cl_effects c @ (case response_verdict cv now t msg of None \<Rightarrow> [] | Some e \<Rightarrow> [e]),
                  cl_tmap := (if retried t msg then (cl_tmap c)(tr_hnd t \<mapsto> retry_scheduled now t) else cl_tmap c),
                  cl_rto_calc := rto_learned now t msg (cl_rto_calc c)\<rparr> \<and>
                (\<forall>q. q \<noteq> tr_path t \<longrightarrow>
                   rc_by_path (cl_rto_calc c') q = rc_by_path (cl_rto_calc c) q \<or>
                   rc_by_path (cl_rto_calc c') q = None \<and>
                     (\<exists>d. rc_by_path (cl_rto_calc c) q = Some d \<and>
                        rs_history_duration (rc_settings (cl_rto_calc c)) < tp_minus now (rd_last_update d)))))"
  using assms(2)
proof (cases rule: response_cases)
  case (ignored st e)
  then show ?thesis by (auto split: sum.split option.split)
next
  case (processed st msg t)
  have inv: "client_inv c" by (rule reachable_inv [OF assms(1)])
  let ?c = "c\<lparr>cl_stat := st\<rparr>"
  have "cl_tmap ?c (tr_hnd t) = Some t" using bound_transaction [OF inv processed(3)] by simp
  then have "c' = ?c\<lparr>cl_stat := cl_stat c',
      cl_effects := cl_effects ?c @ (case response_verdict cv now t msg of None \<Rightarrow> [] | Some e \<Rightarrow> [e]),
      cl_tmap := (if retried t msg then (cl_tmap ?c)(tr_hnd t \<mapsto> retry_scheduled now t) else cl_tmap ?c),
      cl_rto_calc := rto_learned now t msg (cl_rto_calc ?c)\<rparr>"
    by (rule dispatch_reaction) (rule processed(5))
  then have c': "c' = c\<lparr>cl_stat := cl_stat c',
      cl_effects := cl_effects c @ (case response_verdict cv now t msg of None \<Rightarrow> [] | Some e \<Rightarrow> [e]),
      cl_tmap := (if retried t msg then (cl_tmap c)(tr_hnd t \<mapsto> retry_scheduled now t) else cl_tmap c),
      cl_rto_calc := rto_learned now t msg (cl_rto_calc c)\<rparr>" by (cases "retried t msg") simp_all
  then have "cl_rto_calc c' = rto_learned now t msg (cl_rto_calc c)" by (metis client.select_convs(8) client.surjective client.update_convs(8))
  moreover have "rto_inv (cl_rto_calc c)" using inv by (simp add: client_inv_def)
  ultimately show ?thesis using c' processed(1-4) rto_learned_other_path [of "cl_rto_calc c"] by simp
qed

definition sample_forged :: message where
  "sample_forged = \<lparr>m_header = \<lparr>h_cls = SUCCESS_RESPONSE, h_method = binding_method, h_transaction_id = sample_tid\<rparr>,
     m_attribute_set = empty_set, m_is_rfc3489 = False, m_integrity_interval = None\<rparr>"

theorem response_takes_effect_iff_authentic_witness:
  "is_err (snd (response list_view 2000 [] (Some sample_forged) sample_client))
   \<and> cl_effects (fst (response list_view 2000 [] (Some sample_forged) sample_client)) = cl_effects sample_client"
proof -
  obtain c' r where r: "response list_view 2000 [] (Some sample_forged) sample_client = (c', r)" by force
  obtain t where t: "cl_tmap sample_client 0 = Some t" using sample_client_fields(2) ..
  have "case cl_tmap sample_client 0 of Some t \<Rightarrow> \<not> authentic list_view (cl_settings sample_client) t sample_forged [] | None \<Rightarrow> False"
    by code_simp
  then have "\<not> authentic list_view (cl_settings sample_client) t sample_forged []" using t by simp
  moreover have "received list_view [] (Some sample_forged) sample_client = Inr sample_forged"
    "h_transaction_id (m_header sample_forged) = sample_tid" by (simp_all add: received_def sample_forged_def)
  ultimately have "is_err r \<and> c' = sample_client\<lparr>cl_stat := cl_stat c'\<rparr>"
    using response_takes_effect_iff_authentic [OF sample_client_reachable r] sample_client_fields(1) t by simp
  then have "is_err r" "cl_effects c' = cl_effects sample_client" by (simp, metis client.select_convs(7) client.surjective client.update_convs(2))
  then show ?thesis by (simp add: r)
qed

text \<open>
  C18.  \<open>create\<close> returns: if some handle is free and the random generator sooner or later yields an
  identifier that no transaction uses, both search loops end.
\<close>

theorem client_create_returns:
  assumes "cl_tmap c h = None" "cl_tid_to_handle c (fst (tid_generate r load (nth_generator r load k g))) = None"
  shows "\<exists>g' c' res. client_create r load cv ord g now rq c = Some (g', c', res) \<and> client_step c c'"
proof -
  obtain g' c' res where "client_create r load cv ord g now rq c = Some (g', c', res)"
    using client_create_total [OF assms] by (metis prod.exhaust)
  with client_create_step [OF this] show ?thesis by blast
qed

theorem client_create_returns_witness:
  "\<exists>g' c' res. client_create (\<lambda>n. (n, n + 1)) (be_encode 4) list_view rev (0 :: u32) 7 sample_request sample_client
     = Some (g', c', res) \<and> client_step sample_client c'"
  by (rule client_create_returns [of _ 1 _ _ 0])
    code_simp+

end
