(* ===== verification/Stun_Client_Run.thy ===== *)
theory Stun_Client_Run
  imports Stun_Client_Inv
begin

text \<open>
  Runs of the client in time: the caller performs each effect and sleeps exactly as long as \<open>next\<close>
  asks.  The retransmission schedule of RFC 5389 (7.2.1) as the trace of such a run, and what a
  success response does to the transaction and to the memory of round-trip times.
\<close>

section \<open>A caller that follows the effects\<close>

fun drive :: "nat \<Rightarrow> timepoint \<Rightarrow> client \<Rightarrow> (timepoint \<times> effect) list" where
  "drive 0 now c = []"
| "drive (Suc n) now c =
     (case client_next now c of
        (c', Sleep d) \<Rightarrow> drive n (advance now d) c'
      | (c', Idle) \<Rightarrow> [(now, Idle)]
      | (c', e) \<Rightarrow> (now, e) # drive n now c')"

text \<open>
  The times of the schedule relative to the creation, for an initial timeout \<open>R\<close>, a number of requests
  \<open>Rc\<close> and a final factor \<open>Rm\<close>: when the request with number \<open>k\<close> is sent, and how long to wait then.
\<close>

definition sent_at :: "duration \<Rightarrow> nat \<Rightarrow> duration" where
  "sent_at R k = R * (2 ^ k - 1)"

definition wait_after :: "duration \<Rightarrow> nat \<Rightarrow> duration \<Rightarrow> nat \<Rightarrow> duration" where
  "wait_after R Rc Rm k = (if Suc k = Rc then R * Rm else R * 2 ^ k)"

text \<open>The one running transaction after its request number \<open>k\<close>.\<close>

definition running :: "timepoint \<Rightarrow> duration \<Rightarrow> handle \<Rightarrow> bytes \<Rightarrow> nat \<Rightarrow> client \<Rightarrow> bool" where
  "running base R h dat k c \<longleftrightarrow>
     (\<exists>t. let rt = cs_retransmit (cl_settings c); a = tr_rtx_algo t;
              due = advance base (sent_at R k + wait_after R (unat (rt_request_count rt)) (uint (rt_retransmission_multiplier rt)) k)
          in cl_tmap c h = Some t \<and> tr_msg_data t = dat \<and> cl_timeline c = [(due, h)] \<and> rx_maybe_next a = Some due \<and>
             rx_settings a = rt \<and> rx_initial_rto a = R \<and> rx_5xx_count a = 0 \<and> rx_rtx_count a = of_nat k \<and>
             rx_last_timeout a = wait_after R (unat (rt_request_count rt)) (uint (rt_retransmission_multiplier rt)) k)"

definition schedule_ok :: "duration \<Rightarrow> retransmit_default \<Rightarrow> bool" where
  "schedule_ok R rt \<longleftrightarrow> 0 < R \<and> rt_max_rto rt = None \<and> 2 \<le> unat (rt_request_count rt) \<and>
     0 < uint (rt_retransmission_multiplier rt) \<and> R * 2 ^ unat (rt_request_count rt) < 2 ^ 63 \<and>
     R * uint (rt_retransmission_multiplier rt) < 2 ^ 63"

lemma wait_bounds:
  assumes "schedule_ok R rt" "k < unat (rt_request_count rt)"
  shows "0 < wait_after R (unat (rt_request_count rt)) (uint (rt_retransmission_multiplier rt)) k"
    "wait_after R (unat (rt_request_count rt)) (uint (rt_retransmission_multiplier rt)) k < 2 ^ 63"
proof -
  have "R * 2 ^ k \<le> R * 2 ^ unat (rt_request_count rt)"
    using assms by (intro mult_left_mono power_increasing) (auto simp: schedule_ok_def)
  also have "\<dots> < 2 ^ 63" using assms(1) by (simp add: schedule_ok_def)
  finally have "R * 2 ^ k < 2 ^ 63" .
  then show "0 < wait_after R (unat (rt_request_count rt)) (uint (rt_retransmission_multiplier rt)) k"
    "wait_after R (unat (rt_request_count rt)) (uint (rt_retransmission_multiplier rt)) k < 2 ^ 63"
    using assms by (auto simp: wait_after_def schedule_ok_def)
qed

lemma sent_Suc: "Suc k < Rc \<Longrightarrow> sent_at R k + wait_after R Rc Rm k = sent_at R (Suc k)"
  by (simp add: sent_at_def wait_after_def algebra_simps)

lemma is_after_wait:
  assumes "0 < d" "d < 2 ^ 63"
  shows "is_after (advance base (s + d)) (advance base s)" "tp_minus (advance base (s + d)) (advance base s) = d"
proof -
  have e: "advance base (s + d) = advance (advance base s) d" by (simp add: advance_advance)
  show "is_after (advance base (s + d)) (advance base s)" using is_after_advance [of d] assms by (simp add: e)
  have "tp_minus (advance base (s + d)) (advance base s) = sint (word_of_int d :: u64)"
    by (simp add: tp_minus_eq advance_def)
  then show "tp_minus (advance base (s + d)) (advance base s) = d" using assms sint_word_of_int_64 [of d] by simp
qed

lemma rx_calc_next_schedule:
  assumes "schedule_ok R (rx_settings a)" "rx_initial_rto a = R" "rx_5xx_count a = 0" "rx_rtx_count a = of_nat k"
    "k < unat (rt_request_count (rx_settings a))"
    "rx_last_timeout a = wait_after R (unat (rt_request_count (rx_settings a))) (uint (rt_retransmission_multiplier (rx_settings a))) k"
  shows "rx_calc_next now a =
    (if Suc k = unat (rt_request_count (rx_settings a)) then (None, 0)
     else let w = wait_after R (unat (rt_request_count (rx_settings a))) (uint (rt_retransmission_multiplier (rx_settings a))) (Suc k)
          in (Some (advance now w), w))"
proof -
  let ?n = "rt_request_count (rx_settings a)"
  have n: "?n = of_nat (unat ?n)" by simp
  have lim: "unat ?n < 2 ^ 32" using unsigned_less [of ?n, where 'a = nat] by simp
  have 1: "rx_rtx_count a + 1 = of_nat (Suc k)" "rx_rtx_count a + 2 = of_nat (Suc (Suc k))"
    by (simp_all add: assms(4))
  have u: "unat (of_nat (Suc k) :: u32) = Suc k" using assms(5) lim by (intro unat_of_nat_small) simp
  have stop: "rx_rtx_count a + 1 \<ge> ?n \<longleftrightarrow> Suc k = unat ?n"
    unfolding 1 word_le_nat_alt u using assms(5) by auto
  have last: "rx_rtx_count a + 2 = ?n \<longleftrightarrow> Suc (Suc k) = unat ?n" if "Suc k \<noteq> unat ?n"
  proof -
    have "unat (of_nat (Suc (Suc k)) :: u32) = Suc (Suc k)" using assms(5) that lim by (intro unat_of_nat_small) simp
    then show ?thesis unfolding 1 by (metis n)
  qed
  show ?thesis
    using assms(1-3,6) stop last by (auto simp: rx_calc_next_def schedule_ok_def wait_after_def Let_def ac_simps)
qed

lemma rx_next_schedule:
  assumes "schedule_ok R (rx_settings a)" "rx_initial_rto a = R" "rx_5xx_count a = 0" "rx_rtx_count a = of_nat k"
    "k < unat (rt_request_count (rx_settings a))" "rx_maybe_next a = Some now"
    "rx_last_timeout a = wait_after R (unat (rt_request_count (rx_settings a))) (uint (rt_retransmission_multiplier (rx_settings a))) k"
  shows "rx_next now a =
    (if Suc k = unat (rt_request_count (rx_settings a)) then (a\<lparr>rx_maybe_next := None\<rparr>, None)
     else let w = wait_after R (unat (rt_request_count (rx_settings a))) (uint (rt_retransmission_multiplier (rx_settings a))) (Suc k)
          in (a\<lparr>rx_maybe_next := Some (advance now w), rx_rtx_count := of_nat (Suc k), rx_last_timeout := w\<rparr>,
              Some (advance now w)))"
  using rx_calc_next_schedule [OF assms(1-5,7), of now] assms(4,6)
  by (simp add: rx_next_def is_before_is_after Let_def)

section \<open>The steps of the run\<close>

lemma next_loop_early:
  assumes "cl_timeline c = [(tp, h)]" "is_after tp now"
  shows "next_loop now c = c"
  using assms by (simp add: next_loop.simps [of now c])

lemma running_sleep:
  assumes "running base R h dat k c" "schedule_ok R (cs_retransmit (cl_settings c))" "cl_effects c = []"
    "k < unat (rt_request_count (cs_retransmit (cl_settings c)))"
  shows "client_next (advance base (sent_at R k)) c =
    (c, Sleep (wait_after R (unat (rt_request_count (cs_retransmit (cl_settings c))))
      (uint (rt_retransmission_multiplier (cs_retransmit (cl_settings c)))) k))"
proof -
  let ?w = "wait_after R (unat (rt_request_count (cs_retransmit (cl_settings c))))
      (uint (rt_retransmission_multiplier (cs_retransmit (cl_settings c)))) k"
  note w = is_after_wait [OF wait_bounds [OF assms(2,4)], of base "sent_at R k"]
  have tl: "cl_timeline c = [(advance base (sent_at R k + ?w), h)]" using assms(1) by (auto simp: running_def Let_def)
  show ?thesis using next_loop_early [OF tl w(1)] tl w(2) assms(3) by (simp add: client_next_def)
qed

lemma running_resend:
  assumes "running base R h dat k c" "schedule_ok R (cs_retransmit (cl_settings c))" "cl_effects c = []"
    "Suc k < unat (rt_request_count (cs_retransmit (cl_settings c)))"
  shows "\<exists>c'. client_next (advance base (sent_at R (Suc k))) c = (c', SendData h dat) \<and> running base R h dat (Suc k) c'
    \<and> cl_effects c' = [] \<and> cl_settings c' = cl_settings c"
proof -
  let ?rt = "cs_retransmit (cl_settings c)"
  define w where "w = wait_after R (unat (rt_request_count ?rt)) (uint (rt_retransmission_multiplier ?rt)) (Suc k)"
  define now where "now = advance base (sent_at R (Suc k))"
  have due: "advance base (sent_at R k + wait_after R (unat (rt_request_count ?rt)) (uint (rt_retransmission_multiplier ?rt)) k) = now"
    using sent_Suc [OF assms(4)] by (simp add: now_def)
  obtain t where t: "cl_tmap c h = Some t" "tr_msg_data t = dat" "cl_timeline c = [(now, h)]"
    "rx_maybe_next (tr_rtx_algo t) = Some now" "rx_settings (tr_rtx_algo t) = ?rt" "rx_initial_rto (tr_rtx_algo t) = R"
    "rx_5xx_count (tr_rtx_algo t) = 0" "rx_rtx_count (tr_rtx_algo t) = of_nat k"
    "rx_last_timeout (tr_rtx_algo t) = wait_after R (unat (rt_request_count ?rt)) (uint (rt_retransmission_multiplier ?rt)) k"
    using assms(1) unfolding running_def Let_def due by blast
  let ?a = "(tr_rtx_algo t)\<lparr>rx_maybe_next := Some (advance now w), rx_rtx_count := of_nat (Suc k), rx_last_timeout := w\<rparr>"
  let ?t = "t\<lparr>tr_rtx_algo := ?a, tr_rtx_count := tr_rtx_count t + 1\<rparr>"
  have "rx_next now (tr_rtx_algo t) = (?a, Some (advance now w))"
    using rx_next_schedule [of R "tr_rtx_algo t" k now] t assms(2,4) by (simp add: w_def Let_def)
  then obtain st where f: "fire now h t (c\<lparr>cl_timeline := []\<rparr>) = c\<lparr>cl_stat := st, cl_tmap := (cl_tmap c)(h \<mapsto> ?t),
      cl_timeline := [(advance now w, h)], cl_effects := [SendData h dat]\<rparr>"
    using t(2) assms(3) by (simp add: fire_def Let_def push_effect_def upd_stat_def)
  have "is_after (advance now w) now"
    using is_after_wait(1) [OF wait_bounds [OF assms(2,4)], of base "sent_at R (Suc k)"]
    by (simp add: now_def w_def advance_advance)
  then have "next_loop now c = c\<lparr>cl_stat := st, cl_tmap := (cl_tmap c)(h \<mapsto> ?t),
      cl_timeline := [(advance now w, h)], cl_effects := [SendData h dat]\<rparr>"
    using t(1,3) f by (simp add: next_loop.simps [of now c] next_loop_early Let_def)
  then show ?thesis unfolding now_def [symmetric] using t
    by (simp add: client_next_def running_def Let_def advance_advance flip: w_def now_def)
      (simp add: now_def advance_advance)
qed

lemma running_timeout:
  assumes "running base R h dat k c" "schedule_ok R (cs_retransmit (cl_settings c))" "cl_effects c = []"
    "Suc k = unat (rt_request_count (cs_retransmit (cl_settings c)))"
  shows "\<exists>c'. client_next (advance base (sent_at R k + R * uint (rt_retransmission_multiplier (cs_retransmit (cl_settings c))))) c
      = (c', TransactionFailed h Timeout) \<and> cl_effects c' = [] \<and> cl_timeline c' = []"
proof -
  let ?rt = "cs_retransmit (cl_settings c)"
  define now where "now = advance base (sent_at R k + R * uint (rt_retransmission_multiplier ?rt))"
  have due: "advance base (sent_at R k + wait_after R (unat (rt_request_count ?rt)) (uint (rt_retransmission_multiplier ?rt)) k) = now"
    using assms(4) by (simp add: now_def wait_after_def)
  obtain t where t: "cl_tmap c h = Some t" "cl_timeline c = [(now, h)]"
    "rx_maybe_next (tr_rtx_algo t) = Some now" "rx_settings (tr_rtx_algo t) = ?rt" "rx_initial_rto (tr_rtx_algo t) = R"
    "rx_5xx_count (tr_rtx_algo t) = 0" "rx_rtx_count (tr_rtx_algo t) = of_nat k"
    "rx_last_timeout (tr_rtx_algo t) = wait_after R (unat (rt_request_count ?rt)) (uint (rt_retransmission_multiplier ?rt)) k"
    using assms(1) unfolding running_def Let_def due by blast
  have "snd (rx_next now (tr_rtx_algo t)) = None"
    using rx_next_schedule [of R "tr_rtx_algo t" k now] t assms(2,4) by simp
  then obtain t' where "fire now h t (c\<lparr>cl_timeline := []\<rparr>) = c\<lparr>cl_timeline := [], cl_tmap := (cl_tmap c)(h \<mapsto> t'),
      cl_effects := [TransactionFailed h Timeout]\<rparr>"
    using assms(3) by (cases rule: fire_cases [of now h t "c\<lparr>cl_timeline := []\<rparr>"]) auto
  then have "next_loop now c = c\<lparr>cl_timeline := [], cl_tmap := (cl_tmap c)(h \<mapsto> t'), cl_effects := [TransactionFailed h Timeout]\<rparr>"
    using t(1,2) by (simp add: next_loop.simps Let_def)
  then show ?thesis unfolding now_def [symmetric] by (simp add: client_next_def cleanup_def)
qed

lemma drive_send: "client_next now c = (c', SendData h dat) \<Longrightarrow> drive (Suc n) now c = (now, SendData h dat) # drive n now c'"
  by simp

lemma drive_idle: "cl_effects c = [] \<Longrightarrow> cl_timeline c = [] \<Longrightarrow> drive (Suc m) now c = [(now, Idle)]"
  by (simp add: client_next_def next_loop.simps)

lemma drive_running:
  assumes "running base R h dat k c" "schedule_ok R (cs_retransmit (cl_settings c))" "cl_effects c = []"
    "unat (rt_request_count (cs_retransmit (cl_settings c))) = Suc (k + n)"
  shows "drive (2 * n + 3 + m) (advance base (sent_at R k)) c =
    map (\<lambda>j. (advance base (sent_at R j), SendData h dat)) [Suc k..<Suc (k + n)] @
    (let over = advance base (sent_at R (k + n) + R * uint (rt_retransmission_multiplier (cs_retransmit (cl_settings c))))
     in [(over, TransactionFailed h Timeout), (over, Idle)])"
  using assms
proof (induction n arbitrary: k c)
  case 0
  let ?over = "advance base (sent_at R k + R * uint (rt_retransmission_multiplier (cs_retransmit (cl_settings c))))"
  obtain c' where c': "client_next ?over c = (c', TransactionFailed h Timeout)" "cl_effects c' = []" "cl_timeline c' = []"
    using running_timeout [OF 0(1-3)] 0(4) by auto
  have "drive (Suc (Suc (Suc m))) (advance base (sent_at R k)) c = drive (Suc (Suc m)) ?over c"
    using running_sleep [OF 0(1-3)] 0(4) by (simp add: advance_advance wait_after_def)
  also have "\<dots> = [(?over, TransactionFailed h Timeout), (?over, Idle)]"
    using c' drive_idle [OF c'(2,3), of m] by simp
  finally show ?case by (simp add: numeral_3_eq_3 Let_def del: drive.simps)
next
  case (Suc n)
  have k: "Suc k < unat (rt_request_count (cs_retransmit (cl_settings c)))" using Suc.prems(4) by simp
  obtain c' where c': "client_next (advance base (sent_at R (Suc k))) c = (c', SendData h dat)" "running base R h dat (Suc k) c'"
    "cl_effects c' = []" "cl_settings c' = cl_settings c"
    using running_resend [OF Suc.prems(1-3) k] by blast
  have "2 * Suc n + 3 + m = Suc (Suc (2 * n + 3 + m))" by simp
  then have "drive (2 * Suc n + 3 + m) (advance base (sent_at R k)) c = drive (Suc (2 * n + 3 + m)) (advance base (sent_at R (Suc k))) c"
    using running_sleep [OF Suc.prems(1-3)] k sent_Suc [OF k]
    by (simp only: drive.simps) (simp add: advance_advance del: drive.simps)
  also have "\<dots> = (advance base (sent_at R (Suc k)), SendData h dat) # drive (2 * n + 3 + m) (advance base (sent_at R (Suc k))) c'"
    by (rule drive_send [OF c'(1)])
  also have "\<dots> = (advance base (sent_at R (Suc k)), SendData h dat) #
      map (\<lambda>j. (advance base (sent_at R j), SendData h dat)) [Suc (Suc k)..<Suc (Suc k + n)] @
      (let over = advance base (sent_at R (Suc k + n) + R * uint (rt_retransmission_multiplier (cs_retransmit (cl_settings c))))
       in [(over, TransactionFailed h Timeout), (over, Idle)])"
    using Suc.IH [OF c'(2) _ c'(3)] Suc.prems(2,4) c'(4) by simp
  finally show ?case
    using upt_conv_Cons [of "Suc k" "Suc (k + Suc n)"] by (simp del: upt_Suc drive.simps)
qed

section \<open>Properties\<close>

text \<open>
  C3.  The retransmission schedule of RFC 5389: a transaction created at any time (also shortly before
  the clock wraps around) that gets no response sends its request \<open>Rc\<close> times, the request with number
  \<open>k\<close> exactly \<open>R * (2 ^ k - 1)\<close> after the creation, fails with a timeout \<open>R * Rm\<close> after the last one,
  and then leaves the client idle.  Here \<open>R\<close> is the timeout that the calculator gives for the path.
\<close>

theorem retransmission_schedule:
  assumes "do_create cv ord now tid rq c = Some (c', Inr h)" "cl_timeline c = []" "cl_effects c = []"
    and "rt = cs_retransmit (cl_settings c)" "R = rto (rq_path rq) (cl_rto_calc c)" "schedule_ok R rt"
  shows "\<exists>dat. drive (2 * unat (rt_request_count rt) + 2 + m) now c' =
    map (\<lambda>k. (advance now (R * (2 ^ k - 1)), SendData h dat)) [0..<unat (rt_request_count rt)] @
    (let over = advance now (R * (2 ^ (unat (rt_request_count rt) - 1) - 1) + R * uint (rt_retransmission_multiplier rt))
     in [(over, TransactionFailed h Timeout), (over, Idle)])"
proof -
  obtain dat c1 where d: "allocate_handle c = Some (c1, h)" "c' = start_transaction now tid rq dat c1 h"
    using assms(1) by (auto simp: do_create_def split: sum.splits)
  obtain n where n: "c1 = c\<lparr>cl_next_handle := n\<rparr>" using allocate_handle_fields [OF d(1)] by blast
  note f = d(2) n start_transaction_fields assms(2,3)
  let ?c = "c'\<lparr>cl_effects := []\<rparr>"
  define N where "N = unat (rt_request_count rt) - 2"
  have N: "unat (rt_request_count rt) = Suc (Suc N)" using assms(6) unfolding schedule_ok_def N_def by linarith
  have R: "0 < R" "R < 2 ^ 63"
    using wait_bounds [OF assms(6), of 0] N by (auto simp: wait_after_def)
  have "running now R h dat 0 ?c"
    using N assms(4,5) by (simp add: running_def f rx_new_def Let_def wait_after_def sent_at_def)
  moreover have "cl_settings ?c = cl_settings c" by (simp add: f)
  ultimately have run: "drive (2 * Suc N + 3 + m) now ?c =
      map (\<lambda>j. (advance now (sent_at R j), SendData h dat)) [1..<Suc (Suc N)] @
      (let over = advance now (sent_at R (Suc N) + R * uint (rt_retransmission_multiplier rt))
       in [(over, TransactionFailed h Timeout), (over, Idle)])"
    using drive_running [of now R h dat 0 ?c "Suc N" m] N assms(4,6) by (simp add: sent_at_def)
  have "next_loop now c' = c'"
    using next_loop_early [of c' "advance now R" h now] is_after_advance [of R now] R assms(5) by (simp add: f)
  then have step: "client_next now c' = (?c, SendData h dat)" by (simp add: client_next_def f)
  have e: "2 * unat (rt_request_count rt) + 2 + m = Suc (2 * Suc N + 3 + m)" by (simp add: N)
  have l: "[0..<unat (rt_request_count rt)] = 0 # [1..<Suc (Suc N)]"
    using upt_conv_Cons [of 0 "Suc (Suc N)"] by (simp add: N del: upt_Suc)
  have "drive (2 * unat (rt_request_count rt) + 2 + m) now c' =
    map (\<lambda>k. (advance now (R * (2 ^ k - 1)), SendData h dat)) [0..<unat (rt_request_count rt)] @
    (let over = advance now (R * (2 ^ (unat (rt_request_count rt) - 1) - 1) + R * uint (rt_retransmission_multiplier rt))
     in [(over, TransactionFailed h Timeout), (over, Idle)])"
    unfolding e drive_send [OF step] run l by (simp add: N sent_at_def del: upt_Suc drive.simps)
  then show ?thesis ..
qed

theorem retransmission_schedule_witness:
  "\<exists>dat over. drive 16 1000 sample_client =
     map (\<lambda>k. (advance 1000 k, SendData 0 dat)) [0, 500000, 1500000, 3500000, 7500000, 15500000, 31500000]
     @ [(over, TransactionFailed 0 Timeout), (over, Idle)] \<and> over = advance 1000 39500000"
proof -
  let ?c = "client_new (default_settings\<lparr>cs_use_fingerprint := False\<rparr>)"
  have rto: "rto (rq_path sample_request) (cl_rto_calc ?c) = 500000" by code_simp
  have "schedule_ok 500000 (cs_retransmit (cl_settings ?c))"
    by (simp add: schedule_ok_def client_new_def default_settings_def default_retransmit_def)
  from retransmission_schedule [OF sample_client_result _ _ refl rto [symmetric] this, of 0] show ?thesis
    by (simp add: client_new_def default_settings_def default_retransmit_def upt_rec Let_def)
qed

text \<open>
  C17.  A success response: for a processed success response without unknown comprehension-required
  attributes exactly one effect is queued.  It reports the address of XOR-MAPPED-ADDRESS, unmasked with
  the identifier of the message, or else the one of MAPPED-ADDRESS, or else fails the transaction.  By
  Karn's algorithm the round-trip time is measured only if the request was sent once; otherwise the
  path's next initial timeout is the timeout that was last backed off to.
\<close>

theorem success_response_outcome:
  assumes "reachable c" "0 \<le> rs_history_duration (rc_settings (cl_rto_calc c))"
    and "response cv now view maybe_msg c = (c', Inr ())" "received cv view maybe_msg c = Inr msg"
    and "cl_tid_to_handle c (h_transaction_id (m_header msg)) = Some h" "cl_tmap c h = Some t"
    and "h_cls (m_header msg) = SUCCESS_RESPONSE" "unknown_comprehension_required (m_attribute_set msg) = []"
  shows "\<exists>rtt e. cl_effects c' = cl_effects c @ [e]
    \<and> (case (get_xor_mapped (m_attribute_set msg), get_mapped (m_attribute_set msg)) of
         (Some (a, p), _) \<Rightarrow>
           e = TransactionOk h \<lparr>ep_address = xored_to_address cv a (h_transaction_id (m_header msg)), ep_port = p\<rparr> msg rtt
       | (None, Some (a, p)) \<Rightarrow> e = TransactionOk h \<lparr>ep_address = a, ep_port = p\<rparr> msg rtt
       | (None, None) \<Rightarrow> e = TransactionFailed h (FailError (ClientError no_address_in_response)))
    \<and> (if tr_rtx_count t = 0
       then rtt = Some (tp_minus now (tr_create_time t))
         \<and> (\<exists>d. rc_by_path (cl_rto_calc c') (tr_path t) = Some d \<and> rd_backoff d = None \<and> rd_last_update d = now)
       else rtt = None \<and> rto (tr_path t) (cl_rto_calc c') = rx_last_timeout (tr_rtx_algo t))"
proof -
  have inv: "tables_ok c" "rto_inv (cl_rto_calc c)" using reachable_inv [OF assms(1)] by (simp_all add: client_inv_def)
  have h: "tr_hnd t = h" by (rule tables_okD(1) [OF inv(1) assms(6)])
  obtain st where c': "c' = handle_success_response cv now t msg (c\<lparr>cl_stat := st\<rparr>)"
    using assms(3) by (cases rule: response_cases) (use assms(4-7) in \<open>auto simp: dispatch_def\<close>)
  define rtt where "rtt = (if tr_rtx_count t = 0 then Some (tp_minus now (tr_create_time t)) else None)"
  define rc where "rc = (if tr_rtx_count t = 0 then new_rtt now (tr_path t) (tp_minus now (tr_create_time t)) (cl_rto_calc c)
    else backoff now (tr_path t) (rx_last_timeout (tr_rtx_algo t)) (cl_rto_calc c))"
  obtain st' e where e: "response_effect cv h msg rtt (c\<lparr>cl_stat := st, cl_rto_calc := rc\<rparr>) = (st', e)" by force
  have fields: "cl_effects st' = cl_effects c" "cl_rto_calc st' = rc"
    using response_effect_fields [of cv h msg rtt "c\<lparr>cl_stat := st, cl_rto_calc := rc\<rparr>"] e by (auto simp: upd_stat_def)
  have "c' = push_effect e st'"
    using assms(8) e unfolding c' by (simp add: handle_success_response_def h rtt_def rc_def Let_def split: if_splits)
  then have eff: "cl_effects c' = cl_effects c @ [e]" and rc': "cl_rto_calc c' = rc"
    using fields by (simp_all add: push_effect_def)
  have "case (get_xor_mapped (m_attribute_set msg), get_mapped (m_attribute_set msg)) of
         (Some (a, p), _) \<Rightarrow>
           e = TransactionOk h \<lparr>ep_address = xored_to_address cv a (h_transaction_id (m_header msg)), ep_port = p\<rparr> msg rtt
       | (None, Some (a, p)) \<Rightarrow> e = TransactionOk h \<lparr>ep_address = a, ep_port = p\<rparr> msg rtt
       | (None, None) \<Rightarrow> e = TransactionFailed h (FailError (ClientError no_address_in_response))"
    using e by (auto simp: response_effect_def split: option.splits)
  moreover have "if tr_rtx_count t = 0
       then rtt = Some (tp_minus now (tr_create_time t))
         \<and> (\<exists>d. rc_by_path (cl_rto_calc c') (tr_path t) = Some d \<and> rd_backoff d = None \<and> rd_last_update d = now)
       else rtt = None \<and> rto (tr_path t) (cl_rto_calc c') = rx_last_timeout (tr_rtx_algo t)"
  proof (cases "tr_rtx_count t = 0")
    case True
    then show ?thesis
      using new_rtt_lookup [OF inv(2) assms(2), of now "tr_path t" "tp_minus now (tr_create_time t)"]
      unfolding rc' rc_def rtt_def by (simp only: if_True simp_thms) blast
  next
    case False
    obtain d where "rc_by_path rc (tr_path t) = Some d" "rd_backoff d = Some (rx_last_timeout (tr_rtx_algo t))"
      using backoff_lookup [OF inv(2) assms(2), of now "tr_path t" "rx_last_timeout (tr_rtx_algo t)"] False
      by (auto simp: rc_def)
    then show ?thesis using False by (simp add: rc' rtt_def rto_def)
  qed
  ultimately show ?thesis using eff by blast
qed

text \<open>A transaction without credentials, and its answer.\<close>

definition plain_client :: client where
  "plain_client =
     (case do_create list_view (\<lambda>m. m) 1000 sample_tid (sample_request\<lparr>rq_maybe_auth := None\<rparr>)
             (client_new (default_settings\<lparr>cs_use_fingerprint := False\<rparr>)) of
        Some (c, _) \<Rightarrow> fst (client_next 1000 c) | None \<Rightarrow> client_new default_settings)"

definition sample_answer :: message where
  "sample_answer = sample_forged\<lparr>m_attribute_set := set_create
     [XorMappedAddressAttribute (xored_from_address list_view (AddressV4 [10, 0, 0, 1]) sample_tid) 5000] []\<rparr>"

definition answered_client :: client where
  "answered_client = fst (response list_view 2000 [] (Some sample_answer) plain_client)"

lemma plain_client_reachable: "reachable plain_client"
proof -
  let ?c = "client_new (default_settings\<lparr>cs_use_fingerprint := False\<rparr>)"
  have "case do_create list_view (\<lambda>m. m) 1000 sample_tid (sample_request\<lparr>rq_maybe_auth := None\<rparr>) ?c of Some _ \<Rightarrow> True | None \<Rightarrow> False"
    by code_simp
  then obtain c r where r: "do_create list_view (\<lambda>m. m) 1000 sample_tid (sample_request\<lparr>rq_maybe_auth := None\<rparr>) ?c = Some (c, r)"
    by (simp split: option.splits prod.splits) force
  have "client_step ?c c" by (rule client_step.create [OF _ r]) (simp add: client_new_def)
  moreover have "client_step c plain_client"
    using r client_step.tick [of 1000 c "fst (client_next 1000 c)" "snd (client_next 1000 c)"] by (simp add: plain_client_def)
  ultimately show ?thesis by (blast intro: reachable.intros)
qed

lemma plain_client_values:
  "cl_tid_to_handle plain_client sample_tid = Some 0" "\<exists>t. cl_tmap plain_client 0 = Some t"
  "map_option tr_rtx_count (cl_tmap plain_client 0) = Some 0" "cl_effects plain_client = []"
  "map_option tr_create_time (cl_tmap plain_client 0) = Some 1000"
  "rs_history_duration (rc_settings (cl_rto_calc plain_client)) = 3600000000"
  "snd (response list_view 2000 [] (Some sample_answer) plain_client) = Inr ()"
proof -
  show t: "cl_tid_to_handle plain_client sample_tid = Some 0" by code_simp
  show "\<exists>t. cl_tmap plain_client 0 = Some t"
    using reachable_inv [OF plain_client_reachable] tables_okD(3) [OF _ t] by (auto simp: client_inv_def)
  show "map_option tr_rtx_count (cl_tmap plain_client 0) = Some 0" by code_simp
  show "map_option tr_create_time (cl_tmap plain_client 0) = Some 1000" by code_simp
  show "rs_history_duration (rc_settings (cl_rto_calc plain_client)) = 3600000000" by code_simp
  show "snd (response list_view 2000 [] (Some sample_answer) plain_client) = Inr ()" by code_simp
  have "case cl_effects plain_client of [] \<Rightarrow> True | _ \<Rightarrow> False" by code_simp
  then show "cl_effects plain_client = []" by (simp split: list.splits)
qed

theorem success_response_outcome_witness:
  "\<exists>rtt. cl_effects answered_client = [TransactionOk 0 \<lparr>ep_address = AddressV4 [10, 0, 0, 1], ep_port = 5000\<rparr> sample_answer rtt]
     \<and> rtt = Some 1000"
proof -
  obtain t where t: "cl_tmap plain_client 0 = Some t" "tr_rtx_count t = 0" "tr_create_time t = 1000"
    using plain_client_values(2,3,5) by auto
  have r: "response list_view 2000 [] (Some sample_answer) plain_client = (answered_client, Inr ())"
    using plain_client_values(7) by (metis answered_client_def prod.collapse)
  have m: "received list_view [] (Some sample_answer) plain_client = Inr sample_answer"
    "h_transaction_id (m_header sample_answer) = sample_tid" "h_cls (m_header sample_answer) = SUCCESS_RESPONSE"
    by (simp_all add: received_def sample_answer_def sample_forged_def)
  have v: "unknown_comprehension_required (m_attribute_set sample_answer) = []"
    "case get_xor_mapped (m_attribute_set sample_answer) of
       Some (a, p) \<Rightarrow> p = 5000 \<and> xored_to_address list_view a sample_tid = AddressV4 [10, 0, 0, 1] | None \<Rightarrow> False"
    by code_simp+
  have d: "tp_minus 2000 1000 = 1000" by (simp add: tp_minus_eq)
  show ?thesis
    using success_response_outcome [OF plain_client_reachable _ r m(1) _ t(1) m(3) v(1)] plain_client_values(1,4,6) t(2,3) v(2) d m(2)
    by (auto split: option.splits)
qed

section \<open>Completion is not unique\<close>

text \<open>The success of the transaction \<open>t\<close> with handle \<open>h\<close> by a response that arrives at \<open>now\<close>.\<close>

definition success_effect :: "timepoint \<Rightarrow> handle \<Rightarrow> transaction \<Rightarrow> udp_endpoint \<Rightarrow> message \<Rightarrow> effect" where
  "success_effect now h t ep msg =
     TransactionOk h ep msg (if tr_rtx_count t = 0 then Some (tp_minus now (tr_create_time t)) else None)"

lemma dispatch_success_keeps:
  assumes "h_cls (m_header msg) = SUCCESS_RESPONSE"
  shows "cl_timeline (dispatch cv now t msg c) = cl_timeline c"
    "cl_tid_to_handle (dispatch cv now t msg c) = cl_tid_to_handle c"
    "cl_settings (dispatch cv now t msg c) = cl_settings c"
proof -
  have e: "\<exists>f. fst (response_effect cv (tr_hnd t) msg rtt x) = upd_stat f x" for rtt x
    using response_effect_fields [of cv "tr_hnd t" msg rtt x] by auto
  have fields: "cl_timeline (fst (response_effect cv (tr_hnd t) msg rtt x)) = cl_timeline x"
    "cl_tid_to_handle (fst (response_effect cv (tr_hnd t) msg rtt x)) = cl_tid_to_handle x"
    "cl_settings (fst (response_effect cv (tr_hnd t) msg rtt x)) = cl_settings x" for rtt x
    using e [of rtt x] by (auto simp: upd_stat_def)
  show "cl_timeline (dispatch cv now t msg c) = cl_timeline c"
    "cl_tid_to_handle (dispatch cv now t msg c) = cl_tid_to_handle c" "cl_settings (dispatch cv now t msg c) = cl_settings c"
    using assms by (simp_all add: dispatch_def handle_success_response_def fail_unknown_def
        push_effect_def upd_stat_def case_prod_beta fields Let_def)
qed

text \<open>A success response queues its effect and leaves the transaction and its timers in the tables.\<close>

lemma success_response_queues:
  assumes "tables_ok c" "cl_tid_to_handle c (h_transaction_id (m_header msg)) = Some h" "cl_tmap c h = Some t"
    and "authentic cv (cl_settings c) t msg view" "h_cls (m_header msg) = SUCCESS_RESPONSE"
    and "unknown_comprehension_required (m_attribute_set msg) = []" "discovered cv msg = Some ep"
    and "response cv now view (Some msg) c = (c', r)"
  shows "cl_effects c' = cl_effects c @ [success_effect now h t ep msg]" "cl_tmap c' = cl_tmap c"
    "cl_timeline c' = cl_timeline c" "cl_tid_to_handle c' = cl_tid_to_handle c" "cl_settings c' = cl_settings c"
proof -
  have h: "tr_hnd t = h" by (rule tables_okD(1) [OF assms(1,3)])
  obtain st where c': "c' = dispatch cv now t msg (c\<lparr>cl_stat := st\<rparr>)"
    using assms(8) by (cases rule: response_cases) (use assms(2-4) in \<open>auto simp: received_def\<close>)
  show "cl_effects c' = cl_effects c @ [success_effect now h t ep msg]"
    using assms(5-7) by (simp add: c' dispatch_success response_verdict_def success_effect_def h)
  show "cl_tmap c' = cl_tmap c" "cl_timeline c' = cl_timeline c" "cl_tid_to_handle c' = cl_tid_to_handle c"
    "cl_settings c' = cl_settings c"
    using assms(5) by (simp_all add: c' dispatch_success dispatch_success_keeps)
qed

lemma next_loop_appends: "\<exists>es. cl_effects (next_loop now c) = cl_effects c @ es"
proof -
  let ?P = "\<lambda>b. \<exists>es. cl_effects b = cl_effects c @ es"
  have fire: "?P (fire now hnd t (b\<lparr>cl_timeline := rest\<rparr>))" if "?P b" for hnd t b rest
    using that by (cases rule: fire_cases [of now hnd t "b\<lparr>cl_timeline := rest\<rparr>"]) auto
  have "?P (next_loop now c) \<and> (cl_timeline (next_loop now c) = [] \<or> is_after (fst (hd (cl_timeline (next_loop now c)))) now)"
    by (rule next_loop_keeps) (simp, simp, rule fire)
  then show ?thesis ..
qed

text \<open>What is queued behind a success comes out after the transaction is gone.\<close>

lemma effect_after_success:
  assumes "cl_effects (next_loop now c) = success_effect at h t ep msg # e # es"
  obtains c' where "client_next now c = (c', success_effect at h t ep msg)" "cl_tmap c' h = None" "snd (client_next now c') = e"
proof -
  let ?c = "cleanup h ((next_loop now c)\<lparr>cl_effects := e # es\<rparr>)"
  have "client_next now c = (?c, success_effect at h t ep msg)"
    using assms by (simp add: client_next_def success_effect_def)
  moreover have "cl_tmap ?c h = None" by (simp add: cleanup_def split: option.split)
  moreover have "cl_timeline ?c = cl_timeline (next_loop now c)" "cl_effects ?c = e # es"
    by (simp_all add: cleanup_def split: option.split)
  then have "next_loop now ?c = ?c" "cl_effects ?c = e # es"
    using next_loop_head [of now c] by (cases "cl_timeline (next_loop now c)"; force simp: next_loop.simps [of now ?c])+
  then have "snd (client_next now ?c) = e" by (simp add: client_next_def Let_def)
  ultimately show ?thesis by (rule that)
qed

text \<open>
  C40.  The final effect of a transaction need not be its last, because the transaction and its timer stay
  in the tables until \<open>next\<close> returns that effect.  Let an authentic success response with an address arrive
  for a running transaction of a client that has no effect queued.  If a duplicate of the response arrives
  before the caller asks for the next step, it is handled like the first one: \<open>next\<close> returns the success,
  forgets the transaction, and then returns a second success for the same handle.  If instead the timer of
  the transaction falls due before the caller asks, the success is followed by a failure of the same handle
  with a timeout when the requests are exhausted, and else by a \<open>SendData\<close>, whose view in the C++ code points
  to the request data that were destroyed with the transaction.
\<close>

theorem completion_not_last:
  assumes "reachable c" "cl_effects c = []"
    and "cl_tid_to_handle c (h_transaction_id (m_header msg)) = Some h" "cl_tmap c h = Some t"
    and "authentic cv (cl_settings c) t msg view" "h_cls (m_header msg) = SUCCESS_RESPONSE"
    and "unknown_comprehension_required (m_attribute_set msg) = []" "discovered cv msg = Some ep"
    and "response cv at view (Some msg) c = (c', r)"
  shows "(\<forall>at' c'' r' now. response cv at' view (Some msg) c' = (c'', r') \<longrightarrow>
      (\<exists>d. client_next now c'' = (d, success_effect at h t ep msg) \<and> cl_tmap d h = None
        \<and> snd (client_next now d) = success_effect at' h t ep msg))
    \<and> (\<forall>tp rest now. cl_timeline c = (tp, h) # rest \<longrightarrow> \<not> is_after tp now \<longrightarrow>
      (\<exists>d. client_next now c' = (d, success_effect at h t ep msg) \<and> cl_tmap d h = None
        \<and> snd (client_next now d) =
            (if snd (rx_next now (tr_rtx_algo t)) = None then TransactionFailed h Timeout else SendData h (tr_msg_data t))))"
proof -
  have ok: "tables_ok c" using reachable_inv [OF assms(1)] by (simp add: client_inv_def)
  note q = success_response_queues [OF ok assms(3-9)]
  have "reachable c'" by (rule reachable.step [OF assms(1) client_step.respond [OF assms(9)]])
  then have ok': "tables_ok c'" using reachable_inv by (simp add: client_inv_def)
  have "\<exists>d. client_next now c'' = (d, success_effect at h t ep msg) \<and> cl_tmap d h = None
      \<and> snd (client_next now d) = success_effect at' h t ep msg"
    if "response cv at' view (Some msg) c' = (c'', r')" for at' c'' r' now
  proof -
    have "cl_effects c'' = [success_effect at h t ep msg, success_effect at' h t ep msg]"
      using success_response_queues(1) [OF ok' _ _ _ assms(6-8) that, of h t] assms(2-5) q by simp
    then show ?thesis using next_loop_appends [of now c''] effect_after_success [of now c''] by fastforce
  qed
  moreover have "\<exists>d. client_next now c' = (d, success_effect at h t ep msg) \<and> cl_tmap d h = None
      \<and> snd (client_next now d) =
          (if snd (rx_next now (tr_rtx_algo t)) = None then TransactionFailed h Timeout else SendData h (tr_msg_data t))"
    if "cl_timeline c = (tp, h) # rest" "\<not> is_after tp now" for tp rest now
  proof -
    let ?f = "if snd (rx_next now (tr_rtx_algo t)) = None then TransactionFailed h Timeout else SendData h (tr_msg_data t)"
    let ?b = "fire now h t (c'\<lparr>cl_timeline := rest\<rparr>)"
    have "next_loop now c' = next_loop now ?b"
      using that q assms(4) by (cases rule: next_loop_cases [of now c']) simp_all
    moreover have "cl_effects ?b = [success_effect at h t ep msg, ?f]"
      using q(1) assms(2) by (cases rule: fire_cases [of now h t "c'\<lparr>cl_timeline := rest\<rparr>"]) simp_all
    ultimately show ?thesis using next_loop_appends [of now ?b] effect_after_success [of now c'] by fastforce
  qed
  ultimately show ?thesis by blast
qed

theorem completion_not_last_witness:
  "\<exists>t d d'. client_next 3000 (fst (response list_view 2500 [] (Some sample_answer) answered_client)) =
       (d, success_effect 2000 0 t \<lparr>ep_address = AddressV4 [10, 0, 0, 1], ep_port = 5000\<rparr> sample_answer)
     \<and> snd (client_next 3000 d) = success_effect 2500 0 t \<lparr>ep_address = AddressV4 [10, 0, 0, 1], ep_port = 5000\<rparr> sample_answer
     \<and> client_next 501000 answered_client =
       (d', success_effect 2000 0 t \<lparr>ep_address = AddressV4 [10, 0, 0, 1], ep_port = 5000\<rparr> sample_answer)
     \<and> cl_tmap d' 0 = None \<and> snd (client_next 501000 d') = SendData 0 (tr_msg_data t)"
proof -
  let ?ep = "\<lparr>ep_address = AddressV4 [10, 0, 0, 1], ep_port = 5000\<rparr>"
  obtain t where t: "cl_tmap plain_client 0 = Some t" using plain_client_values(2) ..
  have r: "response list_view 2000 [] (Some sample_answer) plain_client = (answered_client, Inr ())"
    using plain_client_values(7) by (metis answered_client_def prod.collapse)
  have m: "h_transaction_id (m_header sample_answer) = sample_tid" "h_cls (m_header sample_answer) = SUCCESS_RESPONSE"
    by (simp_all add: sample_answer_def sample_forged_def)
  have v: "unknown_comprehension_required (m_attribute_set sample_answer) = []" by code_simp
  have "case discovered list_view sample_answer of Some ep \<Rightarrow> ep = ?ep | None \<Rightarrow> False" by code_simp
  then have ep: "discovered list_view sample_answer = Some ?ep" by (simp split: option.splits)
  have a: "authentic list_view (cl_settings plain_client) t sample_answer []"
  proof -
    have "map_option (\<lambda>t. authentic list_view (cl_settings plain_client) t sample_answer []) (cl_tmap plain_client 0) = Some True"
      by code_simp
    with t show ?thesis by simp
  qed
  have tl: "cl_timeline plain_client = [(501000, 0)]" by code_simp
  have n: "snd (rx_next 501000 (tr_rtx_algo t)) \<noteq> None"
  proof -
    have "map_option (\<lambda>t. case snd (rx_next 501000 (tr_rtx_algo t)) of None \<Rightarrow> False | Some _ \<Rightarrow> True) (cl_tmap plain_client 0) = Some True"
      by code_simp
    with t show ?thesis by (simp split: option.splits)
  qed
  note c = completion_not_last [OF plain_client_reachable plain_client_values(4) _ t a m(2) v ep r]
  have "\<not> is_after 501000 (501000 :: timepoint)" by code_simp
  then obtain d' where "client_next 501000 answered_client = (d', success_effect 2000 0 t ?ep sample_answer)"
    "cl_tmap d' 0 = None" "snd (client_next 501000 d') = SendData 0 (tr_msg_data t)"
    using c plain_client_values(1) tl m(1) n by (metis (lifting))
  moreover obtain d where "client_next 3000 (fst (response list_view 2500 [] (Some sample_answer) answered_client)) =
      (d, success_effect 2000 0 t ?ep sample_answer)" "snd (client_next 3000 d) = success_effect 2500 0 t ?ep sample_answer"
    using c plain_client_values(1) m(1) by (metis (lifting) prod.collapse)
  ultimately show ?thesis by blast
qed

end
