(* ===== verification/Stun_Exchange.thy ===== *)
theory Stun_Exchange
  imports Stun_Server Stun_Client_Run
begin

text \<open>
  Client and server together: the facts that lead a request from \<open>ClientUDP::create\<close> through
  \<open>Stateless::process\<close> and back through \<open>ClientUDP::response\<close>.  The network is the bytes of one datagram
  in each direction.
\<close>

section \<open>The request at the server\<close>

text \<open>A request that a server with these users will accept: well formed, without attributes the server
  must refuse, and signed, if at all, for a user of the server.\<close>

definition acceptable_request :: "craftpp \<Rightarrow> server \<Rightarrow> client_settings \<Rightarrow> transaction_id \<Rightarrow> request \<Rightarrow> bool" where
  "acceptable_request cv s settings tid rq \<longleftrightarrow>
     (let attrs = m_attribute_set (request_message settings tid rq)
      in length tid = TRANSACTION_ID_SIZE \<and> set_buildable cv attrs \<and> unknown_comprehension_required attrs = []
         \<and> get_username attrs = map_option au_username (rq_maybe_auth rq)
         \<and> (\<forall>a. rq_maybe_auth rq = Some a \<longrightarrow>
              id_hash (au_integrity a) = srv_sha1 s \<and> srv_users s (au_username a) = Some (id_password (au_integrity a))))"

lemma request_message_fields [simp]:
  "m_header (request_message settings tid rq) = \<lparr>h_cls = REQUEST, h_method = binding_method, h_transaction_id = tid\<rparr>"
  "m_is_rfc3489 (request_message settings tid rq) = False"
  by (simp_all add: request_message_def Let_def)

lemma same_content_username:
  assumes "same_content a b" "attrs_wf a"
  shows "get_username b = get_username a" "unknown_comprehension_required b = unknown_comprehension_required a"
proof -
  have l: "lookup_equiv (map_of (as_map a) USERNAME) (map_of (as_map b) USERNAME)" and u: "as_unknown b = as_unknown a"
    using assms(1) by (simp_all add: same_content_def)
  show "unknown_comprehension_required b = unknown_comprehension_required a"
    by (simp add: unknown_comprehension_required_def u)
  show "get_username b = get_username a"
  proof (cases "map_of (as_map a) USERNAME")
    case None
    then show ?thesis using l by (simp add: lookup_equiv_def get_username_def access_def split: option.splits)
  next
    case (Some x)
    then have "attr_type_of (a_value x) = USERNAME" using assms(2) map_of_SomeD [OF Some]
      by (auto simp: attrs_wf_def attribute_wf_def)
    then obtain un where "a_value x = UsernameAttribute un" by (cases "a_value x") simp_all
    then show ?thesis using l Some by (auto simp: lookup_equiv_def get_username_def access_def split: option.splits)
  qed
qed

lemma server_accepts_request:
  assumes "binary_view cv" "map_order ord" "sha1_function (srv_sha1 s)" "acceptable_request cv s settings tid rq"
    and "message_build cv ord (request_message settings tid rq) (map_option au_integrity (rq_maybe_auth rq)) = Inr dat"
  obtains s' rsp msg where "server_process cv ep dat s = (s', Respond rsp msg (map_option au_integrity (rq_maybe_auth rq)))"
    "success_reply cv s ep msg (map_option au_integrity (rq_maybe_auth rq)) = Respond rsp msg (map_option au_integrity (rq_maybe_auth rq))"
    "accepted dat msg" "\<not> m_is_rfc3489 msg" "h_transaction_id (m_header msg) = tid"
proof -
  let ?m = "request_message settings tid rq" and ?mi = "map_option au_integrity (rq_maybe_auth rq)"
  have ok: "length tid = TRANSACTION_ID_SIZE" "set_buildable cv (m_attribute_set ?m)"
    "unknown_comprehension_required (m_attribute_set ?m) = []"
    "get_username (m_attribute_set ?m) = map_option au_username (rq_maybe_auth rq)"
    "\<And>a. rq_maybe_auth rq = Some a \<Longrightarrow>
       id_hash (au_integrity a) = srv_sha1 s \<and> srv_users s (au_username a) = Some (id_password (au_integrity a))"
    using assms(4) by (simp_all add: acceptable_request_def Let_def)
  have hw: "header_wf (m_header ?m)" using ok(1) by (simp add: header_wf_def binding_method_def)
  have hs: "\<forall>i. ?mi = Some i \<longrightarrow> sha1_function (id_hash i)" using assms(3) ok(5) by auto
  obtain st msg where p: "message_parse cv dat (srv_stat s) = (st, Inr msg)" "m_header msg = m_header ?m"
      "same_content (m_attribute_set ?m) (m_attribute_set msg)"
      "get_integrity (m_attribute_set msg) = None \<longleftrightarrow> ?mi = None"
      "\<forall>i. ?mi = Some i \<longrightarrow> message_is_valid cv msg dat i = Inr (Some True)"
    using binary_view.build_parse_any [OF assms(1,2) hw ok(2) hs assms(5), of "srv_stat s"] by (elim exE conjE) (rule that)
  have acc: "accepted dat msg" using message_parse_accepted [OF assms(1) p(1)] .
  have new: "\<not> m_is_rfc3489 msg" using acc ok(1) p(2) by (auto simp: accepted_def split: if_splits)
  note same = same_content_username [OF p(3)] ok(2) [unfolded set_buildable_def]
  have user: "get_username (m_attribute_set msg) = map_option au_username (rq_maybe_auth rq)"
    "unknown_comprehension_required (m_attribute_set msg) = []" using same ok(3,4) by simp_all
  have "process_request cv s ep msg dat = success_reply cv s ep msg ?mi"
  proof (cases "rq_maybe_auth rq")
    case None
    then show ?thesis using user p(4) by (simp add: process_request_def Let_def)
  next
    case (Some a)
    have i: "\<lparr>id_password = id_password (au_integrity a), id_hash = srv_sha1 s\<rparr> = au_integrity a"
      using ok(5) [OF Some] by simp
    have "check_auth cv s msg dat (au_username a) = (None, Some (au_integrity a))"
      using ok(5) [OF Some] p(5) Some unfolding check_auth_def by (simp add: i Let_def)
    then show ?thesis using user p(4) Some by (auto simp: process_request_def Let_def)
  qed
  moreover have "\<exists>rsp. success_reply cv s ep msg ?mi = Respond rsp msg ?mi"
    using p(2) by (simp add: success_reply_def Let_def)
  ultimately obtain rsp where "success_reply cv s ep msg ?mi = Respond rsp msg ?mi"
    "server_process cv ep dat s = (s\<lparr>srv_stat := st\<rparr>, Respond rsp msg ?mi)"
    using p(1,2) by (auto simp: server_process_def)
  then show ?thesis using that acc new p(2) by simp
qed

section \<open>The response at the client\<close>

lemma client_takes_response:
  assumes "cl_tid_to_handle c tid = Some h" "cl_tmap c h = Some t" "tr_hnd t = h"
    and "snd (message_parse cv out (st_parse (cl_stat c))) = Inr msg"
    and "h_cls (m_header msg) = SUCCESS_RESPONSE" "h_transaction_id (m_header msg) = tid"
    and "unknown_comprehension_required (m_attribute_set msg) = []" "get_xor_mapped (m_attribute_set msg) = Some (a, p)"
    and "\<forall>au. tr_maybe_auth t = Some au \<longrightarrow> message_is_valid cv msg out (au_integrity au) = Inr (Some True)"
  shows "\<exists>c' rtt. response cv now out None c = (c', Inr ()) \<and>
    cl_effects c' = cl_effects c @ [TransactionOk h \<lparr>ep_address = xored_to_address cv a tid, ep_port = p\<rparr> msg rtt]"
proof -
  obtain c' r where r: "response cv now out None c = (c', r)" by force
  have rec: "received cv out None c = Inr msg" using assms(4) by (simp add: received_def)
  have auth: "authentic cv (cl_settings c) t msg out" using assms(9) by (simp add: authentic_def split: option.split)
  have bnd: "Option.bind (cl_tid_to_handle c (h_transaction_id (m_header msg))) (cl_tmap c) = Some t"
    using assms(1,2,6) by simp
  from r show ?thesis
  proof (cases rule: response_cases)
    case (ignored st e)
    then show ?thesis using rec bnd auth by blast
  next
    case (processed st msg' t')
    then have "r = Inr ()" "c' = handle_success_response cv now t msg (c\<lparr>cl_stat := st\<rparr>)"
      using rec bnd assms(5) by (simp_all add: dispatch_def)
    then show ?thesis using r assms(3,6-8)
      by (auto simp: handle_success_response_def response_effect_def push_effect_def upd_stat_def Let_def)
  qed
qed

lemma created_transaction:
  assumes "do_create cv ord now tid rq c = Some (c', Inr h)" "cl_tid_to_handle c tid = None"
  obtains dat t where "message_build cv ord (request_message (cl_settings c) tid rq) (map_option au_integrity (rq_maybe_auth rq)) = Inr dat"
    "cl_effects c' = cl_effects c @ [SendData h dat]" "cl_tid_to_handle c' tid = Some h" "cl_tmap c' h = Some t"
    "tr_hnd t = h" "tr_maybe_auth t = rq_maybe_auth rq"
proof -
  obtain dat c1 where d: "message_build cv ord (request_message (cl_settings c) tid rq) (map_option au_integrity (rq_maybe_auth rq)) = Inr dat"
      "allocate_handle c = Some (c1, h)" "c' = start_transaction now tid rq dat c1 h"
    using assms(1) by (auto simp: do_create_def split: sum.splits)
  obtain n where "c1 = c\<lparr>cl_next_handle := n\<rparr>" using allocate_handle_fields [OF d(2)] by blast
  then show ?thesis using that d(1) assms(2) by (simp add: d(3) client_simps)
qed

end
