(* ===== verification/Stun_Client_Limits.thy ===== *)
theory Stun_Client_Limits
  imports Stun_Client_Inv
begin

text \<open>
  The limits that the settings of the client put on the requests of a transaction, as an invariant of all
  reachable states: the counters of \<open>RetransmitAlgo\<close> in \<open>stun/stun_client_udp.cpp\<close>.
\<close>

section \<open>The limits of retransmission\<close>

text \<open>
  What the settings limit: the number of responses 5xx that a transaction answers with another request,
  and the number of its requests, one more for each of those.  The sums of the code do not overflow for
  such settings.
\<close>

definition limits_ok :: "retransmit_default \<Rightarrow> bool" where
  "limits_ok rt \<longleftrightarrow> 0 < rt_request_count rt \<and> unat (rt_request_count rt) + unat (rt_server_error_max_retransmits rt) < 2 ^ 32"

definition within_limits :: "retransmit_default \<Rightarrow> rtx_algo \<Rightarrow> bool" where
  "within_limits rt a \<longleftrightarrow> rx_settings a = rt \<and> rx_5xx_count a \<le> rt_server_error_max_retransmits rt \<and>
     unat (rx_rtx_count a) < unat (rt_request_count rt) + unat (rx_5xx_count a)"

definition client_limits :: "client \<Rightarrow> bool" where
  "client_limits c \<longleftrightarrow> (\<forall>t \<in> ran (cl_tmap c). within_limits (cs_retransmit (cl_settings c)) (tr_rtx_algo t))"

lemma request_limit:
  assumes "limits_ok rt" "within_limits rt a"
  shows "unat (rt_request_count rt + rx_5xx_count a) = unat (rt_request_count rt) + unat (rx_5xx_count a)"
  using assms by (intro unat_add_lem [THEN iffD1]) (auto simp: limits_ok_def within_limits_def word_le_nat_alt)

lemma unat_succ: "x < y \<Longrightarrow> unat (x + 1 :: u32) = Suc (unat x)"
  using unsigned_less [of y, where 'a = nat] by (simp add: unat_plus_if' word_less_nat_alt)

lemma within_limits_new: "limits_ok rt \<Longrightarrow> within_limits rt (rx_new r rt now)"
  by (auto simp: limits_ok_def within_limits_def rx_new_def word_less_nat_alt)

lemma within_limits_5xx:
  assumes "limits_ok rt" "within_limits rt a"
  shows "within_limits rt (fst (rx_process_5xx now a))"
  using assms unat_succ [of "rx_5xx_count a" "rt_server_error_max_retransmits rt"]
  by (auto simp: within_limits_def rx_process_5xx_def word_le_nat_alt word_less_nat_alt split: option.split)


lemma within_limits_next:
  assumes "limits_ok rt" "within_limits rt a"
  shows "within_limits rt (fst (rx_next now a))"
proof (cases rule: rx_next_cases [of now a])
  case (again nxt a')
  have "rx_settings a' = rx_settings a" "rx_5xx_count a' = rx_5xx_count a"
    using again(1) by (auto simp: rx_next_def Let_def split: option.splits prod.splits if_splits)
  then show ?thesis
    using assms(2) again(1,3,4) request_limit [OF assms] by (simp add: within_limits_def word_less_nat_alt)
qed (use assms(2) in \<open>simp_all add: within_limits_def\<close>)

lemma client_limits_update:
  assumes "client_limits c" "cl_tmap c' = (cl_tmap c)(h \<mapsto> t)" "cl_settings c' = cl_settings c"
    "within_limits (cs_retransmit (cl_settings c)) (tr_rtx_algo t)"
  shows "client_limits c'"
  using assms by (auto simp: client_limits_def ran_def split: if_splits)

lemma client_limits_same: "client_limits c \<Longrightarrow> cl_tmap c' = cl_tmap c \<Longrightarrow> cl_settings c' = cl_settings c \<Longrightarrow> client_limits c'"
  by (simp add: client_limits_def)

lemma client_limitsD: "client_limits c \<Longrightarrow> cl_tmap c h = Some t \<Longrightarrow> within_limits (cs_retransmit (cl_settings c)) (tr_rtx_algo t)"
  by (auto simp: client_limits_def ran_def)

lemma handlers_settings [client_simps]:
  "cl_settings (handle_success_response cv now t msg c) = cl_settings c"
  "cl_settings (handle_error_response now t msg c) = cl_settings c"
  using handle_success_frame [of t c cv now msg] handle_error_frame [of t c now msg]
  by (auto simp: response_frame_def)

lemma response_effect_tmap: "cl_tmap (fst (response_effect cv h msg rtt c)) = cl_tmap c"
  by (simp add: response_effect_def upd_stat_def split: option.split prod.split)

lemma dispatch_tmap:
  "cl_tmap (dispatch cv now t msg c) = cl_tmap c \<or>
   cl_tmap (dispatch cv now t msg c) = (cl_tmap c)(tr_hnd t \<mapsto> t\<lparr>tr_rtx_algo := fst (rx_process_5xx now (tr_rtx_algo t))\<rparr>)"
proof -
  have "cl_tmap (handle_success_response cv now t msg c) = cl_tmap c"
    by (simp add: handle_success_response_def fail_unknown_def push_effect_def upd_stat_def Let_def case_prod_beta response_effect_tmap)
  moreover have "cl_tmap (handle_error_response now t msg c) = cl_tmap c \<or>
      cl_tmap (handle_error_response now t msg c) = (cl_tmap c)(tr_hnd t \<mapsto> t\<lparr>tr_rtx_algo := fst (rx_process_5xx now (tr_rtx_algo t))\<rparr>)"
    by (auto simp: handle_error_response_def handle_error_code_def handle_alternate_def fail_unknown_def push_effect_def
        upd_stat_def Let_def split: option.splits prod.splits process_5xx_result.splits)
  ultimately show ?thesis by (auto simp: dispatch_def)
qed


lemma fire_settings [client_simps]: "cl_settings (fire now h t c) = cl_settings c"
  by (cases rule: fire_cases [of now h t c]) simp_all

lemma next_loop_settings [client_simps]: "cl_settings (next_loop now c) = cl_settings c"
  using next_loop_keeps [of "\<lambda>b. cl_settings b = cl_settings c" c now] by (auto simp: fire_settings)

lemma create_cases:
  assumes "do_create cv ord now tid rq c = Some (c', r)"
  obtains (refused) e where "c' = c" "r = Inl e"
  | (created) dat n h where "c' = start_transaction now tid rq dat (c\<lparr>cl_next_handle := n\<rparr>) h" "r = Inr h"
proof (cases "message_build cv ord (request_message (cl_settings c) tid rq) (map_option au_integrity (rq_maybe_auth rq))")
  case (Inl e)
  then show ?thesis using assms refused [of e] by (simp add: do_create_def)
next
  case (Inr dat)
  then obtain b h where b: "allocate_handle c = Some (b, h)" "c' = start_transaction now tid rq dat b h" "r = Inr h"
    using assms by (auto simp: do_create_def)
  then show ?thesis using created allocate_handle_fields [OF b(1)] by blast
qed

lemma client_step_settings: "client_step c c' \<Longrightarrow> cl_settings c' = cl_settings c"
proof (induction rule: client_step.induct)
  case (create c tid cv ord now rq c' r)
  from create(2) show ?case by (cases rule: create_cases) (simp_all add: start_transaction_fields)
next
  case (respond cv now view maybe_msg c c' r)
  then show ?case by (cases rule: response_cases) (simp_all add: dispatch_def handlers_settings)
next
  case (tick now c c' e)
  then show ?case
    by (cases rule: client_next_cases [of now c]) (auto simp: next_loop_settings cleanup_def split: option.splits)
qed

text \<open>Every step keeps the limits.\<close>

lemma client_limits_loop:
  assumes "client_limits c" "limits_ok (cs_retransmit (cl_settings c))"
  shows "client_limits (next_loop now c)"
proof -
  have fire: "client_limits (fire now h t (b\<lparr>cl_timeline := rest\<rparr>))"
    if b: "client_limits b" "cl_settings b = cl_settings c" and t: "cl_tmap b h = Some t" for b h t rest
  proof -
    have "within_limits (cs_retransmit (cl_settings b)) (fst (rx_next now (tr_rtx_algo t)))"
      using within_limits_next client_limitsD [OF b(1) t] b(2) assms(2) by simp
    then show ?thesis
      using client_limits_update [OF b(1), of "fire now h t (b\<lparr>cl_timeline := rest\<rparr>)" h]
      by (auto simp: fire_def push_effect_def upd_stat_def Let_def split: prod.split option.split)
  qed
  have "(client_limits (next_loop now c) \<and> cl_settings (next_loop now c) = cl_settings c) \<and>
      (cl_timeline (next_loop now c) = [] \<or> is_after (fst (hd (cl_timeline (next_loop now c)))) now)"
    by (rule next_loop_keeps) (use assms(1) fire in \<open>auto simp: fire_settings intro: client_limits_same\<close>)
  then show ?thesis by blast
qed

lemma client_limits_cleanup: "client_limits c \<Longrightarrow> client_limits (cleanup h c)"
  by (auto simp: client_limits_def cleanup_def ran_def split: option.split if_splits)

lemma client_limits_step:
  assumes "client_step c c'" "client_limits c" "limits_ok (cs_retransmit (cl_settings c))"
  shows "client_limits c'"
  using assms
proof (induction rule: client_step.induct)
  case (create c tid cv ord now rq c' r)
  from create(2) show ?case
  proof (cases rule: create_cases)
    case (created dat n h)
    then show ?thesis using client_limits_update [OF create(3), of c' h] within_limits_new [OF create(4)]
      by (simp add: start_transaction_fields)
  qed (use create(3) in simp)
next
  case (respond cv now view maybe_msg c c' r)
  from respond(1) show ?case
  proof (cases rule: response_cases)
    case (ignored st e)
    then show ?thesis using client_limits_same [OF respond(2)] by simp
  next
    case (processed st msg t)
    obtain h where h: "cl_tmap c h = Some t" using processed(3) by (auto simp: Option.bind_eq_Some_conv)
    then have "within_limits (cs_retransmit (cl_settings c)) (fst (rx_process_5xx now (tr_rtx_algo t)))"
      by (intro within_limits_5xx [OF respond(3)] client_limitsD [OF respond(2)])
    moreover have "cl_settings c' = cl_settings c" unfolding processed(5) by (simp add: dispatch_def handlers_settings)
    ultimately show ?thesis
      using dispatch_tmap [of cv now t msg "c\<lparr>cl_stat := st\<rparr>"] client_limits_same [OF respond(2), of c']
        client_limits_update [OF respond(2), of c' "tr_hnd t"] processed(5) by auto
  qed
next
  case (tick now c c' e)
  note l = client_limits_loop [OF tick(2,3), of now]
  show ?case
  proof (cases rule: client_next_cases [of now c])
    case (final e' es h)
    then show ?thesis using tick(1) client_limits_cleanup [of "(next_loop now c)\<lparr>cl_effects := es\<rparr>" h] client_limits_same [OF l] by simp
  qed (use tick(1) client_limits_same [OF l, of c'] in simp_all)
qed

lemma reachable_limits: "reachable c \<Longrightarrow> limits_ok (cs_retransmit (cl_settings c)) \<Longrightarrow> client_limits c"
proof (induction rule: reachable.induct)
  case (start settings)
  then show ?case by (simp add: client_limits_def client_new_def)
next
  case (step c c')
  then show ?case using client_limits_step [OF step(2)] by (simp add: client_step_settings)
qed

lemma rx_left_bound:
  assumes "limits_ok rt" "within_limits rt a"
  shows "rx_left a < unat (rt_request_count rt) + unat (rt_server_error_max_retransmits rt)"
proof -
  let ?y = "rt_request_count rt + rx_5xx_count a"
  have y: "unat ?y = unat (rt_request_count rt) + unat (rx_5xx_count a)" by (rule request_limit [OF assms])
  then have less: "rx_rtx_count a < ?y" using assms(2) by (simp add: within_limits_def word_less_nat_alt)
  have "rx_left a = unat (?y - (rx_rtx_count a + 1))"
    using assms(2) by (simp add: rx_left_def within_limits_def algebra_simps)
  also have "\<dots> < unat ?y" using unat_succ [OF less] less by (simp add: unat_sub_if' word_less_nat_alt)
  finally show ?thesis using y assms(2) by (simp add: within_limits_def word_le_nat_alt)
qed

end
