(* ===== verification/Stun_Client_Drain.thy ===== *)
theory Stun_Client_Drain
  imports Stun_Client_Run Stun_Client_Limits
begin

text \<open>
  Every transaction comes to an end.  A caller that keeps calling \<open>next\<close>, performs the effects and sleeps
  at least as long as it is told brings a client with any number of transactions to \<open>Idle\<close>, and before
  that the final effect of every transaction has been handed out.  The argument is a potential of the
  client, which bounds how many effects are still to come: the interface \<open>draining\<close> says what \<open>next\<close> has
  to do to it, the runs are analysed over the interface, and the client implements it.
\<close>

section \<open>A caller that may be late\<close>

text \<open>
  \<open>late k\<close> is the time that passes beyond what was asked for in the step before \<open>k\<close> steps are left: an
  operating system that wakes the caller too late, a timer in whole milliseconds, or work between calls.
\<close>

fun run_late :: "(timepoint \<Rightarrow> 's \<Rightarrow> 's \<times> effect) \<Rightarrow> (nat \<Rightarrow> duration) \<Rightarrow> nat \<Rightarrow> timepoint \<Rightarrow> 's \<Rightarrow> (timepoint \<times> effect) list" where
  "run_late nxt late 0 now s = []"
| "run_late nxt late (Suc k) now s =
     (case nxt now s of
        (s', Sleep d) \<Rightarrow> run_late nxt late k (advance now (d + late k)) s'
      | (s', Idle) \<Rightarrow> [(now, Idle)]
      | (s', e) \<Rightarrow> (now, e) # run_late nxt late k (advance now (late k)) s')"

lemma drive_run_late: "drive k now c = run_late client_next (\<lambda>_. 0) k now c"
  by (induction k arbitrary: now c) (simp_all split: prod.split effect.split)

text \<open>A run that is complete: its effects, then \<open>Idle\<close>, with a final effect for each of the handles.\<close>

definition drained :: "handle set \<Rightarrow> nat \<Rightarrow> (timepoint \<times> effect) list \<Rightarrow> bool" where
  "drained hs p run \<longleftrightarrow>
     (\<exists>tr now. run = tr @ [(now, Idle)] \<and> length tr \<le> p \<and> list_all (queued_kind \<circ> snd) tr \<and>
        (\<forall>h \<in> hs. \<exists>e \<in> snd ` set tr. final_for h e))"

lemma drained_Nil: "drained {} p [(now, Idle)]"
  unfolding drained_def by (rule exI [of _ "[]"]) simp

lemma drained_Cons:
  assumes "drained hs' p' run" "queued_kind e" "p' < p" "\<forall>h \<in> hs. h \<in> hs' \<or> final_for h e"
  shows "drained hs p ((now, e) # run)"
proof -
  obtain tr over where "run = tr @ [(over, Idle)]" "length tr \<le> p'" "list_all (queued_kind \<circ> snd) tr"
    "\<forall>h \<in> hs'. \<exists>e \<in> snd ` set tr. final_for h e"
    using assms(1) unfolding drained_def by blast
  then show ?thesis using assms(2-4) unfolding drained_def
    by (intro exI [of _ "(now, e) # tr"] exI [of _ over]) auto
qed

lemma drained_mono: "drained hs' p' run \<Longrightarrow> hs \<subseteq> hs' \<Longrightarrow> p' \<le> p \<Longrightarrow> drained hs p run"
  unfolding drained_def by (blast intro: order_trans)

section \<open>The interface\<close>

locale draining =
  fixes nxt :: "timepoint \<Rightarrow> 's \<Rightarrow> 's \<times> effect" and ok :: "'s \<Rightarrow> bool" and potential :: "'s \<Rightarrow> nat"
    and unfinished :: "'s \<Rightarrow> handle set"
  assumes nxt_ok: "ok s \<Longrightarrow> nxt now s = (s', e) \<Longrightarrow> ok s'"
    and effect_lowers: "ok s \<Longrightarrow> nxt now s = (s', e) \<Longrightarrow> queued_kind e \<Longrightarrow> potential s' < potential s"
    and sleep_keeps: "ok s \<Longrightarrow> nxt now s = (s', Sleep d) \<Longrightarrow> potential s' \<le> potential s"
    and sleep_then_lowers: "ok s \<Longrightarrow> nxt now s = (s', Sleep d) \<Longrightarrow> 0 \<le> x \<Longrightarrow> x < 2 ^ 63 \<Longrightarrow>
      potential (fst (nxt (advance now (d + x)) s')) < potential s'"
    and nxt_unfinished: "ok s \<Longrightarrow> nxt now s = (s', e) \<Longrightarrow> h \<in> unfinished s \<Longrightarrow> h \<in> unfinished s' \<or> final_for h e"
    and idle_finished: "ok s \<Longrightarrow> nxt now s = (s', Idle) \<Longrightarrow> unfinished s = {}"
begin

lemma run_late_drained:
  assumes "\<And>i. 0 \<le> late i \<and> late i < 2 ^ 63" "ok s"
    and "2 * potential s + 2 \<le> k \<or> potential (fst (nxt now s)) < potential s \<and> 2 * potential s + 1 \<le> k"
  shows "drained (unfinished s) (potential s) (run_late nxt late k now s)"
  using assms(2,3)
proof (induction k arbitrary: now s)
  case (Suc k)
  obtain s' e where n: "nxt now s = (s', e)" by fastforce
  note ok' = nxt_ok [OF Suc.prems(1) n] and unf = nxt_unfinished [OF Suc.prems(1) n]
  consider (idle) "e = Idle" | (sleep) d where "e = Sleep d" | (effect) "queued_kind e" by (cases e) auto
  then show ?case
  proof cases
    case idle
    then show ?thesis using n idle_finished [OF Suc.prems(1)] drained_Nil by simp
  next
    case (sleep d)
    have w: "potential (fst (nxt (advance now (d + late k)) s')) < potential s'"
      using sleep_then_lowers [OF Suc.prems(1)] n sleep assms(1) by blast
    have p: "potential s' \<le> potential s" using sleep_keeps [OF Suc.prems(1)] n sleep by blast
    have "2 * potential s' + 1 \<le> k" using Suc.prems(2) p n by (auto simp: Suc_le_eq)
    then have "drained (unfinished s') (potential s') (run_late nxt late k (advance now (d + late k)) s')"
      using Suc.IH [OF ok'] w by blast
    then show ?thesis using drained_mono [OF _ _ p] n sleep unf by auto
  next
    case effect
    have p: "potential s' < potential s" by (rule effect_lowers [OF Suc.prems(1) n effect])
    have "drained (unfinished s') (potential s') (run_late nxt late k (advance now (late k)) s')"
      by (rule Suc.IH [OF ok']) (use p Suc.prems(2) in auto)
    from drained_Cons [OF this effect p] show ?thesis using n effect unf by (cases e) auto
  qed
qed simp

end

section \<open>The potential of the client\<close>

text \<open>
  An entry of the timeline is worth one if its transaction is gone.  Otherwise it is worth two for every
  retransmission that the transaction has left, and up to three for the end of it: one more if the
  entry is not the one that the algorithm waits for, which happens after a response 5xx.
\<close>

fun entry_weight :: "(handle \<rightharpoonup> transaction) \<Rightarrow> timepoint \<times> handle \<Rightarrow> nat" where
  "entry_weight m (tp, h) =
     (case m h of
        None \<Rightarrow> 1
      | Some t \<Rightarrow> 2 * rx_left (tr_rtx_algo t) +
          (case rx_maybe_next (tr_rtx_algo t) of None \<Rightarrow> 1 | Some n \<Rightarrow> if n = tp then 2 else 3))"

definition client_potential :: "client \<Rightarrow> nat" where
  "client_potential c = 2 * sum_list (map (entry_weight (cl_tmap c)) (cl_timeline c)) + length (cl_effects c)"

lemma entry_weight_pos: "0 < entry_weight m x"
  by (cases x) (auto split: option.split)

lemma potential_pop:
  "cl_timeline c = x # rest \<Longrightarrow> client_potential (c\<lparr>cl_timeline := rest\<rparr>) < client_potential c"
  using entry_weight_pos [of "cl_tmap c" x] by (simp add: client_potential_def)

text \<open>A transaction that replaces another and makes no entry heavier.\<close>

definition no_heavier :: "transaction \<Rightarrow> transaction \<Rightarrow> bool" where
  "no_heavier t' t \<longleftrightarrow> (\<forall>m h x. m h = Some t \<longrightarrow> entry_weight (m(h \<mapsto> t')) x \<le> entry_weight m x)"

lemma no_heavierI:
  assumes "rx_maybe_next (tr_rtx_algo t') = None \<or> tr_rtx_algo t' = tr_rtx_algo t \<or> rx_left (tr_rtx_algo t') < rx_left (tr_rtx_algo t)"
    and "rx_left (tr_rtx_algo t') \<le> rx_left (tr_rtx_algo t)"
  shows "no_heavier t' t"
  using assms by (auto simp: no_heavier_def split: option.splits prod.splits)

lemma potential_replace:
  assumes "no_heavier t' t" "cl_tmap c h = Some t" "cl_timeline c = x # rest"
    and "sum_list (map (entry_weight ((cl_tmap c)(h \<mapsto> t'))) new) < entry_weight (cl_tmap c) x"
  shows "2 * sum_list (map (entry_weight ((cl_tmap c)(h \<mapsto> t'))) (new @ rest)) + Suc (length (cl_effects c)) < client_potential c"
proof -
  have "sum_list (map (entry_weight ((cl_tmap c)(h \<mapsto> t'))) rest) \<le> sum_list (map (entry_weight (cl_tmap c)) rest)"
    using assms(1,2) unfolding no_heavier_def by (blast intro: sum_list_weight_mono)
  then show ?thesis using assms(3,4) by (simp add: client_potential_def)
qed

lemma rx_next_waits: "snd (rx_next now a) = rx_maybe_next (fst (rx_next now a))"
  by (simp add: rx_next_def Let_def)

lemma potential_fire:
  assumes tl: "cl_timeline c = (tp, h) # rest" "\<not> is_after tp now" and t: "cl_tmap c h = Some t"
  shows "client_potential (fire now h t (c\<lparr>cl_timeline := rest\<rparr>)) < client_potential c"
proof (cases rule: rx_next_cases [of now "tr_rtx_algo t"])
  case stop
  let ?t = "t\<lparr>tr_rtx_algo := tr_rtx_algo t\<lparr>rx_maybe_next := None\<rparr>\<rparr>"
  have "no_heavier ?t t" by (rule no_heavierI) (simp_all add: rx_left_def)
  from potential_replace [OF this t tl(1), of "[]"] show ?thesis
    using stop entry_weight_pos [of "cl_tmap c" "(tp, h)"] by (simp add: fire_def push_effect_def client_potential_def del: entry_weight.simps)
next
  case (wait nxt)
  let ?t = "t\<lparr>tr_rtx_count := tr_rtx_count t + 1\<rparr>"
  have "no_heavier ?t t" by (rule no_heavierI) simp_all
  moreover have "nxt \<noteq> tp" using wait(2) tl(2) by auto
  ultimately show ?thesis using potential_replace [OF _ t tl(1), of ?t "[(nxt, h)]"] wait t
    by (simp add: fire_def push_effect_def upd_stat_def client_potential_def)
next
  case (again nxt a')
  let ?t = "t\<lparr>tr_rtx_algo := a', tr_rtx_count := tr_rtx_count t + 1\<rparr>"
  have "no_heavier ?t t" using again(2) by (intro no_heavierI) simp_all
  moreover have "rx_maybe_next a' = Some nxt"
    using rx_next_waits [of now "tr_rtx_algo t"] again(1) by simp
  ultimately show ?thesis using potential_replace [OF _ t tl(1), of ?t "[(nxt, h)]"] again(1,2) t
    by (simp add: fire_def push_effect_def upd_stat_def client_potential_def split: option.split)
qed

lemma potential_loop:
  "client_potential (next_loop now c) \<le> client_potential c"
  "cl_timeline c = (tp, h) # rest \<Longrightarrow> \<not> is_after tp now \<Longrightarrow> client_potential (next_loop now c) < client_potential c"
proof -
  have le: "client_potential (next_loop now b) \<le> client_potential b" for b
  proof -
    have "client_potential (next_loop now b) \<le> client_potential b \<and> (cl_timeline (next_loop now b) = [] \<or> is_after (fst (hd (cl_timeline (next_loop now b)))) now)"
      by (rule next_loop_keeps) (blast intro: less_imp_le less_le_trans potential_pop potential_fire)+
    then show ?thesis ..
  qed
  then show "client_potential (next_loop now c) \<le> client_potential c" .
  assume "cl_timeline c = (tp, h) # rest" "\<not> is_after tp now"
  then show "client_potential (next_loop now c) < client_potential c"
    by (cases rule: next_loop_cases [of now c]) (auto intro: le_less_trans [OF le potential_pop] le_less_trans [OF le potential_fire])
qed

lemma dom_next_loop: "dom (cl_tmap (next_loop now c)) = dom (cl_tmap c)"
proof -
  have "dom (cl_tmap (fire now h t b)) = insert h (dom (cl_tmap b))" for h t b
    by (cases rule: fire_cases [of now h t b]) simp_all
  then show ?thesis using next_loop_keeps [of "\<lambda>b. dom (cl_tmap b) = dom (cl_tmap c)" c now] by auto
qed

lemma potential_cleanup: "client_potential (cleanup h c) \<le> client_potential c"
proof -
  have "sum_list (map (entry_weight ((cl_tmap c)(h := None))) xs) \<le> sum_list (map (entry_weight (cl_tmap c)) xs)" for xs
    by (rule sum_list_weight_mono) (auto split: option.split)
  then show ?thesis by (simp add: cleanup_def client_potential_def split: option.split)
qed

lemma potential_bound:
  assumes "client_limits c" "rt = cs_retransmit (cl_settings c)" "limits_ok rt"
  shows "client_potential c \<le> (4 * (unat (rt_request_count rt) + unat (rt_server_error_max_retransmits rt)) + 2) * length (cl_timeline c)
    + length (cl_effects c)"
proof -
  let ?n = "unat (rt_request_count rt) + unat (rt_server_error_max_retransmits rt)"
  have "entry_weight (cl_tmap c) x \<le> 2 * ?n + 1" for x
  proof (cases "cl_tmap c (snd x)")
    case (Some t)
    then have "rx_left (tr_rtx_algo t) < ?n"
      using rx_left_bound [OF assms(3)] client_limitsD [OF assms(1)] assms(2) by blast
    then show ?thesis using Some by (cases x) (auto split: option.split)
  qed (cases x, simp)
  then have "sum_list (map (entry_weight (cl_tmap c)) (cl_timeline c)) \<le> length (cl_timeline c) * (2 * ?n + 1)"
    using sum_list_weight_mono [of "cl_timeline c" "entry_weight (cl_tmap c)" "\<lambda>_. 2 * ?n + 1"] by (simp add: sum_list_triv)
  then show ?thesis by (simp add: client_potential_def algebra_simps)
qed

section \<open>The client drains\<close>

lemma client_next_potential:
  assumes "client_inv c" "client_next now c = (c', e)"
  shows "client_potential c' \<le> client_potential (next_loop now c)"
    "queued_kind e \<Longrightarrow> client_potential c' < client_potential (next_loop now c)"
proof -
  have "client_potential c' + (if queued_kind e then 1 else 0) \<le> client_potential (next_loop now c)"
  proof (cases rule: client_next_cases [of now c])
    case (final e' es h)
    then show ?thesis using assms(2) potential_cleanup [of h "(next_loop now c)\<lparr>cl_effects := es\<rparr>"]
      by (simp add: client_potential_def)
  qed (use assms(2) in \<open>simp_all add: client_potential_def\<close>)
  then show "client_potential c' \<le> client_potential (next_loop now c)"
    "queued_kind e \<Longrightarrow> client_potential c' < client_potential (next_loop now c)" by (simp_all split: if_splits)
qed

lemma client_next_sleep:
  assumes "client_inv c" "client_next now c = (c', Sleep d)"
  obtains tp h rest where "c' = next_loop now c" "cl_timeline c' = (tp, h) # rest" "advance now d = tp"
proof -
  have "Sleep d \<notin> set (cl_effects (next_loop now c))"
    using client_inv_loop [OF assms(1), of now] by (auto simp: client_inv_def list_all_iff)
  then show thesis
    by (cases rule: client_next_cases [of now c]) (use assms(2) that in \<open>auto simp: advance_tp_minus\<close>)
qed

lemma client_next_unfinished:
  assumes "client_next now c = (c', e)" "h \<in> dom (cl_tmap c)"
  shows "h \<in> dom (cl_tmap c') \<or> final_for h e"
proof -
  have "h \<in> dom (cl_tmap (next_loop now c))" using assms(2) by (simp add: dom_next_loop)
  then show ?thesis
    by (cases rule: client_next_cases [of now c]) (use assms(1) in \<open>auto simp: cleanup_def split: option.splits\<close>)
qed

interpretation cl: draining client_next client_inv client_potential "\<lambda>c. dom (cl_tmap c)"
proof
  fix c c' :: client and now :: timepoint and d x :: duration and e h
  assume inv: "client_inv c"
  { assume n: "client_next now c = (c', e)"
    show "client_inv c'" by (rule client_inv_next [OF inv n])
    show "client_potential c' < client_potential c" if "queued_kind e"
      using client_next_potential(2) [OF inv n that] potential_loop(1) by (rule less_le_trans)
    show "h \<in> dom (cl_tmap c') \<or> final_for h e" if "h \<in> dom (cl_tmap c)"
      by (rule client_next_unfinished [OF n that]) }
  { assume n: "client_next now c = (c', Sleep d)"
    show "client_potential c' \<le> client_potential c"
      using client_next_potential(1) [OF inv n] potential_loop(1) by (rule order_trans)
    assume x: "0 \<le> x" "x < 2 ^ 63"
    obtain tp k rest where s: "c' = next_loop now c" "cl_timeline c' = (tp, k) # rest" "advance now d = tp"
      by (rule client_next_sleep [OF inv n])
    have "\<not> is_after tp (advance now (d + x))"
      using is_after_advance_rev [of x tp] x s(3) by (simp add: advance_advance [symmetric])
    from potential_loop(2) [OF s(2) this]
    show "client_potential (fst (client_next (advance now (d + x)) c')) < client_potential c'"
      using client_next_potential(1) [OF client_inv_next [OF inv n] prod.collapse [symmetric]] by (rule le_less_trans [rotated]) }
  { assume n: "client_next now c = (c', Idle)"
    show "dom (cl_tmap c) = {}"
      using idle_empty [OF inv n] client_next_unfinished [OF n] by fastforce }
qed

section \<open>Properties\<close>

text \<open>
  C7.  Every transaction ends: whatever state the client has reached, with any number of transactions in
  flight, a caller that from now on only calls \<open>next\<close>, performs the effects and sleeps at least as long
  as asked gets \<open>Idle\<close> after a number of calls that the settings, the timeline and the queue bound;
  before that it has been handed a bounded number of effects, and among them a final one for every
  transaction.  The caller may be late by any time that the clock can tell from earliness, at every call.
\<close>

theorem client_drains:
  assumes "reachable c" "\<forall>i. 0 \<le> late i \<and> late i < 2 ^ 63" "rt = cs_retransmit (cl_settings c)" "limits_ok rt"
    and "b = (4 * (unat (rt_request_count rt) + unat (rt_server_error_max_retransmits rt)) + 2) * length (cl_timeline c)
           + length (cl_effects c)"
    and "2 * b + 2 \<le> k"
  shows "\<exists>tr over. run_late client_next late k now c = tr @ [(over, Idle)] \<and> length tr \<le> b
    \<and> (\<forall>e \<in> snd ` set tr. e \<noteq> Idle \<and> (\<forall>d. e \<noteq> Sleep d))
    \<and> (\<forall>h. cl_tmap c h \<noteq> None \<longrightarrow> (\<exists>e \<in> snd ` set tr. final_for h e))"
proof -
  have p: "client_potential c \<le> b"
    using potential_bound [OF reachable_limits [OF assms(1)] assms(3,4)] assms(3,4,5) by simp
  have "drained (dom (cl_tmap c)) (client_potential c) (run_late client_next late k now c)"
    using cl.run_late_drained [OF _ reachable_inv [OF assms(1)]] assms(2,6) p by simp
  then have "drained (dom (cl_tmap c)) b (run_late client_next late k now c)" by (rule drained_mono [OF _ order_refl p])
  then show ?thesis by (fastforce simp: drained_def list_all_iff)
qed

text \<open>A client with two transactions in flight.\<close>

definition busy_client :: client where
  "busy_client =
     (case do_create list_view (\<lambda>m. m) 2000 (rev sample_tid) sample_request plain_client of
        Some (c, _) \<Rightarrow> c | None \<Rightarrow> client_new default_settings)"

lemma busy_client_created:
  "case do_create list_view (\<lambda>m. m) 2000 (rev sample_tid) sample_request plain_client of
     Some (c, r) \<Rightarrow> map snd (cl_timeline c) = [0, 1] \<and> length (cl_effects c) = 1 \<and>
       (\<forall>h \<in> {0, 1}. case cl_tmap c h of None \<Rightarrow> False | Some _ \<Rightarrow> True) \<and>
       rt_request_count (cs_retransmit (cl_settings c)) = 7 \<and>
       rt_server_error_max_retransmits (cs_retransmit (cl_settings c)) = 4 \<and>
       (case cl_tid_to_handle plain_client (rev sample_tid) of None \<Rightarrow> True | Some _ \<Rightarrow> False)
   | None \<Rightarrow> False"
  by code_simp

lemma busy_client_values:
  "\<exists>r. do_create list_view (\<lambda>m. m) 2000 (rev sample_tid) sample_request plain_client = Some (busy_client, r)"
  "cl_tid_to_handle plain_client (rev sample_tid) = None"
  "map snd (cl_timeline busy_client) = [0, 1]" "length (cl_effects busy_client) = 1"
  "cl_tmap busy_client 0 \<noteq> None" "cl_tmap busy_client 1 \<noteq> None"
  "rt_request_count (cs_retransmit (cl_settings busy_client)) = 7"
  "rt_server_error_max_retransmits (cs_retransmit (cl_settings busy_client)) = 4"
  using busy_client_created unfolding busy_client_def by (auto split: option.splits prod.splits)

lemma busy_client_reachable: "reachable busy_client"
  using busy_client_values(1,2) by (blast intro: reachable.step [OF plain_client_reachable] client_step.create)

theorem client_drains_witness:
  "\<exists>tr over. run_late client_next (\<lambda>_. 999) 200 5 busy_client = tr @ [(over, Idle)] \<and> length tr \<le> 93
     \<and> (\<exists>e \<in> snd ` set tr. final_for 0 e) \<and> (\<exists>e \<in> snd ` set tr. final_for 1 e)"
proof -
  have l: "length (cl_timeline busy_client) = 2" using arg_cong [OF busy_client_values(3), of length] by simp
  show ?thesis
    using client_drains [OF busy_client_reachable _ refl _ refl, of "\<lambda>_. 999" 200 5] l busy_client_values(4-8)
    by (simp add: limits_ok_def) blast
qed

end
