(* ===== verification/Rtp.thy ===== *)
theory Rtp
  imports Clock Net
begin

text \<open>
  RTP packets: \<open>rtp/rtp_packet.cpp\<close>, \<open>rtp/rtp_header.hpp\<close>, \<open>rtp/details/rtp_header_details.hpp\<close>, the
  payload map and the value classes around them.  A value class with one number is that number; a
  \<open>PayloadType\<close> is only made by \<open>from_uint8\<close>.  The \<open>assert\<close> of the parser is a branch of the model:
  the result \<open>None\<close>.
\<close>

section \<open>Constants and data\<close>

abbreviation RTP_FIXED_HEADER_LEN :: nat where "RTP_FIXED_HEADER_LEN \<equiv> 12"
abbreviation RTP_VERSION :: u8 where "RTP_VERSION \<equiv> 2"
abbreviation RTP_VERSION_MASK :: u8 where "RTP_VERSION_MASK \<equiv> 0xC0"
abbreviation RTP_VERSION_SHIFT :: nat where "RTP_VERSION_SHIFT \<equiv> 6"
abbreviation RTP_PADDING_MASK :: u8 where "RTP_PADDING_MASK \<equiv> 0x20"
abbreviation RTP_EXTENSION_MASK :: u8 where "RTP_EXTENSION_MASK \<equiv> 0x10"
abbreviation RTP_CC_MASK :: u8 where "RTP_CC_MASK \<equiv> 0x0F"
abbreviation RTP_MARKER_MASK :: u8 where "RTP_MARKER_MASK \<equiv> 0x80"
abbreviation RTP_PAYLOAD_TYPE_MASK :: u8 where "RTP_PAYLOAD_TYPE_MASK \<equiv> 0x7F"
abbreviation RTP_SEQUENCE_NUMBER_OFFSET :: nat where "RTP_SEQUENCE_NUMBER_OFFSET \<equiv> 2"
abbreviation RTP_TIMESTAMP_OFFSET :: nat where "RTP_TIMESTAMP_OFFSET \<equiv> 4"
abbreviation RTP_SSRC_OFFSET :: nat where "RTP_SSRC_OFFSET \<equiv> 8"

type_synonym payload_type = u8
type_synonym clock_rate = u32

definition payload_type_from_uint8 :: "u8 \<Rightarrow> payload_type option" where
  "payload_type_from_uint8 pt = (if pt \<le> 127 then Some pt else None)"

record rtp_timestamp =
  ts_value :: u32
  ts_rate :: clock_rate

type_synonym payload_map = "payload_type \<rightharpoonup> clock_rate"

definition payload_map_of :: "(payload_type \<times> clock_rate) list \<Rightarrow> payload_map" where
  \<comment> \<open>the range constructor of the map keeps the first of two items with the same key\<close>
  "payload_map_of l = map_of l"

definition rtp_clock_rate :: "payload_map \<Rightarrow> payload_type \<Rightarrow> clock_rate option" where
  "rtp_clock_rate m pt = m pt"

record rtp_extension =
  xt_profile_defined :: u16
  xt_data :: interval

record rtp_header =
  rh_marker :: bool
  rh_payload_type :: payload_type
  rh_sequence :: u16
  rh_ssrc :: u32
  rh_timestamp :: rtp_timestamp
  rh_csrcs :: "u32 list"
  rh_maybe_extension :: "rtp_extension option"

record rtp_packet =
  pk_header :: rtp_header
  pk_payload :: interval

record rtp_parse_stat =
  rps_success :: counter
  rps_error :: counter
  rps_invalid_size :: counter
  rps_invalid_version :: counter
  rps_invalid_csrc :: counter
  rps_invalid_extension :: counter
  rps_invalid_payload_type :: counter
  rps_unknown_rtp_clock :: counter
  rps_invalid_padding :: counter

section \<open>The parser\<close>

definition count_rtp_error :: "(rtp_parse_stat \<Rightarrow> rtp_parse_stat) \<Rightarrow> rtp_parse_stat \<Rightarrow> rtp_parse_stat" where
  "count_rtp_error f st = (f st)\<lparr>rps_error := inc (rps_error (f st))\<rparr>"

fun csrc_loop :: "craftpp \<Rightarrow> bytes \<Rightarrow> nat list \<Rightarrow> u32 list \<Rightarrow> rtp_parse_stat \<Rightarrow> rtp_parse_stat \<times> u32 list result" where
  "csrc_loop cv vv [] csrcs st = (st, Inr csrcs)"
| "csrc_loop cv vv (i # is) csrcs st =
     (case require ValueRequired (read_u32be cv vv (RTP_FIXED_HEADER_LEN + i * 4)) of
        Inl err \<Rightarrow> (count_rtp_error (\<lambda>s. s\<lparr>rps_invalid_csrc := inc (rps_invalid_csrc s)\<rparr>) st, Inl err)
      | Inr csrc \<Rightarrow> csrc_loop cv vv is (csrcs @ [csrc]) st)"

definition count_extension :: "rtp_parse_stat \<Rightarrow> rtp_parse_stat" where
  "count_extension = count_rtp_error (\<lambda>s. s\<lparr>rps_invalid_extension := inc (rps_invalid_extension s)\<rparr>)"

definition parse_extension ::
    "craftpp \<Rightarrow> bytes \<Rightarrow> nat \<Rightarrow> rtp_parse_stat \<Rightarrow> rtp_parse_stat \<times> (rtp_extension option \<times> nat) result" where
  \<comment> \<open>the extension and the number of bytes it takes with its header\<close>
  "parse_extension cv vv ext_offset st =
     (case read_u16be cv vv (ext_offset + 2) of
        None \<Rightarrow> (count_extension st, Inl (RtpError invalid_extension_length))
      | Some ext_length \<Rightarrow>
          (let ext_size = (unat ext_length + 1) * 4;
               ext_interval = \<lparr>i_offset = ext_offset + 4, i_count = ext_size - 4\<rparr>
           in if \<not> view_contains cv vv ext_interval
              then (count_extension st, Inl (RtpError invalid_extension_length))
              else case require ValueRequired (read_u16be cv vv ext_offset) of
                     Inl e \<Rightarrow> (st, Inl e)
                   | Inr len \<Rightarrow> (st, Inr (Some \<lparr>xt_profile_defined = len, xt_data = ext_interval\<rparr>, ext_size))))"

definition count_padding :: "rtp_parse_stat \<Rightarrow> rtp_parse_stat" where
  "count_padding = count_rtp_error (\<lambda>s. s\<lparr>rps_invalid_padding := inc (rps_invalid_padding s)\<rparr>)"

definition parse_padding :: "craftpp \<Rightarrow> bytes \<Rightarrow> nat \<Rightarrow> rtp_parse_stat \<Rightarrow> rtp_parse_stat \<times> nat result" where
  "parse_padding cv vv payload_with_padding_size st =
     (if payload_with_padding_size = 0 then (count_padding st, Inl (RtpError invalid_packet_padding))
      else case read_u8 cv vv (length vv - 1) of
             None \<Rightarrow> (count_padding st, Inl (RtpError invalid_packet_padding))
           | Some sz \<Rightarrow>
               (if unat sz > payload_with_padding_size
                then (count_padding st, Inl (RtpError invalid_packet_padding))
                else (st, Inr (unat sz))))"

definition rtp_parse ::
    "craftpp \<Rightarrow> bytes \<Rightarrow> payload_map \<Rightarrow> rtp_parse_stat \<Rightarrow> (rtp_parse_stat \<times> rtp_packet result) option" where
  "rtp_parse cv vv ptmap st =
     (if length vv < RTP_FIXED_HEADER_LEN
      then Some (count_rtp_error (\<lambda>s. s\<lparr>rps_invalid_size := inc (rps_invalid_size s)\<rparr>) st, Inl (RtpError packet_is_too_short))
      else
        let first_byte = assured_read_u8 cv vv 0;
            second_byte = assured_read_u8 cv vv 1;
            sequence_value = assured_read_u16be cv vv RTP_SEQUENCE_NUMBER_OFFSET;
            timestamp_value = assured_read_u32be cv vv RTP_TIMESTAMP_OFFSET;
            ssrc_value = assured_read_u32be cv vv RTP_SSRC_OFFSET
        in if (first_byte AND RTP_VERSION_MASK) \<noteq> push_bit RTP_VERSION_SHIFT RTP_VERSION
           then Some (count_rtp_error (\<lambda>s. s\<lparr>rps_invalid_version := inc (rps_invalid_version s)\<rparr>) st,
                      Inl (RtpError unknown_packet_version))
           else
             let has_padding = (first_byte AND RTP_PADDING_MASK) \<noteq> 0;
                 has_extension = (first_byte AND RTP_EXTENSION_MASK) \<noteq> 0;
                 num_cc = unat (first_byte AND RTP_CC_MASK)
             in case csrc_loop cv vv [0..<num_cc] [] st of
                  (st, Inl err) \<Rightarrow> Some (st, Inl err)
                | (st, Inr csrcs) \<Rightarrow>
                    (let marker = (second_byte AND RTP_MARKER_MASK) \<noteq> 0
                     in case payload_type_from_uint8 (second_byte AND RTP_PAYLOAD_TYPE_MASK) of
                          None \<Rightarrow> Some (count_rtp_error (\<lambda>s. s\<lparr>rps_invalid_payload_type := inc (rps_invalid_payload_type s)\<rparr>) st,
                                        Inl (RtpError invalid_payload_type))
                        | Some payload_type \<Rightarrow>
                            (case rtp_clock_rate ptmap payload_type of
                               None \<Rightarrow> Some (count_rtp_error (\<lambda>s. s\<lparr>rps_unknown_rtp_clock := inc (rps_unknown_rtp_clock s)\<rparr>) st,
                                             Inl (RtpError unknown_rtp_clock))
                             | Some rtp_clock \<Rightarrow>
                                 (let ext_offset = num_cc * 4 + RTP_FIXED_HEADER_LEN
                                  in case (if has_extension then parse_extension cv vv ext_offset st else (st, Inr (None, 0))) of
                                       (st, Inl err) \<Rightarrow> Some (st, Inl err)
                                     | (st, Inr (maybe_extension, ext_size)) \<Rightarrow>
                                         (let payload_offset = ext_offset + ext_size
                                          in if \<not> length vv \<ge> payload_offset then None
                                             else
                                               let payload_with_padding_size = length vv - payload_offset
                                               in case (if has_padding then parse_padding cv vv payload_with_padding_size st
                                                        else (st, Inr 0)) of
                                                    (st, Inl err) \<Rightarrow> Some (st, Inl err)
                                                  | (st, Inr padding_size) \<Rightarrow>
                                                      Some (st\<lparr>rps_success := inc (rps_success st)\<rparr>,
                                                        Inr \<lparr>pk_header = \<lparr>rh_marker = marker, rh_payload_type = payload_type,
                                                               rh_sequence = sequence_value, rh_ssrc = ssrc_value,
                                                               rh_timestamp = \<lparr>ts_value = timestamp_value, ts_rate = rtp_clock\<rparr>,
                                                               rh_csrcs = csrcs, rh_maybe_extension = maybe_extension\<rparr>,
                                                             pk_payload = \<lparr>i_offset = payload_offset,
                                                               i_count = payload_with_padding_size - padding_size\<rparr>\<rparr>))))))"

section \<open>The packet format\<close>

text \<open>
  RFC 3550 5.1 and 5.3.1 as a specification: the bytes of a packet with the given header, the contents
  of its header extension and everything behind it, and when they describe a parsed packet.
\<close>

definition first_byte_of :: "bool \<Rightarrow> bool \<Rightarrow> nat \<Rightarrow> u8" where
  "first_byte_of P X n = 0x80 OR (if P then 0x20 else 0) OR (if X then 0x10 else 0) OR of_nat n"

definition second_byte_of :: "bool \<Rightarrow> u8 \<Rightarrow> u8" where
  "second_byte_of M pt = (if M then 0x80 else 0) OR pt"

definition fixed_part :: "bool \<Rightarrow> rtp_header \<Rightarrow> bytes" where
  "fixed_part P h =
     [first_byte_of P (rh_maybe_extension h \<noteq> None) (length (rh_csrcs h)), second_byte_of (rh_marker h) (rh_payload_type h)]
     @ be_encode 2 (rh_sequence h) @ be_encode 4 (ts_value (rh_timestamp h)) @ be_encode 4 (rh_ssrc h)"

definition extension_part :: "rtp_extension option \<Rightarrow> bytes \<Rightarrow> bytes" where
  "extension_part x ext =
     (case x of None \<Rightarrow> []
      | Some e \<Rightarrow> be_encode 2 (xt_profile_defined e) @ be_encode 2 (of_nat (length ext div 4) :: u16) @ ext)"

definition rtp_wire :: "bool \<Rightarrow> rtp_header \<Rightarrow> bytes \<Rightarrow> bytes \<Rightarrow> bytes" where
  "rtp_wire P h ext body =
     fixed_part P h @ concat (map (be_encode 4) (rh_csrcs h)) @ extension_part (rh_maybe_extension h) ext @ body"

text \<open>
  A division of the bytes \<open>vv\<close> into the parts of the packet \<open>p\<close>: the fixed header with the padding bit \<open>P\<close>, the
  CSRC list, the header extension with the contents \<open>ext\<close>, the payload and the padding.
\<close>

definition rtp_layout :: "payload_map \<Rightarrow> bytes \<Rightarrow> rtp_packet \<Rightarrow> bool \<Rightarrow> bytes \<Rightarrow> bytes \<Rightarrow> bytes \<Rightarrow> bool" where
  "rtp_layout ptmap vv p P ext payload padding \<longleftrightarrow>
     (let h = pk_header p; off = 12 + 4 * length (rh_csrcs h) in
      vv = rtp_wire P h ext (payload @ padding) \<and>
      length (rh_csrcs h) \<le> 15 \<and> rh_payload_type h \<le> 127 \<and> ptmap (rh_payload_type h) = Some (ts_rate (rh_timestamp h)) \<and>
      (case rh_maybe_extension h of
         None \<Rightarrow> ext = []
       | Some x \<Rightarrow> length ext mod 4 = 0 \<and> length ext < 4 * 2 ^ 16 \<and> xt_data x = \<lparr>i_offset = off + 4, i_count = length ext\<rparr>) \<and>
      pk_payload p = \<lparr>i_offset = length vv - length (payload @ padding), i_count = length payload\<rparr>)"

text \<open>
  A packet of RFC 3550: with the padding bit there are one or more octets of padding, the last of which is
  their number, itself included; without it there are none.
\<close>

definition rtp_describes :: "payload_map \<Rightarrow> bytes \<Rightarrow> rtp_packet \<Rightarrow> bool" where
  "rtp_describes ptmap vv p \<longleftrightarrow>
     (\<exists>P ext payload padding. rtp_layout ptmap vv p P ext payload padding \<and>
        (if P then padding \<noteq> [] \<and> length padding = unat (last padding) else padding = []))"

text \<open>
  Not a packet of RFC 3550: the padding bit is set, the last octet is zero, and that octet and
  everything before it up to the header is taken for the payload.
\<close>

definition rtp_zero_padded :: "payload_map \<Rightarrow> bytes \<Rightarrow> rtp_packet \<Rightarrow> bool" where
  "rtp_zero_padded ptmap vv p \<longleftrightarrow>
     (\<exists>ext payload. rtp_layout ptmap vv p True ext payload [] \<and> payload \<noteq> [] \<and> last payload = 0)"

text \<open>Both together: the padding is what the last octet of the packet counts.\<close>

definition rtp_divided :: "payload_map \<Rightarrow> bytes \<Rightarrow> rtp_packet \<Rightarrow> bool" where
  "rtp_divided ptmap vv p \<longleftrightarrow>
     (\<exists>P ext payload padding. rtp_layout ptmap vv p P ext payload padding \<and>
        (if P then payload @ padding \<noteq> [] \<and> length padding = unat (last (payload @ padding)) else padding = []))"

lemma rtp_divided_iff: "rtp_divided ptmap vv p \<longleftrightarrow> rtp_describes ptmap vv p \<or> rtp_zero_padded ptmap vv p"
proof
  assume "rtp_divided ptmap vv p"
  then obtain P ext payload padding where d: "rtp_layout ptmap vv p P ext payload padding"
    "if P then payload @ padding \<noteq> [] \<and> length padding = unat (last (payload @ padding)) else padding = []"
    by (auto simp: rtp_divided_def)
  show "rtp_describes ptmap vv p \<or> rtp_zero_padded ptmap vv p"
  proof (cases "P \<and> padding = []")
    case True
    then have "payload \<noteq> []" "last payload = 0" using d(2) by (simp_all add: unat_eq_0)
    then show ?thesis using d(1) True by (auto simp: rtp_zero_padded_def)
  next
    case False
    then have "if P then padding \<noteq> [] \<and> length padding = unat (last padding) else padding = []"
      using d(2) by (auto split: if_splits)
    then show ?thesis using d(1) unfolding rtp_describes_def by blast
  qed
next
  assume "rtp_describes ptmap vv p \<or> rtp_zero_padded ptmap vv p"
  then show "rtp_divided ptmap vv p"
  proof
    assume "rtp_describes ptmap vv p"
    then obtain P ext payload padding where d: "rtp_layout ptmap vv p P ext payload padding"
      "if P then padding \<noteq> [] \<and> length padding = unat (last padding) else padding = []"
      by (auto simp: rtp_describes_def)
    then have "if P then payload @ padding \<noteq> [] \<and> length padding = unat (last (payload @ padding)) else padding = []"
      by (auto split: if_splits)
    with d(1) show ?thesis unfolding rtp_divided_def by blast
  next
    assume "rtp_zero_padded ptmap vv p"
    then show ?thesis by (fastforce simp: rtp_zero_padded_def rtp_divided_def)
  qed
qed

lemma zero_padded_last: "rtp_zero_padded ptmap vv p \<Longrightarrow> last vv = 0"
  by (auto simp: rtp_zero_padded_def rtp_layout_def rtp_wire_def Let_def)

lemma first_byte_bits_upt:
  "list_all (\<lambda>n. let b = of_nat n :: u8 in (b AND 0xC0) = 0x80 \<longrightarrow>
     b = first_byte_of ((b AND 0x20) \<noteq> 0) ((b AND 0x10) \<noteq> 0) (unat (b AND 0x0F))) [0..<256]"
  by code_simp

lemma second_byte_bits_upt:
  "list_all (\<lambda>n. let b = of_nat n :: u8 in
     b = second_byte_of ((b AND 0x80) \<noteq> 0) (b AND 0x7F) \<and> b AND 0x7F \<le> 127 \<and> unat (b AND 0x0F) \<le> 15) [0..<256]"
  by code_simp

lemma first_byte_of_upt:
  "list_all (\<lambda>n. list_all (\<lambda>P. list_all (\<lambda>X. let b = first_byte_of P X n in (b AND 0xC0) = 0x80 \<and>
     ((b AND 0x20) \<noteq> 0) = P \<and> ((b AND 0x10) \<noteq> 0) = X \<and> unat (b AND 0x0F) = n) [True, False]) [True, False]) [0..<16]"
  by code_simp

lemma second_byte_of_upt:
  "list_all (\<lambda>n. list_all (\<lambda>M. let b = second_byte_of M (of_nat n) in
     ((b AND 0x80) \<noteq> 0) = M \<and> b AND 0x7F = of_nat n) [True, False]) [0..<128]"
  by code_simp

lemma u8_upt:
  assumes "list_all (\<lambda>n. P (of_nat n :: u8)) [0..<256]"
  shows "P b"
proof -
  have "unat b < 256" using unsigned_less [of b, where 'a = nat] by simp
  moreover have "\<forall>n \<in> {0..<256}. P (of_nat n)" using assms by (simp add: list_all_iff)
  ultimately have "P (of_nat (unat b))" by (intro bspec [of _ _ "unat b"]) auto
  then show ?thesis by simp
qed

lemma first_byte_bits:
  "(b AND 0xC0) = 0x80 \<Longrightarrow> first_byte_of ((b AND 0x20) \<noteq> 0) ((b AND 0x10) \<noteq> 0) (unat (b AND 0x0F)) = b"
  using u8_upt [OF first_byte_bits_upt, of b] by (simp add: Let_def)

lemma second_byte_bits:
  "second_byte_of ((b AND 0x80) \<noteq> 0) (b AND 0x7F) = b" "b AND 0x7F \<le> 127" "unat (b AND 0x0F) \<le> 15"
  using u8_upt [OF second_byte_bits_upt, of b] by (simp_all add: Let_def)

lemma first_byte_of_fields:
  assumes "n \<le> 15"
  shows "first_byte_of P X n AND 0xC0 = 0x80" "(first_byte_of P X n AND 0x20 = 0) = (\<not> P)"
    "(first_byte_of P X n AND 0x10 = 0) = (\<not> X)" "unat (first_byte_of P X n AND 0x0F) = n"
  using first_byte_of_upt assms by (cases P; cases X; auto simp: list_all_iff Let_def)+

lemma second_byte_of_fields:
  assumes "pt \<le> 127"
  shows "(second_byte_of M pt AND 0x80 = 0) = (\<not> M)" "second_byte_of M pt AND 0x7F = pt"
proof -
  have "unat pt < 128" using assms by (simp add: word_le_nat_alt)
  moreover have "\<forall>n \<in> {0..<128}. \<forall>M. ((second_byte_of M (of_nat n) AND 0x80) \<noteq> 0) = M \<and> second_byte_of M (of_nat n) AND 0x7F = of_nat n"
    using second_byte_of_upt by (simp add: list_all_iff Let_def all_bool_eq)
  ultimately have "\<forall>M. ((second_byte_of M (of_nat (unat pt)) AND 0x80) \<noteq> 0) = M \<and>
      second_byte_of M (of_nat (unat pt)) AND 0x7F = of_nat (unat pt)"
    by (intro bspec [of _ _ "unat pt"]) auto
  then show "(second_byte_of M pt AND 0x80 = 0) = (\<not> M)" "second_byte_of M pt AND 0x7F = pt" by auto
qed

section \<open>The parts of the parser under the contract of the views\<close>

lemma version_bits: "push_bit RTP_VERSION_SHIFT RTP_VERSION = 0x80"
  by simp

lemma slice_join: "slice v a m @ slice v (a + m) k = slice v a (m + k)"
  unfolding slice_def take_add drop_drop by (simp add: add.commute)

lemma encode_slice4: "a + 4 \<le> length v \<Longrightarrow> be_encode 4 (be_decode (slice v a 4) :: u32) = slice v a 4"
  using be_encode_decode [of "slice v a 4", where 'a = 32] by simp

lemma encode_slice2: "a + 2 \<le> length v \<Longrightarrow> be_encode 2 (be_decode (slice v a 2) :: u16) = slice v a 2"
  using be_encode_decode [of "slice v a 2", where 'a = 16] by simp

lemma encode_chunks:
  "a + 4 * n \<le> length v \<Longrightarrow>
   concat (map (be_encode 4) (map (\<lambda>j. be_decode (slice v (a + j * 4) 4) :: u32) [0..<n])) = slice v a (4 * n)"
proof (induction n)
  case 0
  then show ?case by (simp add: slice_def)
next
  case (Suc n)
  then show ?case using slice_join [of v a "4 * n" 4] encode_slice4 [of "a + 4 * n" v]
    by (simp add: mult.commute add.commute)
qed

lemma decode_chunks:
  "map (\<lambda>j. be_decode (slice (F @ concat (map (be_encode 4) cs) @ R) (length F + j * 4) 4)) [0..<length cs] = (cs :: u32 list)"
proof (induction cs arbitrary: F)
  case (Cons c cs)
  let ?v = "F @ concat (map (be_encode 4) (c # cs)) @ R"
  have 0: "be_decode (slice ?v (length F) 4) = c"
    by (simp add: slice_def)
  have "map (\<lambda>j. be_decode (slice ?v (length F + Suc j * 4) 4)) [0..<length cs] = cs"
    using Cons.IH [of "F @ be_encode 4 c"] by (simp add: add.assoc)
  moreover have "[0..<length (c # cs)] = 0 # map Suc [0..<length cs]"
    using upt_conv_Cons [of 0 "Suc (length cs)"] by (simp add: map_Suc_upt del: upt_Suc)
  ultimately show ?case using 0 by (simp add: o_def)
qed simp

text \<open>The parser as one case distinction over the bytes.\<close>

definition cc_of :: "bytes \<Rightarrow> nat" where
  "cc_of vv = unat (vv ! 0 AND 0x0F)"

definition csrc_end :: "bytes \<Rightarrow> nat" where
  "csrc_end vv = cc_of vv * 4 + 12"

lemma csrc_end_eq: "12 + 4 * cc_of vv = csrc_end vv"
  by (simp add: csrc_end_def)

definition ext_words :: "bytes \<Rightarrow> nat" where
  "ext_words vv = unat (be_decode (slice vv (csrc_end vv + 2) 2) :: u16)"

definition has_ext :: "bytes \<Rightarrow> bool" where
  "has_ext vv \<longleftrightarrow> (vv ! 0 AND 0x10) \<noteq> 0"

definition has_pad :: "bytes \<Rightarrow> bool" where
  "has_pad vv \<longleftrightarrow> (vv ! 0 AND 0x20) \<noteq> 0"

definition body_offset :: "bytes \<Rightarrow> nat" where
  "body_offset vv = csrc_end vv + (if has_ext vv then 4 + 4 * ext_words vv else 0)"

definition rtp_acceptable :: "payload_map \<Rightarrow> bytes \<Rightarrow> bool" where
  "rtp_acceptable ptmap vv \<longleftrightarrow> 12 \<le> length vv \<and> vv ! 0 AND 0xC0 = 0x80 \<and> ptmap (vv ! 1 AND 0x7F) \<noteq> None \<and>
     body_offset vv \<le> length vv \<and>
     (has_pad vv \<longrightarrow> body_offset vv < length vv \<and> unat (last vv) \<le> length vv - body_offset vv)"

definition rtp_decode :: "payload_map \<Rightarrow> bytes \<Rightarrow> rtp_packet" where
  "rtp_decode ptmap vv =
     \<lparr>pk_header = \<lparr>rh_marker = (vv ! 1 AND 0x80) \<noteq> 0, rh_payload_type = vv ! 1 AND 0x7F,
        rh_sequence = be_decode (slice vv 2 2), rh_ssrc = be_decode (slice vv 8 4),
        rh_timestamp = \<lparr>ts_value = be_decode (slice vv 4 4), ts_rate = the (ptmap (vv ! 1 AND 0x7F))\<rparr>,
        rh_csrcs = map (\<lambda>j. be_decode (slice vv (12 + j * 4) 4)) [0..<cc_of vv],
        rh_maybe_extension =
          (if has_ext vv
           then Some \<lparr>xt_profile_defined = be_decode (slice vv (csrc_end vv) 2),
                      xt_data = \<lparr>i_offset = csrc_end vv + 4, i_count = 4 * ext_words vv\<rparr>\<rparr>
           else None)\<rparr>,
      pk_payload = \<lparr>i_offset = body_offset vv,
        i_count = length vv - body_offset vv - (if has_pad vv then unat (last vv) else 0)\<rparr>\<rparr>"

text \<open>What the statistics say after one call of the parser.\<close>

definition rtp_counted :: "rtp_parse_stat \<Rightarrow> rtp_parse_stat \<times> rtp_packet result \<Rightarrow> bool" where
  "rtp_counted st r \<longleftrightarrow>
     (case r of
        (st', Inr _) \<Rightarrow> st' = st\<lparr>rps_success := inc (rps_success st)\<rparr>
      | (st', Inl _) \<Rightarrow> rps_success st' = rps_success st \<and> rps_error st' = inc (rps_error st))"

lemma count_rtp_error_counted:
  "(\<And>s. rps_success (f s) = rps_success s) \<Longrightarrow> (\<And>s. rps_error (f s) = rps_error s) \<Longrightarrow>
   rtp_counted st (count_rtp_error f st, Inl e)"
  by (simp add: rtp_counted_def count_rtp_error_def)

context binary_view
begin

lemma csrc_loop_eq:
  "csrc_loop cv vv [i..<n] acc st =
    (if n \<le> i \<or> 12 + 4 * n \<le> length vv
     then (st, Inr (acc @ map (\<lambda>j. be_decode (slice vv (12 + j * 4) 4)) [i..<n]))
     else (count_rtp_error (\<lambda>s. s\<lparr>rps_invalid_csrc := inc (rps_invalid_csrc s)\<rparr>) st, Inl ValueRequired))"
proof (induction "n - i" arbitrary: i acc)
  case (Suc k)
  then have up: "[i..<n] = i # [Suc i..<n]" by (simp add: upt_conv_Cons)
  have r: "read_u32be cv vv (12 + i * 4) = (if 12 + i * 4 + 4 \<le> length vv then Some (be_decode (slice vv (12 + i * 4) 4)) else None)"
    by (rule read_u32be_eq)
  show ?case
  proof (cases "12 + i * 4 + 4 \<le> length vv")
    case True
    have "\<not> (n \<le> Suc i \<and> \<not> 12 + 4 * n \<le> length vv)" using True Suc.hyps(2) by simp
    then show ?thesis using Suc.hyps(1) [of "Suc i" "acc @ [be_decode (slice vv (12 + i * 4) 4)]"] Suc.hyps(2) True r
      unfolding up by (auto simp: require_def)
  next
    case False
    have "i < n" using Suc.hyps(2) by simp
    moreover from this have "\<not> 12 + 4 * n \<le> length vv" using False by linarith
    ultimately show ?thesis using False r unfolding up by (simp add: require_def)
  qed
qed simp

lemma parse_extension_eq:
  "parse_extension cv vv off st =
    (let L = unat (be_decode (slice vv (off + 2) 2) :: u16)
     in if off + (4 + 4 * L) \<le> length vv
        then (st, Inr (Some \<lparr>xt_profile_defined = be_decode (slice vv off 2), xt_data = \<lparr>i_offset = off + 4, i_count = 4 * L\<rparr>\<rparr>, 4 + 4 * L))
        else (count_extension st, Inl (RtpError invalid_extension_length)))"
  by (auto simp: parse_extension_def view_simps interval_in_def Let_def require_def)

lemma parse_padding_eq:
  assumes "w \<le> length vv"
  shows "parse_padding cv vv w st =
    (if w = 0 \<or> unat (last vv) > w then (count_padding st, Inl (RtpError invalid_packet_padding)) else (st, Inr (unat (last vv))))"
proof (cases "w = 0")
  case False
  then have "vv \<noteq> []" using assms by auto
  then show ?thesis using False by (simp add: parse_padding_def read_u8_eq last_conv_nth)
qed (simp add: parse_padding_def)

lemma rtp_parse_value:
  "\<exists>st' r. rtp_parse cv vv ptmap st = Some (st', r) \<and> rtp_counted st (st', r) \<and>
     (if rtp_acceptable ptmap vv then r = Inr (rtp_decode ptmap vv) else is_err r)"
proof (cases "12 \<le> length vv \<and> vv ! 0 AND 0xC0 = 0x80 \<and> 12 + 4 * cc_of vv \<le> length vv \<and> ptmap (vv ! 1 AND 0x7F) \<noteq> None")
  case False
  then have no: "\<not> rtp_acceptable ptmap vv" by (auto simp: rtp_acceptable_def body_offset_def csrc_end_def)
  show ?thesis
  proof (cases "12 \<le> length vv")
    case long: True
    have bound: "0 + 1 \<le> length vv" "1 + 1 \<le> length vv" using long by auto
    note heads = assured_read_u8_eq [OF bound(1)] assured_read_u8_eq [OF bound(2)]
    consider "vv ! 0 AND 0xC0 \<noteq> 0x80" | "vv ! 0 AND 0xC0 = 0x80" "\<not> 12 + 4 * cc_of vv \<le> length vv" "0 < cc_of vv"
      | "vv ! 0 AND 0xC0 = 0x80" "12 + 4 * cc_of vv \<le> length vv" "ptmap (vv ! 1 AND 0x7F) = None"
      using False long by (metis add_0_right gr0I mult_0_right)
    then show ?thesis using long no unfolding rtp_parse_def version_bits
      by cases (simp_all add: heads csrc_loop_eq payload_type_from_uint8_def second_byte_bits rtp_clock_rate_def
          count_rtp_error_counted Let_def del: One_nat_def flip: cc_of_def)
  qed (use no in \<open>simp add: rtp_parse_def count_rtp_error_counted\<close>)
next
  case True
  then obtain clk where clk: "ptmap (vv ! 1 AND 0x7F) = Some clk" by blast
  have bound: "0 + 1 \<le> length vv" "1 + 1 \<le> length vv" "2 + 2 \<le> length vv" "4 + 4 \<le> length vv" "8 + 4 \<le> length vv"
    using True by auto
  note heads = assured_read_u8_eq [OF bound(1)] assured_read_u8_eq [OF bound(2)] assured_read_u16be_eq [OF bound(3)]
    assured_read_u32be_eq [OF bound(4)] assured_read_u32be_eq [OF bound(5)]
  show ?thesis
  proof (cases "body_offset vv \<le> length vv")
    case False
    then have "has_ext vv" "\<not> rtp_acceptable ptmap vv" using True by (auto simp: body_offset_def rtp_acceptable_def csrc_end_def split: if_splits)
    then show ?thesis using True False clk unfolding rtp_parse_def version_bits
      by (simp add: heads csrc_loop_eq payload_type_from_uint8_def second_byte_bits rtp_clock_rate_def
          has_ext_def body_offset_def Let_def parse_extension_eq count_extension_def count_rtp_error_counted cc_of_def csrc_end_def ext_words_def del: One_nat_def)
  next
    case body: True
    then show ?thesis using True clk unfolding rtp_parse_def version_bits
      by (cases "vv ! 0 AND 0x10 = 0"; cases "vv ! 0 AND 0x20 = 0"; simp add: heads csrc_loop_eq payload_type_from_uint8_def
          second_byte_bits rtp_clock_rate_def has_ext_def has_pad_def body_offset_def Let_def parse_extension_eq parse_padding_eq count_padding_def count_rtp_error_counted
          rtp_acceptable_def rtp_decode_def rtp_counted_def count_rtp_error_def cc_of_def csrc_end_def ext_words_def del: One_nat_def)
  qed
qed

end

section \<open>Bytes and packets\<close>

lemma slice_split: "a + n \<le> length v \<Longrightarrow> slice v a n @ drop (a + n) v = drop a v"
  by (simp add: slice_def) (metis add.commute append_take_drop_id drop_drop)

lemma extension_bytes:
  assumes "off + 4 + 4 * unat (be_decode (slice vv (off + 2) 2) :: u16) \<le> length vv"
  defines "L \<equiv> unat (be_decode (slice vv (off + 2) 2) :: u16)"
  shows "extension_part (Some \<lparr>xt_profile_defined = be_decode (slice vv off 2), xt_data = iv\<rparr>) (slice vv (off + 4) (4 * L))
    = slice vv off (4 + 4 * L)"
proof -
  have b: "off + 2 \<le> length vv" "off + 2 + 2 \<le> length vv" using assms(1) by simp_all
  have "length (slice vv (off + 4) (4 * L)) div 4 = L" using assms(1) by (simp add: L_def)
  then have "be_encode 2 (of_nat (length (slice vv (off + 4) (4 * L)) div 4) :: u16) = slice vv (off + 2) 2"
    using encode_slice2 [OF b(2)] by (simp add: L_def)
  moreover have "slice vv off 2 @ slice vv (off + 2) 2 @ slice vv (off + 4) (4 * L) = slice vv off (4 + 4 * L)"
  proof -
    have "slice vv off 2 @ slice vv (off + 2) 2 = slice vv off 4" using slice_join [of vv off 2 2] by simp
    then show ?thesis using slice_join [of vv off 4 "4 * L"] by (metis append_assoc)
  qed
  ultimately show ?thesis using encode_slice2 [OF b(1)] by (simp add: extension_part_def)
qed

lemma rtp_dividedI:
  assumes "vv = rtp_wire P (pk_header p) ext (payload @ padding)" "length (rh_csrcs (pk_header p)) \<le> 15"
    "rh_payload_type (pk_header p) \<le> 127" "ptmap (rh_payload_type (pk_header p)) = Some (ts_rate (rh_timestamp (pk_header p)))"
    "case rh_maybe_extension (pk_header p) of None \<Rightarrow> ext = []
     | Some x \<Rightarrow> length ext mod 4 = 0 \<and> length ext < 4 * 2 ^ 16 \<and>
         xt_data x = \<lparr>i_offset = 12 + 4 * length (rh_csrcs (pk_header p)) + 4, i_count = length ext\<rparr>"
    "pk_payload p = \<lparr>i_offset = length vv - length (payload @ padding), i_count = length payload\<rparr>"
    "if P then payload @ padding \<noteq> [] \<and> length padding = unat (last (payload @ padding)) else padding = []"
  shows "rtp_divided ptmap vv p"
  unfolding rtp_divided_def rtp_layout_def Let_def using assms by blast

lemma decode_divided:
  assumes "rtp_acceptable ptmap vv"
  shows "rtp_divided ptmap vv (rtp_decode ptmap vv)"
proof -
  let ?p = "rtp_decode ptmap vv" and ?n = "cc_of vv"
  let ?h = "pk_header ?p" and ?pad = "if has_pad vv then unat (last vv) else 0"
  let ?ext = "if has_ext vv then slice vv (csrc_end vv + 4) (4 * ext_words vv) else []"
  let ?body = "drop (body_offset vv) vv"
  let ?payload = "take (length ?body - ?pad) ?body" and ?padding = "drop (length ?body - ?pad) ?body"
  have a: "12 \<le> length vv" "vv ! 0 AND 0xC0 = 0x80" "body_offset vv \<le> length vv" "csrc_end vv \<le> length vv"
    using assms by (auto simp: rtp_acceptable_def body_offset_def split: if_splits)
  obtain x y zs where vv: "vv = x # y # zs" 
    using a(1) by (cases vv; cases "tl vv") auto
  have len: "length (rh_csrcs ?h) = ?n" by (simp add: rtp_decode_def)
  have fixed: "fixed_part (has_pad vv) ?h = take 12 vv"
  proof -
    have "first_byte_of (has_pad vv) (has_ext vv) ?n = x" "second_byte_of (y AND 0x80 \<noteq> 0) (y AND 0x7F) = y"
      using first_byte_bits [of x] second_byte_bits(1) [of y] a(2) by (simp_all add: has_pad_def has_ext_def cc_of_def vv)
    moreover have "[x, y] @ slice vv 2 2 @ slice vv 4 4 @ slice vv 8 4 = take 12 vv"
      using slice_join [of vv 4 4 4] slice_join [of vv 2 2 8] take_add [of 2 10 vv] by (simp add: slice_def vv)
    ultimately show ?thesis using encode_slice2 [of 2 vv] encode_slice4 [of 4 vv] encode_slice4 [of 8 vv] a(1)
      by (cases "has_ext vv") (simp_all add: fixed_part_def rtp_decode_def cc_of_def vv)
  qed
  have csrcs: "concat (map (be_encode 4) (rh_csrcs ?h)) = slice vv 12 (4 * ?n)"
    using encode_chunks [of 12 ?n vv] a(4) by (simp add: rtp_decode_def csrc_end_def)
  have ext: "extension_part (rh_maybe_extension ?h) ?ext = slice vv (csrc_end vv) (body_offset vv - (csrc_end vv))"
  proof (cases "has_ext vv")
    case True
    then have "csrc_end vv + 4 + 4 * unat (be_decode (slice vv (csrc_end vv + 2) 2) :: u16) \<le> length vv"
      using a(3) by (simp add: body_offset_def ext_words_def)
    from extension_bytes [OF this] show ?thesis using True by (simp add: rtp_decode_def body_offset_def ext_words_def)
  qed (simp add: rtp_decode_def extension_part_def body_offset_def slice_def)
  have le: "csrc_end vv \<le> body_offset vv" by (simp add: body_offset_def)
  have wire: "vv = rtp_wire (has_pad vv) ?h ?ext (?payload @ ?padding)"
  proof -
    have "rtp_wire (has_pad vv) ?h ?ext (?payload @ ?padding) =
        take 12 vv @ slice vv 12 (4 * ?n) @ slice vv (csrc_end vv) (body_offset vv - (csrc_end vv)) @ ?body"
      unfolding rtp_wire_def fixed csrcs ext append_take_drop_id ..
    also have "\<dots> = take 12 vv @ slice vv 12 (4 * ?n) @ drop (csrc_end vv) vv"
      using slice_split [of "csrc_end vv" "body_offset vv - (csrc_end vv)" vv] a(3) le by simp
    also have "\<dots> = vv" using slice_split [of 12 "4 * ?n" vv] a(4) by (simp add: csrc_end_eq)
    finally show ?thesis by simp
  qed
  have pad: "?pad \<le> length ?body" "has_pad vv \<longrightarrow> ?body \<noteq> [] \<and> last ?body = last vv"
    using assms by (auto simp: rtp_acceptable_def last_drop)
  have cond: "case rh_maybe_extension ?h of None \<Rightarrow> ?ext = []
      | Some x \<Rightarrow> length ?ext mod 4 = 0 \<and> length ?ext < 4 * 2 ^ 16 \<and> xt_data x = \<lparr>i_offset = 12 + 4 * length (rh_csrcs ?h) + 4, i_count = length ?ext\<rparr>"
  proof (cases "has_ext vv")
    case True
    then have "length ?ext = 4 * ext_words vv" using a(3) by (simp add: body_offset_def)
    moreover have "ext_words vv < 2 ^ 16"
      unfolding ext_words_def using unsigned_less [of "be_decode (slice vv (csrc_end vv + 2) 2) :: u16", where 'a = nat] by simp
    ultimately show ?thesis using True by (simp add: rtp_decode_def csrc_end_eq)
  qed (simp add: rtp_decode_def)
  have rest: "length (rh_csrcs ?h) \<le> 15" "rh_payload_type ?h \<le> 127" "ptmap (rh_payload_type ?h) = Some (ts_rate (rh_timestamp ?h))"
    using assms second_byte_bits(2,3) by (auto simp: rtp_decode_def cc_of_def rtp_acceptable_def)
  have pay: "pk_payload ?p = \<lparr>i_offset = length vv - length (?payload @ ?padding), i_count = length ?payload\<rparr>"
    using a(3) by (simp add: rtp_decode_def)
  have "if has_pad vv then ?payload @ ?padding \<noteq> [] \<and> length ?padding = unat (last (?payload @ ?padding)) else ?padding = []"
    unfolding append_take_drop_id using pad by (auto split: if_splits)
  from rtp_dividedI [where ptmap = ptmap, OF wire rest cond pay this] show ?thesis .
qed

lemma length_chunks [simp]: "length (concat (map (be_encode 4) cs)) = 4 * length (cs :: u32 list)"
  by (induction cs) simp_all

lemma length_fixed_part [simp]: "length (fixed_part P h) = 12"
  by (simp add: fixed_part_def)

lemma fixed_part_reads:
  assumes "vv = fixed_part P h @ R"
  shows "vv ! 0 = first_byte_of P (rh_maybe_extension h \<noteq> None) (length (rh_csrcs h))"
    "vv ! 1 = second_byte_of (rh_marker h) (rh_payload_type h)"
    "be_decode (slice vv 2 2) = rh_sequence h" "be_decode (slice vv 4 4) = ts_value (rh_timestamp h)"
    "be_decode (slice vv 8 4) = rh_ssrc h"
  using assms by (simp_all add: fixed_part_def slice_def)

lemma divided_decode:
  assumes "rtp_divided ptmap vv p"
  shows "rtp_acceptable ptmap vv \<and> rtp_decode ptmap vv = p"
proof -
  let ?h = "pk_header p" and ?n = "length (rh_csrcs (pk_header p))"
  obtain P ext payload padding where d: "vv = rtp_wire P ?h ext (payload @ padding)" "?n \<le> 15" "rh_payload_type ?h \<le> 127"
    "ptmap (rh_payload_type ?h) = Some (ts_rate (rh_timestamp ?h))"
    "case rh_maybe_extension ?h of None \<Rightarrow> ext = []
     | Some x \<Rightarrow> length ext mod 4 = 0 \<and> length ext < 4 * 2 ^ 16 \<and> xt_data x = \<lparr>i_offset = 12 + 4 * ?n + 4, i_count = length ext\<rparr>"
    "pk_payload p = \<lparr>i_offset = length vv - length (payload @ padding), i_count = length payload\<rparr>"
    "if P then payload @ padding \<noteq> [] \<and> length padding = unat (last (payload @ padding)) else padding = []"
    using assms unfolding rtp_divided_def rtp_layout_def Let_def by blast
  let ?C = "concat (map (be_encode 4) (rh_csrcs ?h))" and ?E = "extension_part (rh_maybe_extension ?h) ext"
  let ?B = "payload @ padding"
  have vv: "vv = fixed_part P ?h @ ?C @ ?E @ ?B" using d(1) by (simp add: rtp_wire_def)
  note r = fixed_part_reads [OF vv]
  note fb = first_byte_of_fields [OF d(2), of P "rh_maybe_extension ?h \<noteq> None"]
  note sb = second_byte_of_fields [OF d(3), of "rh_marker ?h"]
  have f: "cc_of vv = ?n" "has_ext vv = (rh_maybe_extension ?h \<noteq> None)" "has_pad vv = P" "csrc_end vv = 12 + 4 * ?n"
    using fb by (auto simp: cc_of_def has_ext_def has_pad_def csrc_end_def r)
  have cs: "map (\<lambda>j. be_decode (slice vv (12 + j * 4) 4)) [0..<cc_of vv] = rh_csrcs ?h"
    unfolding f(1) using decode_chunks [of "fixed_part P ?h" "rh_csrcs ?h" "?E @ ?B"] by (simp add: vv)
  have ext: "4 + 4 * ext_words vv = length ?E \<and> 4 * ext_words vv = length ext \<and>
      be_decode (slice vv (csrc_end vv) 2) = xt_profile_defined x" if x: "rh_maybe_extension ?h = Some x" for x
  proof -
    have L: "length ext mod 4 = 0" "length ext div 4 < 2 ^ 16" using d(5) x by auto
    have v: "vv = (fixed_part P ?h @ ?C) @ be_encode 2 (xt_profile_defined x) @ be_encode 2 (of_nat (length ext div 4) :: u16) @ ext @ ?B"
      using vv x by (simp add: extension_part_def)
    have "slice vv (csrc_end vv) 2 = be_encode 2 (xt_profile_defined x)"
      "slice vv (csrc_end vv + 2) 2 = be_encode 2 (of_nat (length ext div 4) :: u16)"
      unfolding f(4) by (subst v, simp add: slice_def)+
    moreover from this have "ext_words vv = length ext div 4"
      using unat_of_nat_small [of "length ext div 4", where 'a = 16] L(2) by (simp add: ext_words_def)
    ultimately show ?thesis using L(1) x by (auto simp: extension_part_def)
  qed
  have off: "body_offset vv = 12 + 4 * ?n + length ?E" "length vv = body_offset vv + length ?B"
  proof -
    show "body_offset vv = 12 + 4 * ?n + length ?E"
      using ext f by (cases "rh_maybe_extension ?h") (auto simp: body_offset_def extension_part_def)
    then show "length vv = body_offset vv + length ?B" by (simp add: vv)
  qed
  have last: "last vv = last ?B" if P using d(7) that by (simp add: vv del: append_assoc)
  have pt: "vv ! 1 AND 0x7F = rh_payload_type ?h" "(vv ! 1 AND 0x80 \<noteq> 0) = rh_marker ?h" using sb unfolding r by auto
  have "12 \<le> length vv" "vv ! 0 AND 0xC0 = 0x80" "ptmap (vv ! 1 AND 0x7F) \<noteq> None"
    using fb(1) d(4) unfolding pt(1) r(1) by (simp_all add: vv)
  moreover have "body_offset vv < length vv \<and> unat (last vv) \<le> length vv - body_offset vv" if P
  proof -
    have "?B \<noteq> []" "length padding = unat (last vv)" using d(7) last that by simp_all
    then have "0 < length ?B" "unat (last vv) \<le> length ?B" by (blast, simp)
    then show ?thesis using off(2) by linarith
  qed
  ultimately have "rtp_acceptable ptmap vv"
    using off(2) unfolding rtp_acceptable_def f(3) by simp
  moreover have "rtp_decode ptmap vv = p"
  proof -
    have xt: "(if has_ext vv then Some \<lparr>xt_profile_defined = be_decode (slice vv (csrc_end vv) 2),
        xt_data = \<lparr>i_offset = csrc_end vv + 4, i_count = 4 * ext_words vv\<rparr>\<rparr> else None) = rh_maybe_extension ?h"
      using ext d(5) f by (cases "rh_maybe_extension ?h") auto
    have "\<lparr>i_offset = body_offset vv, i_count = length vv - body_offset vv - (if has_pad vv then unat (last vv) else 0)\<rparr> = pk_payload p"
      using d(6,7) off(2) last by (auto simp: f(3) split: if_splits)
    then show ?thesis unfolding rtp_decode_def cs xt pt r(3-5) by (simp add: d(4))
  qed
  ultimately show ?thesis ..
qed

lemma divided_padding_bit: "rtp_layout ptmap vv p P ext payload padding \<Longrightarrow> has_pad vv = P"
  using first_byte_of_fields(2) [of "length (rh_csrcs (pk_header p))" P]
  by (auto simp: rtp_layout_def rtp_wire_def fixed_part_def has_pad_def Let_def)

section \<open>Properties\<close>

text \<open>
  C19.  The RTP parser accepts the packets of RFC 3550 whose payload type is in the payload map, and beyond
  them only packets with the padding bit and a padding count of zero, which it takes for packets
  without padding.  What it returns describes the input completely: every byte belongs to the fixed
  header, the CSRC list, the header extension, the payload or the padding, and the returned fields
  and intervals are those of that division.  No input makes it fail its assertion.
\<close>

theorem rtp_parse_iff_describes:
  assumes "binary_view cv"
  shows "rtp_parse cv vv ptmap st \<noteq> None
    \<and> ((\<exists>st'. rtp_parse cv vv ptmap st = Some (st', Inr p)) \<longleftrightarrow>
         rtp_describes ptmap vv p \<or> rtp_zero_padded ptmap vv p)"
proof -
  obtain st' r where r: "rtp_parse cv vv ptmap st = Some (st', r)"
    "if rtp_acceptable ptmap vv then r = Inr (rtp_decode ptmap vv) else is_err r"
    using binary_view.rtp_parse_value [OF assms] by blast
  then have "(\<exists>st'. rtp_parse cv vv ptmap st = Some (st', Inr p)) \<longleftrightarrow> rtp_divided ptmap vv p"
    using decode_divided [of ptmap vv] divided_decode [of ptmap vv p] by (auto split: if_splits)
  then show ?thesis using r(1) by (simp add: rtp_divided_iff)
qed

text \<open>A packet with one CSRC, a header extension of one word, three bytes of payload and two of padding.\<close>

definition sample_rtp :: bytes where
  "sample_rtp = [0xB1, 0xE0, 0, 7, 0, 0, 0, 9, 0, 0, 0, 5, 1, 2, 3, 4, 0xBE, 0xDE, 0, 1, 9, 9, 9, 9, 65, 66, 67, 0, 2]"

definition zero_rtp_stat :: rtp_parse_stat where
  "zero_rtp_stat = \<lparr>rps_success = 0, rps_error = 0, rps_invalid_size = 0, rps_invalid_version = 0, rps_invalid_csrc = 0,
     rps_invalid_extension = 0, rps_invalid_payload_type = 0, rps_unknown_rtp_clock = 0, rps_invalid_padding = 0\<rparr>"

lemma sample_rtp_parsed:
  "case rtp_parse list_view sample_rtp (payload_map_of [(96, 90000)]) zero_rtp_stat of
     Some (st, Inr p) \<Rightarrow> pk_payload p = \<lparr>i_offset = 24, i_count = 3\<rparr> \<and> rh_csrcs (pk_header p) = [0x01020304]
       \<and> rh_marker (pk_header p) \<and> rh_sequence (pk_header p) = 7 \<and> rps_success st = 1
   | _ \<Rightarrow> False"
  by code_simp

theorem rtp_parse_iff_describes_witness:
  "\<exists>p. rtp_describes (payload_map_of [(96, 90000)]) sample_rtp p \<and> pk_payload p = \<lparr>i_offset = 24, i_count = 3\<rparr>"
proof -
  obtain st p where p: "rtp_parse list_view sample_rtp (payload_map_of [(96, 90000)]) zero_rtp_stat = Some (st, Inr p)"
    "pk_payload p = \<lparr>i_offset = 24, i_count = 3\<rparr>"
    using sample_rtp_parsed
    by (cases "rtp_parse list_view sample_rtp (payload_map_of [(96, 90000)]) zero_rtp_stat") (auto split: sum.splits)
  have "\<not> rtp_zero_padded (payload_map_of [(96, 90000)]) sample_rtp p"
    using zero_padded_last [of "payload_map_of [(96, 90000)]" sample_rtp p] by (auto simp: sample_rtp_def)
  then have "rtp_describes (payload_map_of [(96, 90000)]) sample_rtp p"
    using rtp_parse_iff_describes [OF binary_view_list_view, of sample_rtp "payload_map_of [(96, 90000)]" zero_rtp_stat p] p(1) by blast
  with p(2) show ?thesis by blast
qed

text \<open>
  The statistics of the RTP parser: every call counts either one success and nothing else, or one
  error and no success.
\<close>

theorem rtp_parse_counts:
  assumes "binary_view cv"
  shows "case rtp_parse cv vv ptmap st of
      None \<Rightarrow> False
    | Some (st', Inr _) \<Rightarrow> st' = st\<lparr>rps_success := rps_success st + 1\<rparr>
    | Some (st', Inl _) \<Rightarrow> rps_success st' = rps_success st \<and> rps_error st' = rps_error st + 1"
proof -
  obtain st' r where "rtp_parse cv vv ptmap st = Some (st', r)" "rtp_counted st (st', r)"
    using binary_view.rtp_parse_value [OF assms] by blast
  then show ?thesis by (cases r) (simp_all add: rtp_counted_def inc_def)
qed

theorem rtp_parse_counts_witness:
  "\<exists>st r. rtp_parse list_view [0x80] Map.empty zero_rtp_stat = Some (st, r) \<and> rps_success st = 0 \<and> rps_error st = 1"
proof -
  have "rtp_parse list_view [0x80] Map.empty zero_rtp_stat = Some
      (count_rtp_error (\<lambda>s. s\<lparr>rps_invalid_size := inc (rps_invalid_size s)\<rparr>) zero_rtp_stat, Inl (RtpError packet_is_too_short))"
    by (simp add: rtp_parse_def)
  with rtp_parse_counts [OF binary_view_list_view, where vv = "[0x80]" and ptmap = Map.empty and st = zero_rtp_stat] show ?thesis
    by (auto simp: zero_rtp_stat_def)
qed

text \<open>
  A padding count of zero is accepted, and only as such: no division of the packet as RFC 3550 wants it
  exists, and the payload that is returned ends with the zero octet.
\<close>

theorem rtp_zero_padding_accepted:
  assumes "binary_view cv" "rtp_zero_padded ptmap vv p"
  shows "(\<exists>st'. rtp_parse cv vv ptmap st = Some (st', Inr p)) \<and> \<not> rtp_describes ptmap vv p
    \<and> i_offset (pk_payload p) + i_count (pk_payload p) = length vv"
proof -
  have a: "rtp_acceptable ptmap vv" "rtp_decode ptmap vv = p"
    using divided_decode [of ptmap vv p] assms(2) rtp_divided_iff by blast+
  have z: "last vv = 0" by (rule zero_padded_last [OF assms(2)])
  then have len: "i_offset (pk_payload p) + i_count (pk_payload p) = length vv"
    using a by (auto simp: rtp_decode_def rtp_acceptable_def)
  have "\<not> rtp_describes ptmap vv p"
  proof
    assume "rtp_describes ptmap vv p"
    then obtain P ext payload padding where d: "rtp_layout ptmap vv p P ext payload padding"
      "if P then padding \<noteq> [] \<and> length padding = unat (last padding) else padding = []"
      by (auto simp: rtp_describes_def)
    have pad: "padding = []"
      using d z by (auto simp: rtp_layout_def rtp_wire_def Let_def split: if_splits)
    then have "has_pad vv = False" using d divided_padding_bit [OF d(1)] by (simp split: if_splits)
    moreover have "has_pad vv" using assms(2) divided_padding_bit by (auto simp: rtp_zero_padded_def)
    ultimately show False by simp
  qed
  then show ?thesis using binary_view.rtp_parse_value [OF assms(1), of vv ptmap st] a len by auto
qed

definition sample_rtp_zero :: bytes where
  "sample_rtp_zero = [0xA0, 96, 0, 7, 0, 0, 0, 9, 0, 0, 0, 5, 65, 0]"

theorem rtp_zero_padding_accepted_witness:
  "\<exists>st p. rtp_parse list_view sample_rtp_zero (payload_map_of [(96, 90000)]) zero_rtp_stat = Some (st, Inr p)
     \<and> i_offset (pk_payload p) + i_count (pk_payload p) = length sample_rtp_zero"
proof -
  let ?m = "payload_map_of [(96, 90000)]" and ?p = "\<lparr>pk_header = \<lparr>rh_marker = False, rh_payload_type = 96, rh_sequence = 7, rh_ssrc = 5,
      rh_timestamp = \<lparr>ts_value = 9, ts_rate = 90000\<rparr>, rh_csrcs = [], rh_maybe_extension = None\<rparr>,
      pk_payload = \<lparr>i_offset = 12, i_count = 2\<rparr>\<rparr>"
  have "rtp_wire True (pk_header ?p) [] ([65, 0] @ []) = sample_rtp_zero" by code_simp
  then have "rtp_layout ?m sample_rtp_zero ?p True [] [65, 0] []"
    by (simp add: rtp_layout_def payload_map_of_def) (simp add: sample_rtp_zero_def)
  then have "rtp_zero_padded ?m sample_rtp_zero ?p" unfolding rtp_zero_padded_def
    by (intro exI [of _ "[]"] exI [of _ "[65, 0]"]) simp
  from rtp_zero_padding_accepted [OF binary_view_list_view this, where st = zero_rtp_stat] show ?thesis by blast
qed

end
