(* ===== verification/Text_Streams.thy ===== *)
theory Text_Streams
  imports Errors
begin

text \<open>
  Text: the character classes of \<open>abnf/abnf.hpp\<close>, splitting and joining of \<open>util/util_string_view.hpp\<close>
  and the token stream of \<open>util/util_token_stream.hpp\<close>.  A \<open>std::string_view\<close> is its \<open>string\<close>;
  \<open>std::tolower\<close> is the one of the default \<open>"C"\<close> locale.
\<close>

section \<open>Characters\<close>

definition is_ALPHA :: "char \<Rightarrow> bool" where
  "is_ALPHA c \<longleftrightarrow> (0x41 \<le> (of_char c :: nat) \<and> (of_char c :: nat) \<le> 0x5a) \<or> (0x61 \<le> (of_char c :: nat) \<and> (of_char c :: nat) \<le> 0x7a)"

definition is_DIGIT :: "char \<Rightarrow> bool" where
  "is_DIGIT c \<longleftrightarrow> 0x30 \<le> (of_char c :: nat) \<and> (of_char c :: nat) \<le> 0x39"

definition to_lower :: "char \<Rightarrow> char" where
  "to_lower c = (if 0x41 \<le> (of_char c :: nat) \<and> (of_char c :: nat) \<le> 0x5a then char_of ((of_char c :: nat) + 32) else c)"

fun eq_string_loop :: "string \<Rightarrow> string \<Rightarrow> bool" where
  "eq_string_loop (c # cs) (d # ds) = (if to_lower c \<noteq> to_lower d then False else eq_string_loop cs ds)"
| "eq_string_loop _ _ = True"

definition eq_string :: "string \<Rightarrow> string \<Rightarrow> bool" where
  "eq_string v1 v2 = (if length v1 \<noteq> length v2 then False else eq_string_loop v1 v2)"

lemma eq_string_iff: "eq_string v w \<longleftrightarrow> map to_lower v = map to_lower w"
proof (cases "length v = length w")
  case True
  then show ?thesis by (induction v w rule: list_induct2) (auto simp: eq_string_def)
qed (auto simp: eq_string_def dest: map_eq_imp_length_eq)

section \<open>Splitting and joining\<close>

definition remove_prefix :: "string \<Rightarrow> nat \<Rightarrow> string option" where
  "remove_prefix sv sz = (if sz > length sv then None else Some (drop sz sv))"

fun find_char :: "char \<Rightarrow> string \<Rightarrow> nat option" where
  "find_char sep [] = None"
| "find_char sep (c # cs) = (if c = sep then Some 0 else map_option Suc (find_char sep cs))"

definition sv_split :: "string \<Rightarrow> char \<Rightarrow> (string \<times> string) option" where
  "sv_split sv sep =
     (case find_char sep sv of
        Some pos \<Rightarrow> map_option (\<lambda>second. (take pos sv, second)) (remove_prefix sv (pos + 1))
      | None \<Rightarrow> None)"

lemma find_char_None: "find_char sep s = None \<longleftrightarrow> sep \<notin> set s"
  by (induction s) auto

lemma find_char_Some: "find_char sep s = Some n \<Longrightarrow> n < length s \<and> s = take n s @ sep # drop (Suc n) s \<and> sep \<notin> set (take n s)"
  by (induction s arbitrary: n) (auto split: if_splits)

lemma sv_split_None: "sv_split s sep = None \<longleftrightarrow> sep \<notin> set s"
proof (cases "find_char sep s")
  case None
  then show ?thesis by (simp add: sv_split_def flip: find_char_None)
next
  case (Some n)
  then have "sep \<in> set s" "n < length s" using find_char_None [of sep s] find_char_Some [of sep s n] by auto
  then show ?thesis using Some by (simp add: sv_split_def remove_prefix_def)
qed

lemma sv_split_Some: "sv_split s sep = Some (a, b) \<Longrightarrow> s = a @ sep # b \<and> sep \<notin> set a"
  by (auto simp: sv_split_def remove_prefix_def split: option.splits if_splits dest: find_char_Some)

function split_all :: "string \<Rightarrow> char \<Rightarrow> string list" where
  "split_all sv sep =
     (if sv = [] then []
      else case sv_split sv sep of
             Some (first, second) \<Rightarrow> first # split_all second sep
           | None \<Rightarrow> sv # split_all [] sep)"
  by pat_completeness auto
termination
  by (relation "measure (\<lambda>(sv, sep). length sv)") (auto dest!: sv_split_Some)

declare split_all.simps [simp del]

fun join_loop :: "string \<Rightarrow> bool \<Rightarrow> string list \<Rightarrow> string" where
  "join_loop sep start [] = []"
| "join_loop sep start (x # xs) = (if start then [] else sep) @ x @ join_loop sep False xs"

definition join :: "string list \<Rightarrow> string \<Rightarrow> string" where
  "join c sep = join_loop sep True c"

lemma split_all_Nil [simp]: "split_all [] sep = []"
  by (simp add: split_all.simps)

lemma split_all_append: "sep \<notin> set a \<Longrightarrow> split_all (a @ sep # b) sep = a # split_all b sep"
proof -
  assume a: "sep \<notin> set a"
  obtain x y where s: "sv_split (a @ sep # b) sep = Some (x, y)"
    using sv_split_None [of "a @ sep # b" sep] by (cases "sv_split (a @ sep # b) sep") auto
  then have "a @ sep # b = x @ sep # y" "sep \<notin> set x" using sv_split_Some by auto
  then have "x = a \<and> y = b" using a by (auto simp: append_eq_append_conv2 Cons_eq_append_conv append_eq_Cons_conv)
  then show ?thesis using s by (simp add: split_all.simps [of "a @ sep # b"])
qed

lemma split_all_single: "sep \<notin> set a \<Longrightarrow> a \<noteq> [] \<Longrightarrow> split_all a sep = [a]"
  using sv_split_None [of a sep] by (simp add: split_all.simps [of a])

lemma join_Nil [simp]: "join [] sep = []"
  by (simp add: join_def)

lemma join_single [simp]: "join [x] sep = x"
  by (simp add: join_def)

lemma join_Cons: "xs \<noteq> [] \<Longrightarrow> join (x # xs) sep = x @ sep @ join xs sep"
  by (cases xs) (simp_all add: join_def)

lemma split_all_join:
  assumes "list_all (\<lambda>w. sep \<notin> set w) ws" "ws \<noteq> []" "last ws \<noteq> []"
  shows "split_all (join ws [sep]) sep = ws"
  using assms
proof (induction ws)
  case (Cons w ws)
  show ?case
  proof (cases "ws = []")
    case True
    then show ?thesis using Cons.prems by (simp add: split_all_single)
  next
    case False
    then show ?thesis using Cons by (simp add: join_Cons split_all_append)
  qed
qed simp

lemma split_all_tokens: "list_all (\<lambda>w. sep \<notin> set w) (split_all s sep)"
proof (induction s sep rule: split_all.induct)
  case (1 s sep)
  show ?case
  proof (cases "s = []")
    case False
    then show ?thesis using 1 sv_split_None [of s sep] sv_split_Some [of s sep]
      by (subst split_all.simps) (auto split: option.split)
  qed simp
qed

lemma join_split_all: "s = join (split_all s sep) [sep] @ (if s \<noteq> [] \<and> last s = sep then [sep] else [])"
proof (induction s sep rule: split_all.induct)
  case (1 s sep)
  show ?case
  proof (cases "sv_split s sep")
    case None
    then have n: "sep \<notin> set s" by (simp add: sv_split_None)
    then show ?thesis by (cases "s = []") (auto simp: split_all_single)
  next
    case (Some p)
    obtain a b where p: "p = (a, b)" by force
    have s: "s = a @ sep # b" "sep \<notin> set a" using sv_split_Some Some p by auto
    have IH: "b = join (split_all b sep) [sep] @ (if b \<noteq> [] \<and> last b = sep then [sep] else [])"
      by (rule 1(2) [OF _ Some]) (simp_all add: p s(1))
    show ?thesis
    proof (cases "b = []")
      case True
      then show ?thesis using s by (simp add: split_all_append)
    next
      case False
      then have "split_all b sep \<noteq> []" by (simp add: split_all.simps [of b] split: option.split prod.split)
      then show ?thesis using s IH False by (simp add: split_all_append join_Cons)
    qed
  qed
qed

section \<open>Token streams\<close>

record token_stream =
  tk_data :: "string list"
  tk_pos :: nat

definition token_stream_new :: "string list \<Rightarrow> token_stream" where
  "token_stream_new d = \<lparr>tk_data = d, tk_pos = 0\<rparr>"

definition required :: "token_stream \<Rightarrow> token_stream \<times> string result" where
  "required s =
     (if tk_pos s = length (tk_data s) then (s, Inl (TokenError no_required_token))
      else (s\<lparr>tk_pos := tk_pos s + 1\<rparr>, Inr (tk_data s ! tk_pos s)))"

definition required_bind :: "(string \<Rightarrow> 'a result) \<Rightarrow> token_stream \<Rightarrow> token_stream \<times> 'a result" where
  "required_bind f s = (let (s, r) = required s in (s, rbind r f))"

definition required_token :: "string \<Rightarrow> token_stream \<Rightarrow> token_stream \<times> unit result" where
  "required_token expected = required_bind (\<lambda>v. if v = expected then Inr () else Inl (TokenError expected_token_missed))"

definition optional_token :: "token_stream \<Rightarrow> token_stream \<times> string option" where
  "optional_token s =
     (if tk_pos s = length (tk_data s) then (s, None)
      else (s\<lparr>tk_pos := tk_pos s + 1\<rparr>, Some (tk_data s ! tk_pos s)))"

definition tokens_left :: "token_stream \<Rightarrow> string list" where
  "tokens_left s = drop (tk_pos s) (tk_data s)"

definition stream_ok :: "token_stream \<Rightarrow> bool" where
  "stream_ok s \<longleftrightarrow> tk_pos s \<le> length (tk_data s)"

text \<open>Under the invariant a stream is the list of its tokens that are left.\<close>

definition stream_of :: "string list \<Rightarrow> token_stream \<Rightarrow> bool" where
  "stream_of ts s \<longleftrightarrow> stream_ok s \<and> tokens_left s = ts"

lemma stream_of_new: "stream_of ts (token_stream_new ts)"
  by (simp add: stream_of_def token_stream_new_def stream_ok_def tokens_left_def)

lemma required_Nil: "stream_of [] s \<Longrightarrow> required s = (s, Inl (TokenError no_required_token))"
  by (simp add: stream_of_def stream_ok_def tokens_left_def required_def)

lemma stream_of_Cons:
  assumes "stream_of (t # ts) s"
  shows "tk_pos s < length (tk_data s) \<and> tk_data s ! tk_pos s = t \<and> stream_of ts (s\<lparr>tk_pos := tk_pos s + 1\<rparr>)"
proof -
  have l: "tk_pos s < length (tk_data s)"
    using assms by (cases "tk_pos s < length (tk_data s)") (simp_all add: stream_of_def tokens_left_def)
  then have "tk_data s ! tk_pos s # drop (Suc (tk_pos s)) (tk_data s) = t # ts"
    using assms Cons_nth_drop_Suc [OF l] by (simp add: stream_of_def tokens_left_def)
  then show ?thesis using l by (simp add: stream_of_def stream_ok_def tokens_left_def)
qed

lemma required_Cons:
  assumes "stream_of (t # ts) s"
  shows "required s = (s\<lparr>tk_pos := tk_pos s + 1\<rparr>, Inr t)"
  using stream_of_Cons [OF assms] by (simp add: required_def)

lemma required_bind_Cons:
  assumes "stream_of (t # ts) s"
  shows "required_bind f s = (s\<lparr>tk_pos := tk_pos s + 1\<rparr>, f t)"
  using required_Cons [OF assms] by (simp add: required_bind_def)

lemma required_bind_Nil: "stream_of [] s \<Longrightarrow> required_bind f s = (s, Inl (TokenError no_required_token))"
  by (simp add: required_bind_def required_Nil)

lemma optional_Cons:
  assumes "stream_of (t # ts) s"
  shows "optional_token s = (s\<lparr>tk_pos := tk_pos s + 1\<rparr>, Some t)"
  using stream_of_Cons [OF assms] by (simp add: optional_token_def)

lemma optional_Nil: "stream_of [] s \<Longrightarrow> optional_token s = (s, None)"
  by (simp add: stream_of_def stream_ok_def tokens_left_def optional_token_def)

text \<open>
  The contract of a source of tokens towards the parsers that read from it: reading takes the first
  token that is left, a required one that is missing is an error and leaves the source as it is.
\<close>

locale token_source =
  fixes req :: "'s \<Rightarrow> 's \<times> string result"
    and opt :: "'s \<Rightarrow> 's \<times> string option"
    and left :: "string list \<Rightarrow> 's \<Rightarrow> bool"
  assumes req_Nil: "left [] s \<Longrightarrow> req s = (s, Inl (TokenError no_required_token))"
    and req_Cons: "left (t # ts) s \<Longrightarrow> \<exists>s'. req s = (s', Inr t) \<and> left ts s'"
    and opt_Nil: "left [] s \<Longrightarrow> opt s = (s, None)"
    and opt_Cons: "left (t # ts) s \<Longrightarrow> \<exists>s'. opt s = (s', Some t) \<and> left ts s'"
begin

lemma left_next: "left ts s \<Longrightarrow> left (drop 1 ts) (fst (req s))"
  using req_Nil req_Cons by (cases ts) fastforce+

lemma left_after: "left ts s \<Longrightarrow> left (drop n ts) (((\<lambda>s. fst (req s)) ^^ n) s)"
proof (induction n)
  case (Suc n)
  then show ?case using left_next [OF Suc.IH] by simp
qed simp

lemma req_after:
  assumes "left ts s"
  shows "snd (req (((\<lambda>s. fst (req s)) ^^ n) s)) =
    (if n < length ts then Inr (ts ! n) else Inl (TokenError no_required_token))"
proof (cases "n < length ts")
  case True
  then obtain s' where "req (((\<lambda>s. fst (req s)) ^^ n) s) = (s', Inr (ts ! n))"
    using left_after [OF assms, of n] req_Cons [of "ts ! n" "drop (Suc n) ts"] by (auto simp: Cons_nth_drop_Suc)
  then show ?thesis using True by simp
next
  case False
  then show ?thesis using left_after [OF assms, of n] req_Nil by simp
qed

end

interpretation vec: token_source required optional_token stream_of
  by unfold_locales (use required_Nil required_Cons optional_Nil optional_Cons stream_of_Cons in blast)+

section \<open>Decimal numbers\<close>

text \<open>The usual decimal notation, as the specification of what the parsers of numbers read.\<close>

definition digit_value :: "char \<Rightarrow> nat" where
  "digit_value c = of_char c - 48"

definition dec_value :: "string \<Rightarrow> nat" where
  "dec_value s = foldl (\<lambda>n c. 10 * n + digit_value c) 0 s"

fun dec_string :: "nat \<Rightarrow> string" where
  "dec_string n = (if n < 10 then [char_of (48 + n)] else dec_string (n div 10) @ [char_of (48 + n mod 10)])"

declare dec_string.simps [simp del]

lemma digit_char: "d < 10 \<Longrightarrow> is_DIGIT (char_of (48 + d)) \<and> digit_value (char_of (48 + d)) = d"
  by (simp add: is_DIGIT_def digit_value_def)

lemma dec_value_snoc: "dec_value (s @ [c]) = 10 * dec_value s + digit_value c"
  by (simp add: dec_value_def)

lemma dec_value_string: "dec_value (dec_string n) = n \<and> list_all is_DIGIT (dec_string n) \<and> dec_string n \<noteq> []"
proof (induction n rule: dec_string.induct)
  case (1 n)
  show ?case
  proof (cases "n < 10")
    case True
    then have "dec_string n = [char_of (48 + n)]" by (simp add: dec_string.simps)
    then show ?thesis using digit_char [OF True] by (simp add: dec_value_def)
  next
    case False
    then have "dec_string n = dec_string (n div 10) @ [char_of (48 + n mod 10)]" by (simp add: dec_string.simps [of n])
    then show ?thesis using 1 False digit_char [of "n mod 10"] by (simp add: dec_value_snoc)
  qed
qed

lemma length_dec_string: "0 < k \<Longrightarrow> n < 10 ^ k \<Longrightarrow> length (dec_string n) \<le> k"
proof (induction n arbitrary: k rule: dec_string.induct)
  case (1 n)
  show ?case
  proof (cases "n < 10")
    case True
    then show ?thesis using 1(2) by (simp add: dec_string.simps)
  next
    case False
    then obtain j where j: "k = Suc j" "0 < j" using 1(2,3) by (cases k; cases "k - 1") auto
    then have "n div 10 < 10 ^ j" using 1(3) by (simp add: div_less_iff_less_mult mult.commute)
    then show ?thesis using 1(1) [OF False j(2)] False j by (simp add: dec_string.simps [of n])
  qed
qed

lemma digit_value_less: "is_DIGIT c \<Longrightarrow> digit_value c < 10"
  unfolding is_DIGIT_def digit_value_def by linarith

lemma dec_value_less: "list_all is_DIGIT s \<Longrightarrow> dec_value s < 10 ^ length s"
proof (induction s rule: rev_induct)
  case Nil
  then show ?case by (simp add: dec_value_def)
next
  case (snoc c s)
  then show ?case using digit_value_less [of c] by (simp add: dec_value_snoc)
qed

section \<open>Properties\<close>

text \<open>
  Splitting a text at a separator and joining the parts gives the text back, but for one
  separator at the end; no part contains the separator; and splitting a join of such parts with a
  non-empty last one gives the parts back.
\<close>

theorem split_all_join_roundtrip:
  "join (split_all s sep) [sep] @ (if s \<noteq> [] \<and> last s = sep then [sep] else []) = s
   \<and> list_all (\<lambda>w. sep \<notin> set w) (split_all s sep)
   \<and> (list_all (\<lambda>w. sep \<notin> set w) ws \<and> ws \<noteq> [] \<and> last ws \<noteq> [] \<longrightarrow> split_all (join ws [sep]) sep = ws)"
  using join_split_all [of s sep, symmetric] split_all_tokens split_all_join by blast

theorem split_all_join_roundtrip_witness:
  "join (split_all ''a  b '' CHR '' '') '' '' @ '' '' = ''a  b ''
   \<and> split_all (join [''x'', '''', ''y''] '' '') CHR '' '' = [''x'', '''', ''y'']"
  using split_all_join_roundtrip [of "''a  b ''" "CHR '' ''" "[''x'', '''', ''y'']"] by simp

end
