(* ===== verification/Net_Names.thy ===== *)
theory Net_Names
  imports Net Text_Streams
begin

text \<open>
  Names and numbers of the network in text form: domain names (\<open>net/net_fqdn.cpp\<close>), ports
  (\<open>net/net_port.cpp\<close>) and IP addresses (\<open>net/ip/ip_address.cpp\<close>).  The conversions of the operating
  system, \<open>inet_pton\<close> and \<open>inet_ntop\<close>, are parameters.  A \<open>ParseSuccess\<close> is the pair of its value and
  the rest of the text.
\<close>

section \<open>Domain names\<close>

definition is_letter :: "char \<Rightarrow> bool" where
  "is_letter c \<longleftrightarrow> ((of_char CHR ''A'' :: nat) \<le> of_char c \<and> (of_char c :: nat) \<le> of_char CHR ''Z'')
     \<or> ((of_char CHR ''a'' :: nat) \<le> of_char c \<and> (of_char c :: nat) \<le> of_char CHR ''z'') \<or> c = CHR ''_''"

definition is_digit :: "char \<Rightarrow> bool" where
  "is_digit c \<longleftrightarrow> (of_char CHR ''0'' :: nat) \<le> of_char c \<and> (of_char c :: nat) \<le> of_char CHR ''9''"

function label_loop :: "string \<Rightarrow> nat \<Rightarrow> nat \<Rightarrow> nat" where
  "label_loop v pos last_let_dig =
     (if pos < length v
      then let c = v ! pos
           in if is_letter c \<or> is_digit c then label_loop v (pos + 1) pos
              else if c \<noteq> CHR ''-'' then last_let_dig
              else label_loop v (pos + 1) last_let_dig
      else last_let_dig)"
  by pat_completeness auto
termination
  by (relation "measure (\<lambda>(v, pos, _). length v - pos)") auto

declare label_loop.simps [simp del]

definition parse_label :: "string \<Rightarrow> (string \<times> string) result" where
  "parse_label v =
     (if v = [] \<or> (\<not> is_letter (v ! 0) \<and> \<not> is_digit (v ! 0))
      then Inl (NetError fqdn_invalid_label_expect_letter)
      else let last_let_dig = label_loop v 1 0;
               label_size = last_let_dig + 1
           in Inr (take label_size v, drop label_size v))"

text \<open>A label is what RFC 1035 2.3.1 says, with an underscore as a letter and a digit allowed in front.\<close>

definition let_dig :: "char \<Rightarrow> bool" where
  "let_dig c \<longleftrightarrow> is_letter c \<or> is_digit c"

definition let_dig_hyp :: "char \<Rightarrow> bool" where
  "let_dig_hyp c \<longleftrightarrow> let_dig c \<or> c = CHR ''-''"

definition valid_label :: "string \<Rightarrow> bool" where
  "valid_label l \<longleftrightarrow> l \<noteq> [] \<and> let_dig (hd l) \<and> let_dig (last l) \<and> list_all let_dig_hyp l"

text \<open>The position of the last letter or digit of the run of letters, digits and hyphens.\<close>

definition is_label_end :: "string \<Rightarrow> nat \<Rightarrow> bool" where
  "is_label_end v n \<longleftrightarrow> n < length v \<and> let_dig (v ! n) \<and> (\<forall>i \<le> n. let_dig_hyp (v ! i)) \<and>
     (\<exists>e > n. e \<le> length v \<and> (e < length v \<longrightarrow> \<not> let_dig_hyp (v ! e)) \<and> (\<forall>i. n < i \<and> i < e \<longrightarrow> v ! i = CHR ''-''))"

lemma is_label_endI:
  assumes "m < pos" "pos \<le> length v" "let_dig (v ! m)" "\<forall>i. m < i \<and> i < pos \<longrightarrow> v ! i = CHR ''-''"
    "\<forall>i < pos. let_dig_hyp (v ! i)" "pos < length v \<longrightarrow> \<not> let_dig_hyp (v ! pos)"
  shows "is_label_end v m"
  unfolding is_label_end_def using assms by (intro conjI exI [of _ pos]) auto

lemma label_loop_result:
  assumes "m < pos" "pos \<le> length v" "let_dig (v ! m)" "\<forall>i. m < i \<and> i < pos \<longrightarrow> v ! i = CHR ''-''"
    "\<forall>i < pos. let_dig_hyp (v ! i)"
  shows "is_label_end v (label_loop v pos m)"
  using assms
proof (induction v pos m rule: label_loop.induct)
  case (1 v pos m)
  show ?case
  proof (cases "pos < length v")
    case False
    then have "label_loop v pos m = m" by (simp add: label_loop.simps)
    then show ?thesis using is_label_endI [OF 1(3-7)] False by simp
  next
    case pos: True
    show ?thesis
    proof (cases "let_dig (v ! pos)")
      case True
      then have step: "label_loop v pos m = label_loop v (pos + 1) pos"
        using pos by (simp add: label_loop.simps [of v pos] let_dig_def)
      have "\<forall>i < pos + 1. let_dig_hyp (v ! i)" using 1(7) True by (auto simp: let_dig_hyp_def less_Suc_eq)
      then show ?thesis unfolding step
        by (intro 1(1) [OF pos refl]) (use True pos in \<open>auto simp: let_dig_def\<close>)
    next
      case ld: False
      show ?thesis
      proof (cases "v ! pos = CHR ''-''")
        case True
        then have step: "label_loop v pos m = label_loop v (pos + 1) m"
          using pos ld by (simp add: label_loop.simps [of v pos] let_dig_def)
        have "\<forall>i < pos + 1. let_dig_hyp (v ! i)" using 1(7) True by (auto simp: let_dig_hyp_def less_Suc_eq)
        moreover have "\<forall>i. m < i \<and> i < pos + 1 \<longrightarrow> v ! i = CHR ''-''" using 1(6) True by (auto simp: less_Suc_eq)
        ultimately show ?thesis unfolding step
          by (intro 1(2) [OF pos refl]) (use True ld pos 1(3,5) in \<open>auto simp: let_dig_def\<close>)
      next
        case False
        then have "label_loop v pos m = m" using ld pos by (simp add: label_loop.simps [of v pos] let_dig_def)
        then show ?thesis using is_label_endI [OF 1(3-7)] False ld by (simp add: let_dig_hyp_def)
      qed
    qed
  qed
qed

lemma parse_label_fails: "parse_label v = Inl e \<longleftrightarrow> (v = [] \<or> \<not> let_dig (hd v)) \<and> e = NetError fqdn_invalid_label_expect_letter"
  by (auto simp: parse_label_def let_dig_def hd_conv_nth Let_def)

lemma takeWhile_replicate_append: "P c \<Longrightarrow> takeWhile P (replicate k c @ ws) = replicate k c @ takeWhile P ws"
  by (induction k) simp_all

lemma parse_label_takes:
  assumes "parse_label v = Inr (l, r)"
  shows "v = l @ r" "valid_label l"
    "\<exists>k. takeWhile let_dig_hyp r = replicate k CHR ''-''"
proof -
  let ?n = "label_loop v 1 0"
  have v: "v \<noteq> []" "let_dig (v ! 0)" and lr: "l = take (?n + 1) v" "r = drop (?n + 1) v"
    using assms by (auto simp: parse_label_def let_dig_def Let_def split: if_splits)
  have "is_label_end v ?n" using v by (intro label_loop_result) (auto simp: let_dig_hyp_def Suc_le_eq)
  then have n: "?n < length v" "let_dig (v ! ?n)" "\<forall>i \<le> ?n. let_dig_hyp (v ! i)"
    and ex: "\<exists>e > ?n. e \<le> length v \<and> (e < length v \<longrightarrow> \<not> let_dig_hyp (v ! e)) \<and> (\<forall>i. ?n < i \<and> i < e \<longrightarrow> v ! i = CHR ''-'')"
    by (auto simp: is_label_end_def)
  show "v = l @ r" by (simp add: lr)
  have "last l = v ! ?n" using n(1) v by (simp add: lr(1) take_Suc_conv_app_nth)
  moreover have "hd l = v ! 0" using v by (simp add: lr(1) hd_conv_nth)
  moreover have "list_all let_dig_hyp l" using n(1,3) by (auto simp: lr(1) list_all_length)
  ultimately show "valid_label l" using n v by (simp add: valid_label_def lr(1))
  obtain e where e: "?n < e" "e \<le> length v" "e < length v \<longrightarrow> \<not> let_dig_hyp (v ! e)" "\<forall>i. ?n < i \<and> i < e \<longrightarrow> v ! i = CHR ''-''"
    using ex by blast
  have "r = take (e - (?n + 1)) r @ drop (e - (?n + 1)) r" by simp
  moreover have "take (e - (?n + 1)) r = replicate (e - (?n + 1)) CHR ''-''"
    using e by (intro nth_equalityI) (auto simp: lr(2))
  moreover have "drop (e - (?n + 1)) r = drop e v" using e(1) by (simp add: lr(2))
  moreover have "takeWhile let_dig_hyp (replicate (e - (?n + 1)) CHR ''-'' @ drop e v) = replicate (e - (?n + 1)) CHR ''-''"
  proof -
    have "takeWhile let_dig_hyp (drop e v) = []"
      using e(3) Cons_nth_drop_Suc [of e v] by (cases "e < length v") (auto simp flip: Cons_nth_drop_Suc)
    then show ?thesis by (simp add: takeWhile_replicate_append let_dig_hyp_def)
  qed
  ultimately show "\<exists>k. takeWhile let_dig_hyp r = replicate k CHR ''-''" by metis
qed

lemma parse_label_exact:
  assumes "valid_label m" "q = [] \<or> hd q = CHR ''.''"
  shows "parse_label (m @ q) = Inr (m, q)"
proof (cases "parse_label (m @ q)")
  case (Inl e)
  then show ?thesis using assms(1) by (simp add: parse_label_fails valid_label_def)
next
  case (Inr p)
  obtain l r where p: "p = (l, r)" by force
  note facts = parse_label_takes [OF Inr [unfolded p]]
  have dot: "\<not> let_dig_hyp CHR ''.''" "\<not> let_dig CHR ''-''"
    by (simp_all add: let_dig_hyp_def let_dig_def is_letter_def is_digit_def)
  have q: "takeWhile let_dig_hyp q = []" using assms(2) dot by (cases q) auto
  consider us where "m = l @ us" "us @ q = r" | us where "m @ us = l" "q = us @ r"
    using facts(1) by (auto simp: append_eq_append_conv2)
  then show ?thesis
  proof cases
    case 1
    have "list_all let_dig_hyp us" using assms(1) 1(1) by (simp add: valid_label_def)
    then have "takeWhile let_dig_hyp r = us"
      using q 1(2) takeWhile_append2 [of us let_dig_hyp q] by (auto simp: list_all_iff)
    then obtain k where "us = replicate k CHR ''-''" using facts(3) by auto
    then have "us = []" using assms(1) 1(1) dot(2) by (cases k) (auto simp: valid_label_def last_append last_replicate split: if_splits)
    then show ?thesis using 1 Inr p by simp
  next
    case 2
    have "us = []"
    proof (rule ccontr)
      assume "us \<noteq> []"
      then have "hd us = CHR ''.''" "hd us \<in> set l" using assms(2) 2 hd_in_set [of us] by auto
      then show False using facts(2) dot(1) by (auto simp: valid_label_def list_all_iff)
    qed
    then show ?thesis using 2 Inr p by simp
  qed
qed

lemma parse_label_shorter: "parse_label v = Inr (l, r) \<Longrightarrow> length v = length l + length r \<and> l \<noteq> []"
  using parse_label_takes(1,2) [of v l r] by (auto simp: valid_label_def)

function subdomain_loop :: "string \<Rightarrow> nat \<Rightarrow> string \<Rightarrow> (string \<times> string) result" where
  "subdomain_loop v sz rest =
     (case parse_label rest of
        Inl e \<Rightarrow> if sz = 0 then Inl e else Inr (take sz v, drop sz v)
      | Inr (l, r) \<Rightarrow>
          let sz = sz + length l
          in if r = [] then Inr (take sz v, drop sz v)
             else if r ! 0 \<noteq> CHR ''.'' then Inr (take sz v, drop sz v)
             else subdomain_loop v (sz + 1) (drop 1 r))"
  by pat_completeness auto
termination
  by (relation "measure (\<lambda>(v, sz, rest). length rest)")
     (auto dest!: parse_label_shorter simp: less_diff_conv2 Suc_le_eq)

declare subdomain_loop.simps [simp del]

definition parse_subdomain :: "string \<Rightarrow> (string \<times> string) result" where
  "parse_subdomain v = subdomain_loop v 0 v"

datatype fqdn = Fqdn string

fun fqdn_to_string :: "fqdn \<Rightarrow> string" where
  "fqdn_to_string (Fqdn v) = v"

definition fqdn_parse :: "string \<Rightarrow> (fqdn \<times> string) result" where
  "fqdn_parse v = rmap (\<lambda>(value, rest). (Fqdn value, rest)) (parse_subdomain v)"

definition fqdn_from_string :: "string \<Rightarrow> fqdn result" where
  "fqdn_from_string v =
     rbind (fqdn_parse v) (\<lambda>(value, rest). if rest = [] then Inr value else Inl (NetError fqdn_not_fully_parsed))"

text \<open>The texts of domain names: labels with dots between them, with or without a dot at the end.\<close>

definition fqdn_text :: "string \<Rightarrow> bool" where
  "fqdn_text v \<longleftrightarrow> (\<exists>ls. ls \<noteq> [] \<and> list_all valid_label ls \<and> (v = join ls ''.'' \<or> v = join ls ''.'' @ ''.''))"

lemma fqdn_text_cases:
  assumes "fqdn_text v"
  obtains m q where "v = m @ q" "valid_label m" "q = [] \<or> (\<exists>w. q = CHR ''.'' # w \<and> (w = [] \<or> fqdn_text w))"
proof -
  obtain ls where ls: "ls \<noteq> []" "list_all valid_label ls" "v = join ls ''.'' \<or> v = join ls ''.'' @ ''.''"
    using assms by (auto simp: fqdn_text_def)
  then obtain m ms where ms: "ls = m # ms" by (cases ls) auto
  show thesis
  proof (cases "ms = []")
    case True
    then show ?thesis using that [of m "drop (length m) v"] ls ms by auto
  next
    case False
    then have "fqdn_text (drop (length m + 1) v)" using ls ms by (auto simp: fqdn_text_def join_Cons)
    then show ?thesis using that [of m "drop (length m) v"] ls ms False by (auto simp: join_Cons)
  qed
qed

lemma fqdn_text_label: "valid_label m \<Longrightarrow> fqdn_text m \<and> fqdn_text (m @ ''.'')"
  by (auto simp: fqdn_text_def intro!: exI [of _ "[m]"])

lemma fqdn_text_Cons:
  assumes "valid_label m" "fqdn_text w"
  shows "fqdn_text (m @ CHR ''.'' # w)"
proof -
  obtain ls where "ls \<noteq> []" "list_all valid_label ls" "w = join ls ''.'' \<or> w = join ls ''.'' @ ''.''"
    using assms(2) by (auto simp: fqdn_text_def)
  then show ?thesis using assms(1) by (auto simp: fqdn_text_def join_Cons intro!: exI [of _ "m # ls"])
qed

lemma fqdn_text_parse_label:
  assumes "parse_label v = Inr (l, r)"
  shows "fqdn_text v \<longleftrightarrow> r = [] \<or> (\<exists>w. r = CHR ''.'' # w \<and> (w = [] \<or> fqdn_text w))"
proof
  assume "fqdn_text v"
  then obtain m q where mq: "v = m @ q" "valid_label m" "q = [] \<or> (\<exists>w. q = CHR ''.'' # w \<and> (w = [] \<or> fqdn_text w))"
    by (rule fqdn_text_cases)
  then have "parse_label v = Inr (m, q)" using parse_label_exact [of m q] by auto
  then show "r = [] \<or> (\<exists>w. r = CHR ''.'' # w \<and> (w = [] \<or> fqdn_text w))" using assms mq(3) by simp
next
  assume "r = [] \<or> (\<exists>w. r = CHR ''.'' # w \<and> (w = [] \<or> fqdn_text w))"
  then show "fqdn_text v" using parse_label_takes(1,2) [OF assms] fqdn_text_label [of l] fqdn_text_Cons [of l] by auto
qed

lemma not_fqdn_text_if_no_label: "parse_label v = Inl e \<Longrightarrow> \<not> fqdn_text v"
  using parse_label_exact by (fastforce elim: fqdn_text_cases)

text \<open>The loop takes all of the text exactly if what is left of it is a domain name, or if only a dot was taken last.\<close>

lemma subdomain_loop_complete:
  assumes "sz \<le> length v" "rest = drop sz v"
  shows "(\<exists>value. subdomain_loop v sz rest = Inr (value, [])) \<longleftrightarrow> fqdn_text rest \<or> (sz \<noteq> 0 \<and> rest = [])"
  using assms
proof (induction v sz rest rule: subdomain_loop.induct)
  case (1 v sz rest)
  show ?case
  proof (cases "parse_label rest")
    case (Inl e)
    then show ?thesis using not_fqdn_text_if_no_label [OF Inl] 1(2,3) by (simp add: subdomain_loop.simps [of v sz])
  next
    case (Inr p)
    obtain l r where p: "p = (l, r)" by force
    note pl = Inr [unfolded p]
    have rest: "rest = l @ r" "l \<noteq> []" using parse_label_takes(1,2) [OF pl] by (auto simp: valid_label_def)
    have "drop (length l) rest = r" "length rest = length l + length r" by (simp_all add: rest(1))
    then have r: "r = drop (sz + length l) v" "rest \<noteq> []" "sz + length l \<le> length v"
      using 1(2) rest(2) unfolding 1(3) by (auto simp: add.commute)
    show ?thesis
    proof (cases "r \<noteq> [] \<and> r ! 0 = CHR ''.''")
      case True
      then obtain w where w: "r = CHR ''.'' # w" by (cases r) auto
      have "drop 1 r = drop (sz + length l + 1) v" by (simp add: r(1))
      moreover have "sz + length l + 1 \<le> length v" using r(1) True by (cases "sz + length l = length v") (use r(3) in auto)
      ultimately
      have "(\<exists>value. subdomain_loop v (sz + length l + 1) (drop 1 r) = Inr (value, [])) \<longleftrightarrow> fqdn_text w \<or> w = []"
        using 1(1) [OF Inr p [symmetric] refl] True w by simp
      then show ?thesis using True pl r(2) w fqdn_text_parse_label [OF pl] by (auto simp: subdomain_loop.simps [of v sz rest])
    next
      case False
      then have "subdomain_loop v sz rest = Inr (take (sz + length l) v, r)"
        using pl r(1) by (auto simp: subdomain_loop.simps [of v sz rest] Let_def)
      then show ?thesis using False r(2) fqdn_text_parse_label [OF pl] by auto
    qed
  qed
qed

lemma subdomain_loop_splits: "subdomain_loop v sz rest = Inr (value, r) \<Longrightarrow> v = value @ r"
proof (induction v sz rest rule: subdomain_loop.induct)
  case (1 v sz rest)
  then show ?case
    by (auto simp: subdomain_loop.simps [of v sz rest] Let_def split: sum.splits prod.splits if_splits)
qed

lemma subdomain_loop_fails: "subdomain_loop v sz rest = Inl e \<Longrightarrow> sz = 0 \<and> parse_label rest = Inl e"
proof (induction v sz rest rule: subdomain_loop.induct)
  case (1 v sz rest)
  show ?case
  proof (cases "parse_label rest")
    case (Inl e')
    then show ?thesis using 1(2) by (simp add: subdomain_loop.simps [of v sz rest] split: if_splits)
  next
    case (Inr p)
    obtain l r where p: "p = (l, r)" by force
    then have "r \<noteq> [] \<and> r ! 0 = CHR ''.'' \<and> subdomain_loop v (sz + length l + 1) (drop 1 r) = Inl e"
      using 1(2) Inr by (simp add: subdomain_loop.simps [of v sz rest] Let_def split: if_splits)
    then show ?thesis using 1(1) [OF Inr p [symmetric] refl] by simp
  qed
qed

lemma fqdn_from_string_iff: "fqdn_from_string v = Inr f \<longleftrightarrow> f = Fqdn v \<and> fqdn_text v"
proof -
  have "(\<exists>value. parse_subdomain v = Inr (value, [])) \<longleftrightarrow> fqdn_text v"
    using subdomain_loop_complete [of 0 v v] by (simp add: parse_subdomain_def)
  moreover have "parse_subdomain v = Inr (w, []) \<Longrightarrow> w = v" for w
    using subdomain_loop_splits [of v 0 v w "[]"] by (simp add: parse_subdomain_def)
  ultimately show ?thesis
    by (auto simp: fqdn_from_string_def fqdn_parse_def split: if_splits)
qed

section \<open>Ports\<close>

text \<open>The loop over the digits, at the width of its accumulator.\<close>

fun digits_loop :: "'a::len word \<Rightarrow> string \<Rightarrow> 'a word option" where
  "digits_loop result [] = Some result"
| "digits_loop result (c # cs) =
     (if \<not> is_DIGIT c then None else digits_loop (10 * result + of_char c - of_char CHR ''0'') cs)"

definition port_from_string :: "string \<Rightarrow> port result" where
  "port_from_string v =
     (if v = [] \<or> length v > 5 then Inl (NetError invalid_port_value)
      else case digits_loop (0 :: u32) v of
             None \<Rightarrow> Inl (NetError invalid_port_value)
           | Some r \<Rightarrow> if r > 0xFFFF then Inl (NetError invalid_port_value) else Inr (ucast r))"

lemma of_char_digit: "is_DIGIT c \<Longrightarrow> (of_char c :: 'a::len word) = of_nat (digit_value c) + of_char CHR ''0''"
proof -
  assume "is_DIGIT c"
  then have "(of_char c :: nat) = digit_value c + 48" by (simp add: is_DIGIT_def digit_value_def)
  then have "(of_nat (of_char c) :: 'a word) = of_nat (digit_value c + 48)" by (simp only:)
  then show ?thesis by (simp add: of_nat_of_char)
qed

lemma digits_loop_eq:
  "digits_loop (of_nat n :: 'a::len word) s =
     (if list_all is_DIGIT s then Some (of_nat (foldl (\<lambda>n c. 10 * n + digit_value c) n s)) else None)"
proof (induction s arbitrary: n)
  case (Cons c s)
  show ?case
  proof (cases "is_DIGIT c")
    case True
    have "10 * of_nat n + of_char c - of_char CHR ''0'' = (of_nat (10 * n + digit_value c) :: 'a word)"
      by (simp add: of_char_digit [OF True])
    then show ?thesis using True Cons [of "10 * n + digit_value c"] by (simp del: of_nat_add of_nat_mult of_char_Char)
  qed simp
qed simp

lemma digits_loop_dec:
  "digits_loop (0 :: 'a::len word) s = (if list_all is_DIGIT s then Some (of_nat (dec_value s)) else None)"
  using digits_loop_eq [of 0 s, where 'a = 'a] by (simp add: dec_value_def)

lemma dec_value_bound: "list_all is_DIGIT s \<Longrightarrow> length s \<le> k \<Longrightarrow> dec_value s < 10 ^ k"
  using dec_value_less [of s] power_increasing [of "length s" k "10 :: nat"] by (metis less_le_trans one_le_numeral)

lemma port_from_string_eq:
  "port_from_string v =
     (if v \<noteq> [] \<and> length v \<le> 5 \<and> list_all is_DIGIT v \<and> dec_value v \<le> 65535
      then Inr (of_nat (dec_value v)) else Inl (NetError invalid_port_value))"
proof (cases "v \<noteq> [] \<and> length v \<le> 5 \<and> list_all is_DIGIT v")
  case True
  then have "dec_value v < 2 ^ 32" using dec_value_bound [of v 5] by simp
  then have "unat (of_nat (dec_value v) :: u32) = dec_value v" by (simp add: unat_of_nat_small)
  moreover from this have "ucast (of_nat (dec_value v) :: u32) = (of_nat (dec_value v) :: u16)"
    by (metis of_nat_unat)
  ultimately show ?thesis using True
    by (auto simp: port_from_string_def digits_loop_dec word_less_nat_alt not_le)
qed (auto simp: port_from_string_def digits_loop_dec)

section \<open>IP addresses\<close>

datatype family = AF_INET | AF_INET6

datatype pton_result = PtonOk bytes | PtonInvalid | PtonError int

text \<open>
  The operating system: \<open>inet_pton\<close> with its return code (positive, zero, negative with \<open>errno\<close>),
  \<open>inet_ntop\<close> with the size of the buffer, a null pointer being \<open>errno\<close> on the left, and the number of
  \<open>ENOSPC\<close>.
\<close>

record posix =
  inet_pton :: "family \<Rightarrow> string \<Rightarrow> pton_result"
  inet_ntop :: "family \<Rightarrow> bytes \<Rightarrow> nat \<Rightarrow> int + string"
  enospc :: int

definition c_str :: "string \<Rightarrow> string" where
  "c_str s = takeWhile (\<lambda>c. c \<noteq> CHR 0x00) s"

definition inet_pton_adapter :: "posix \<Rightarrow> family \<Rightarrow> nat \<Rightarrow> string \<Rightarrow> bytes result" where
  "inet_pton_adapter px fam sz v =
     (case inet_pton px fam (c_str v) of
        PtonOk ip_addr \<Rightarrow> addr_from_view sz ip_addr
      | PtonInvalid \<Rightarrow> Inl (NetError ip_address_parse_error)
      | PtonError errno \<Rightarrow> Inl (SystemError errno))"

definition from_string_v4 :: "posix \<Rightarrow> string \<Rightarrow> bytes result" where
  "from_string_v4 px v = inet_pton_adapter px AF_INET v4_size v"

definition from_string_v6 :: "posix \<Rightarrow> string \<Rightarrow> bytes result" where
  "from_string_v6 px v = inet_pton_adapter px AF_INET6 v6_size v"

definition ip_from_string :: "posix \<Rightarrow> string \<Rightarrow> address result" where
  "ip_from_string px v =
     (case rmap AddressV4 (from_string_v4 px v) of
        Inr a \<Rightarrow> Inr a
      | Inl _ \<Rightarrow> rmap AddressV6 (from_string_v6 px v))"

partial_function (option) ntop_loop :: "posix \<Rightarrow> family \<Rightarrow> bytes \<Rightarrow> nat \<Rightarrow> string result option" where
  "ntop_loop px fam d n =
     (case inet_ntop px fam d n of
        Inr result \<Rightarrow> Some (Inr result)
      | Inl errno \<Rightarrow>
          if errno \<noteq> enospc px then Some (Inl (SystemError errno)) else ntop_loop px fam d (n * 2))"

abbreviation INET6_ADDRSTRLEN :: nat where "INET6_ADDRSTRLEN \<equiv> 46"

fun address_family :: "address \<Rightarrow> family" where
  "address_family (AddressV4 _) = AF_INET"
| "address_family (AddressV6 _) = AF_INET6"

definition ip_to_string :: "posix \<Rightarrow> address \<Rightarrow> string result option" where
  "ip_to_string px a = ntop_loop px (address_family a) (address_view a) INET6_ADDRSTRLEN"

text \<open>
  What POSIX says of the pair of conversions at one address: the text is written exactly if it fits in
  the buffer with its terminating NUL, it has no NUL, and it is read back as the same address and is no
  text of the other family.
\<close>

definition ip_text :: "posix \<Rightarrow> address \<Rightarrow> string \<Rightarrow> bool" where
  "ip_text px a t \<longleftrightarrow> CHR 0x00 \<notin> set t \<and>
     (\<forall>n. inet_ntop px (address_family a) (address_view a) n = (if length t < n then Inr t else Inl (enospc px))) \<and>
     (\<forall>fam. inet_pton px fam t = (if fam = address_family a then PtonOk (address_view a) else PtonInvalid))"

lemma ntop_loop_terminates:
  assumes "ip_text px a t" "0 < n"
  shows "ntop_loop px (address_family a) (address_view a) n = Some (Inr t)"
  using assms(2)
proof (induction "length t - n" arbitrary: n rule: less_induct)
  case less
  have ntop: "inet_ntop px (address_family a) (address_view a) n = (if length t < n then Inr t else Inl (enospc px))"
    using assms(1) by (simp add: ip_text_def)
  show ?case
  proof (cases "length t < n")
    case True
    then show ?thesis by (simp add: ntop_loop.simps [of px _ _ n] ntop)
  next
    case False
    have IH: "n < length t \<Longrightarrow> ntop_loop px (address_family a) (address_view a) (n * 2) = Some (Inr t)"
      using less by simp
    moreover have "ntop_loop px (address_family a) (address_view a) (n * 2) = Some (Inr t)" if "n = length t"
      using assms(1) less.prems unfolding that by (subst ntop_loop.simps) (simp add: ip_text_def)
    ultimately have "ntop_loop px (address_family a) (address_view a) (n * 2) = Some (Inr t)"
      using False by (cases "n = length t") auto
    then show ?thesis using False by (simp add: ntop_loop.simps [of px _ _ n] ntop)
  qed
qed

lemma ip_from_text:
  assumes "ip_text px a t" "address_wf a"
  shows "ip_from_string px t = Inr a"
proof -
  have "c_str t = t" using assms(1) by (auto simp: c_str_def ip_text_def takeWhile_eq_all_conv)
  then show ?thesis using assms
    by (cases a) (simp_all add: ip_from_string_def from_string_v4_def from_string_v6_def inet_pton_adapter_def ip_text_def
        addr_from_view_def)
qed

lemma ip_from_string_wf: "ip_from_string px v = Inr a \<Longrightarrow> address_wf a"
  by (auto simp: ip_from_string_def from_string_v4_def from_string_v6_def inet_pton_adapter_def
      split: sum.splits pton_result.splits)

section \<open>Properties\<close>

text \<open>
  C36.  \<open>Fqdn::from_string\<close> accepts exactly the texts that are labels joined by dots, with at most one
  dot behind the last, and keeps the text unchanged; a label starts and ends with a letter, digit or
  underscore and has only these and hyphens.
\<close>

theorem fqdn_from_string_grammar:
  "fqdn_from_string v =
     (if fqdn_text v then Inr (Fqdn v)
      else Inl (NetError (if v \<noteq> [] \<and> let_dig (hd v) then fqdn_not_fully_parsed else fqdn_invalid_label_expect_letter)))"
proof (cases "fqdn_text v")
  case True
  then show ?thesis using fqdn_from_string_iff by auto
next
  case False
  then obtain e where e: "fqdn_from_string v = Inl e" using fqdn_from_string_iff [of v] by (cases "fqdn_from_string v") auto
  show ?thesis
  proof (cases "parse_label v")
    case (Inl e)
    then have "fqdn_from_string v = Inl e"
      by (simp add: fqdn_from_string_def fqdn_parse_def parse_subdomain_def subdomain_loop.simps [of v 0 v])
    then show ?thesis using False Inl by (simp add: parse_label_fails)
  next
    case (Inr p)
    then have "v \<noteq> [] \<and> let_dig (hd v)" using parse_label_fails [of v] by (cases "v = [] \<or> \<not> let_dig (hd v)") auto
    moreover have "e = NetError fqdn_not_fully_parsed"
      using e subdomain_loop_fails [of v 0 v] Inr
      by (cases "subdomain_loop v 0 v")
         (auto simp: fqdn_from_string_def fqdn_parse_def parse_subdomain_def split: if_splits)
    ultimately show ?thesis using False e by simp
  qed
qed

text \<open>
  \<open>Port::from_string\<close> accepts exactly one to five decimal digits of a value up to 65535 and
  returns that value; the decimal notation of every port is read back as the port.
\<close>

theorem port_from_string_decimal:
  "port_from_string v =
     (if v \<noteq> [] \<and> length v \<le> 5 \<and> list_all is_DIGIT v \<and> dec_value v \<le> 65535
      then Inr (of_nat (dec_value v)) else Inl (NetError invalid_port_value))
   \<and> port_from_string (dec_string (unat p)) = Inr p"
proof -
  have "unat p < 65536" using unsigned_less [of p, where 'a = nat] by simp
  then have "length (dec_string (unat p)) \<le> 5" by (intro length_dec_string) simp_all
  then show ?thesis using dec_value_string [of "unat p"] \<open>unat p < 65536\<close> by (simp add: port_from_string_eq)
qed

text \<open>
  C37.  Under the contract of \<open>inet_ntop\<close> and \<open>inet_pton\<close> the loop of \<open>Address::to_string\<close> over
  growing buffers ends, with the address's text, however long it is, and \<open>Address::from_string\<close> reads
  that text back as the same address.
\<close>

theorem ip_to_string_roundtrip:
  assumes "address_wf a" "ip_text px a t"
  shows "ip_to_string px a = Some (Inr t) \<and> ip_from_string px t = Inr a"
  using ntop_loop_terminates [OF assms(2)] ip_from_text [OF assms(2,1)] by (simp add: ip_to_string_def)

definition sample_posix :: posix where
  "sample_posix = \<lparr>
     inet_pton = (\<lambda>fam s. if fam = AF_INET \<and> s = ''192.0.2.1'' then PtonOk [192, 0, 2, 1]
        else if fam = AF_INET6 \<and> s = ''2001:db8::1'' then PtonOk [0x20, 1, 0xd, 0xb8, 0, 0, 0, 0, 0, 0, 0, 0, 0, 0, 0, 1]
        else PtonInvalid),
     inet_ntop = (\<lambda>fam d n.
        let t = (if fam = AF_INET then ''192.0.2.1'' else ''2001:db8::1'')
        in if length t < n then Inr t else Inl 28),
     enospc = 28\<rparr>"

lemma sample_posix_text:
  "ip_text sample_posix (AddressV4 [192, 0, 2, 1]) ''192.0.2.1''"
  "ip_text sample_posix (AddressV6 [0x20, 1, 0xd, 0xb8, 0, 0, 0, 0, 0, 0, 0, 0, 0, 0, 0, 1]) ''2001:db8::1''"
  by (auto simp: ip_text_def sample_posix_def)

theorem ip_to_string_roundtrip_witness:
  "ip_to_string sample_posix (AddressV6 [0x20, 1, 0xd, 0xb8, 0, 0, 0, 0, 0, 0, 0, 0, 0, 0, 0, 1]) = Some (Inr ''2001:db8::1'')
   \<and> ip_from_string sample_posix ''2001:db8::1'' = Inr (AddressV6 [0x20, 1, 0xd, 0xb8, 0, 0, 0, 0, 0, 0, 0, 0, 0, 0, 0, 1])"
  by (rule ip_to_string_roundtrip [OF _ sample_posix_text(2)]) simp

end
