(* ===== verification/Ice_Candidate.thy ===== *)
theory Ice_Candidate
  imports Net_Names
begin

text \<open>
  The parts of an ICE candidate (\<open>ice/candidate/\<close>): foundation, component identifier, transport and
  candidate type, priority, connection address, and the preferences of RFC 5245 4.1.2.1 from which a
  priority is made.  A value class is the value it holds; an \<open>unsigned\<close> is a 32-bit word.  The
  context strings that the code adds to its errors are not modelled.
\<close>

section \<open>Foundation\<close>

definition is_ice_char :: "char \<Rightarrow> bool" where
  "is_ice_char c \<longleftrightarrow> is_ALPHA c \<or> is_DIGIT c \<or> c = CHR ''+'' \<or> c = CHR ''/''"

type_synonym foundation = string

definition foundation_from_string :: "string \<Rightarrow> foundation result" where
  "foundation_from_string v =
     (if v = [] \<or> length v > 32 then Inl (IceError invalid_foundation_length)
      else if \<not> list_all is_ice_char v then Inl (IceError invalid_foundation_char)
      else Inr v)"

section \<open>Component identifier\<close>

type_synonym component_id = u32

definition component_id_from_unsigned :: "u32 \<Rightarrow> component_id result" where
  "component_id_from_unsigned v =
     (if v = 0 \<or> v > 256 then Inl (IceError invalid_component_id_value) else Inr v)"

text \<open>\<open>std::atoi\<close> on a text that starts with a digit: the value of its leading digits, as an \<open>int\<close>.\<close>

definition atoi :: "string \<Rightarrow> int" where
  "atoi s = int (dec_value (takeWhile is_DIGIT s))"

definition component_id_from_string :: "string \<Rightarrow> component_id result" where
  "component_id_from_string v =
     (if v = [] \<or> length v > 3 then Inl (IceError invalid_component_id_length)
      else if \<not> list_all is_DIGIT v then Inl (IceError invalid_component_id_char)
      else Inr (of_int (atoi v)))"

section \<open>Transport and candidate type\<close>

datatype transport_type = UDP

definition transport_type_from_string :: "string \<Rightarrow> transport_type result" where
  "transport_type_from_string v =
     (if eq_string v ''udp'' then Inr UDP else Inl (IceError unknown_transport_type))"

fun transport_type_to_string :: "transport_type \<Rightarrow> string" where
  "transport_type_to_string UDP = ''udp''"

datatype cand_type = HOST | SERVER_REFLEXIVE | PEER_REFLEXIVE | RELAYED

definition cand_type_from_string :: "string \<Rightarrow> cand_type result" where
  "cand_type_from_string v =
     (if eq_string v ''host'' then Inr HOST
      else if eq_string v ''srflx'' then Inr SERVER_REFLEXIVE
      else if eq_string v ''prflx'' then Inr PEER_REFLEXIVE
      else if eq_string v ''relay'' then Inr RELAYED
      else Inl (IceError unknown_candidate_type))"

fun cand_type_to_string :: "cand_type \<Rightarrow> string" where
  "cand_type_to_string HOST = ''host''"
| "cand_type_to_string SERVER_REFLEXIVE = ''srflx''"
| "cand_type_to_string PEER_REFLEXIVE = ''prflx''"
| "cand_type_to_string RELAYED = ''relay''"

section \<open>Priority\<close>

type_synonym priority = u32

definition priority_from_uint32 :: "u32 \<Rightarrow> priority result" where
  "priority_from_uint32 v = (if v = 0 then Inl (IceError invalid_priority_value) else Inr v)"

definition priority_from_string :: "string \<Rightarrow> priority result" where
  "priority_from_string v =
     (if v = [] \<or> length v > 10 then Inl (IceError invalid_priority_length)
      else case digits_loop (0 :: u64) v of
             None \<Rightarrow> Inl (IceError invalid_priority_value)
           | Some r \<Rightarrow>
               if r = 0 \<or> r > push_bit 32 1 - 1 then Inl (IceError invalid_priority_value)
               else Inr (ucast r))"

section \<open>Connection address\<close>

datatype cand_address = IpAddress address | FqdnAddress fqdn

definition cand_address_from_string :: "posix \<Rightarrow> string \<Rightarrow> cand_address result" where
  "cand_address_from_string px v =
     (case rmap IpAddress (ip_from_string px v) of
        Inr a \<Rightarrow> Inr a
      | Inl iperr \<Rightarrow>
          (case rmap FqdnAddress (fqdn_from_string v) of
             Inr a \<Rightarrow> Inr a
           | Inl _ \<Rightarrow> Inl iperr))"

fun as_fqdn :: "cand_address \<Rightarrow> fqdn option" where
  "as_fqdn (FqdnAddress v) = Some v"
| "as_fqdn (IpAddress _) = None"

fun as_ip_address :: "cand_address \<Rightarrow> address option" where
  "as_ip_address (IpAddress v) = Some v"
| "as_ip_address (FqdnAddress _) = None"

fun cand_address_to_string :: "posix \<Rightarrow> cand_address \<Rightarrow> string result option" where
  "cand_address_to_string px (IpAddress v) = ip_to_string px v"
| "cand_address_to_string px (FqdnAddress v) = Some (Inr (fqdn_to_string v))"

section \<open>Preferences\<close>

datatype type_preference = TypePreference u32
datatype local_preference = LocalPreference u32
datatype component_preference = ComponentPreference u32

fun type_preference_recommended_for :: "cand_type \<Rightarrow> type_preference" where
  "type_preference_recommended_for HOST = TypePreference 126"
| "type_preference_recommended_for SERVER_REFLEXIVE = TypePreference 100"
| "type_preference_recommended_for PEER_REFLEXIVE = TypePreference 110"
| "type_preference_recommended_for RELAYED = TypePreference 0"

definition type_preference_from_unsigned :: "u32 \<Rightarrow> type_preference result" where
  "type_preference_from_unsigned v =
     (if v > 126 then Inl (IceError invalid_type_preference_value) else Inr (TypePreference v))"

definition local_preference_from_unsigned :: "u32 \<Rightarrow> local_preference result" where
  "local_preference_from_unsigned v =
     (if v > 65535 then Inl (IceError invalid_local_preference_value) else Inr (LocalPreference v))"

definition component_preference_recommended_for :: "component_id \<Rightarrow> component_preference" where
  "component_preference_recommended_for i = ComponentPreference (256 - i)"

definition component_preference_from_unsigned :: "u32 \<Rightarrow> component_preference result" where
  "component_preference_from_unsigned v =
     (if v \<ge> 256 then Inl (IceError invalid_component_preference_value) else Inr (ComponentPreference v))"

fun type_preference_value :: "type_preference \<Rightarrow> u32" where
  "type_preference_value (TypePreference v) = v"

fun local_preference_value :: "local_preference \<Rightarrow> u32" where
  "local_preference_value (LocalPreference v) = v"

fun component_preference_value :: "component_preference \<Rightarrow> u32" where
  "component_preference_value (ComponentPreference v) = v"

record preference =
  pref_type :: type_preference
  pref_local :: local_preference
  pref_component :: component_preference

definition to_priority :: "preference \<Rightarrow> priority result" where
  "to_priority s =
     (let p = push_bit 24 (type_preference_value (pref_type s))
              OR push_bit 8 (local_preference_value (pref_local s))
              OR component_preference_value (pref_component s)
      in priority_from_uint32 p)"

section \<open>The ranges of the values\<close>

text \<open>A preference is in range if each part is one that its \<open>from_unsigned\<close> accepts.\<close>

definition preference_ok :: "preference \<Rightarrow> bool" where
  "preference_ok s \<longleftrightarrow>
     unat (type_preference_value (pref_type s)) \<le> 126
     \<and> unat (local_preference_value (pref_local s)) \<le> 65535
     \<and> unat (component_preference_value (pref_component s)) \<le> 255"

definition preference_nat :: "preference \<Rightarrow> nat" where
  "preference_nat s =
     2 ^ 24 * unat (type_preference_value (pref_type s))
     + 2 ^ 8 * unat (local_preference_value (pref_local s))
     + unat (component_preference_value (pref_component s))"

lemma preference_nat_lex:
  "preference_nat s =
     (unat (type_preference_value (pref_type s)) * 65536 + unat (local_preference_value (pref_local s))) * 256
     + unat (component_preference_value (pref_component s))"
  by (simp add: preference_nat_def algebra_simps)

lemma lex_less:
  fixes b c b' c' M :: nat
  assumes "c < M" "c' < M"
  shows "b * M + c < b' * M + c' \<longleftrightarrow> b < b' \<or> (b = b' \<and> c < c')"
proof (cases b b' rule: linorder_cases)
  case less
  then have "(b + 1) * M \<le> b' * M" by (intro mult_le_mono1) simp
  then show ?thesis using assms less by simp
next
  case greater
  then have "(b' + 1) * M \<le> b * M" by (intro mult_le_mono1) simp
  then show ?thesis using assms greater by simp
qed simp

lemma triple_less:
  fixes a b c a' b' c' :: nat
  assumes "b < 65536" "b' < 65536" "c < 256" "c' < 256"
  shows "(a * 65536 + b) * 256 + c < (a' * 65536 + b') * 256 + c'
    \<longleftrightarrow> a < a' \<or> (a = a' \<and> (b < b' \<or> (b = b' \<and> c < c')))"
proof -
  have "a * 65536 + b < a' * 65536 + b' \<longleftrightarrow> a < a' \<or> (a = a' \<and> b < b')"
    and "a' * 65536 + b' < a * 65536 + b \<longleftrightarrow> a' < a \<or> (a' = a \<and> b' < b)"
    using lex_less [OF assms(1,2)] lex_less [OF assms(2,1)] by blast+
  then show ?thesis unfolding lex_less [OF assms(3,4)] by (metis linorder_cases)
qed

lemma from_unsigned_range:
  "type_preference_from_unsigned v = Inr t \<Longrightarrow> type_preference_value t = v \<and> unat v \<le> 126"
  "local_preference_from_unsigned w = Inr l \<Longrightarrow> local_preference_value l = w \<and> unat w \<le> 65535"
  "component_preference_from_unsigned x = Inr c \<Longrightarrow> component_preference_value c = x \<and> unat x \<le> 255"
  by (auto simp: type_preference_from_unsigned_def local_preference_from_unsigned_def
      component_preference_from_unsigned_def word_less_nat_alt word_le_nat_alt split: if_splits)

lemma recommended_range:
  "unat (type_preference_value (type_preference_recommended_for k)) \<le> 126"
  "component_id_from_unsigned i = Inr j \<Longrightarrow>
     unat (component_preference_value (component_preference_recommended_for j)) = 256 - unat i"
  by (cases k) (auto simp: component_id_from_unsigned_def component_preference_recommended_for_def
      word_less_nat_alt unat_sub word_le_nat_alt split: if_splits)

text \<open>A preference whose parts come from the checked constructors, or are the recommended ones, is in range.\<close>

lemma preference_ok_made:
  assumes "pref_type s = type_preference_recommended_for k \<or> type_preference_from_unsigned v = Inr (pref_type s)"
    and "local_preference_from_unsigned w = Inr (pref_local s)"
    and "component_id_from_unsigned i = Inr j \<and> pref_component s = component_preference_recommended_for j
      \<or> component_preference_from_unsigned x = Inr (pref_component s)"
  shows "preference_ok s"
proof -
  have "component_id_from_unsigned i = Inr j \<Longrightarrow> 0 < unat i"
    by (auto simp: component_id_from_unsigned_def unat_gt_0 split: if_splits)
  then show ?thesis
    using assms recommended_range(1) [of k] recommended_range(2) [of i j] 
      from_unsigned_range(1) [of v "pref_type s"] from_unsigned_range(2) [of w "pref_local s"] from_unsigned_range(3) [of x "pref_component s"]
    unfolding preference_ok_def by auto
qed

lemma or_is_add:
  fixes a b :: "'a::len word"
  assumes "take_bit n a = 0" "unat b < 2 ^ n"
  shows "a OR b = a + b"
proof -
  have "a AND b = 0"
  proof (rule bit_word_eqI)
    fix k
    show "bit (a AND b) k = bit (0 :: 'a word) k"
      using bit_small [OF assms(2), of k] bit_take_bit_iff [of n a k] assms(1) by (auto simp: bit_simps)
  qed
  then show ?thesis by (simp add: disjunctive_add_eq_or)
qed

lemma unat_push_bit_small: "unat w * 2 ^ n < 2 ^ LENGTH('a) \<Longrightarrow> unat (push_bit n w :: 'a::len word) = unat w * 2 ^ n"
  unfolding unsigned_push_bit_eq by (simp add: push_bit_eq_mult take_bit_nat_eq_self)

lemma to_priority_value:
  assumes "preference_ok s"
  shows "to_priority s =
    (if preference_nat s = 0 then Inl (IceError invalid_priority_value) else Inr (of_nat (preference_nat s)))"
proof -
  obtain t l c where s: "type_preference_value (pref_type s) = t" "local_preference_value (pref_local s) = l"
    "component_preference_value (pref_component s) = c" by blast
  have r: "unat t \<le> 126" "unat l \<le> 65535" "unat c \<le> 255" using assms by (simp_all add: preference_ok_def s)
  have l8: "unat (push_bit 8 l) = unat l * 2 ^ 8" and t24: "unat (push_bit 24 t) = unat t * 2 ^ 24"
    by (rule unat_push_bit_small; use r in simp)+
  have "push_bit 8 l OR c = push_bit 8 l + c" by (rule or_is_add [of 8]) (use r in \<open>simp_all add: take_bit_push_bit\<close>)
  moreover have lc: "unat (push_bit 8 l + c) = unat l * 2 ^ 8 + unat c" using l8 r by (subst unat_add_lem [THEN iffD1]) simp_all
  moreover have "push_bit 24 t OR (push_bit 8 l + c) = push_bit 24 t + (push_bit 8 l + c)"
    by (rule or_is_add [of 24]) (use r lc in \<open>simp_all add: take_bit_push_bit\<close>)
  moreover have "unat (push_bit 24 t + (push_bit 8 l + c)) = preference_nat s"
    using t24 lc r by (subst unat_add_lem [THEN iffD1]) (simp_all add: preference_nat_def s)
  ultimately have "unat (push_bit 24 t OR push_bit 8 l OR c) = preference_nat s" by (simp add: or.assoc)
  moreover from this have "push_bit 24 t OR push_bit 8 l OR c = of_nat (preference_nat s)" by (metis of_nat_unat ucast_id)
  ultimately show ?thesis by (simp add: to_priority_def priority_from_uint32_def s Let_def unat_eq_0 [symmetric] or.assoc)
qed

section \<open>The grammars\<close>

lemma foundation_from_string_iff:
  "foundation_from_string v = Inr f \<longleftrightarrow> f = v \<and> v \<noteq> [] \<and> length v \<le> 32 \<and> list_all is_ice_char v"
  by (auto simp: foundation_from_string_def)

lemma component_id_from_string_iff:
  "component_id_from_string v = Inr c \<longleftrightarrow> v \<noteq> [] \<and> length v \<le> 3 \<and> list_all is_DIGIT v \<and> unat c = dec_value v"
proof (cases "v \<noteq> [] \<and> length v \<le> 3 \<and> list_all is_DIGIT v")
  case True
  then have "dec_value v < 1000" using dec_value_bound [of v 3] by simp
  then have "unat (of_nat (dec_value v) :: u32) = dec_value v" by (simp add: unat_of_nat_small)
  moreover have v: "takeWhile is_DIGIT v = v" using True by (simp add: list_all_iff)
  ultimately show ?thesis using True by (auto simp: component_id_from_string_def atoi_def v word_unat_eq_iff)
qed (auto simp: component_id_from_string_def)

lemma priority_from_string_iff:
  "priority_from_string v = Inr p \<longleftrightarrow>
     v \<noteq> [] \<and> length v \<le> 10 \<and> list_all is_DIGIT v \<and> 0 < dec_value v \<and> dec_value v < 2 ^ 32 \<and> unat p = dec_value v"
proof (cases "v \<noteq> [] \<and> length v \<le> 10 \<and> list_all is_DIGIT v")
  case True
  then have "dec_value v < 2 ^ 64" using dec_value_bound [of v 10] by simp
  then have u: "unat (of_nat (dec_value v) :: u64) = dec_value v" by (simp add: unat_of_nat_small)
  moreover from this have "ucast (of_nat (dec_value v) :: u64) = (of_nat (dec_value v) :: u32)" by (metis of_nat_unat)
  moreover have "(of_nat (dec_value v) :: u64) > push_bit 32 1 - 1 \<longleftrightarrow> \<not> dec_value v < 2 ^ 32"
    using u by (auto simp: word_less_nat_alt push_bit_eq_mult)
  moreover have "(of_nat (dec_value v) :: u64) = 0 \<longleftrightarrow> dec_value v = 0" using u by (metis unat_eq_zero)
  moreover have "dec_value v < 2 ^ 32 \<Longrightarrow> unat (of_nat (dec_value v) :: u32) = dec_value v" by (simp add: unat_of_nat_small)
  ultimately show ?thesis using True
    by (cases "dec_value v < 2 ^ 32") (auto simp: priority_from_string_def digits_loop_dec word_unat_eq_iff)
qed (auto simp: priority_from_string_def digits_loop_dec)

lemma cand_type_roundtrip [simp]: "cand_type_from_string (cand_type_to_string k) = Inr k"
  by (cases k) (simp_all add: cand_type_from_string_def eq_string_def to_lower_def)

lemma transport_type_roundtrip [simp]: "transport_type_from_string (transport_type_to_string k) = Inr k"
  by (cases k) (simp add: transport_type_from_string_def eq_string_def to_lower_def)

lemma dec_string_roundtrips:
  "unat c < 1000 \<Longrightarrow> component_id_from_string (dec_string (unat c)) = Inr c"
  "p \<noteq> 0 \<Longrightarrow> priority_from_string (dec_string (unat p)) = Inr p"
  "port_from_string (dec_string (unat q)) = Inr q"
proof -
  have "unat p < 2 ^ 32" "unat q < 2 ^ 16" using unsigned_less [of p, where 'a = nat] unsigned_less [of q, where 'a = nat] by simp_all
  then show "unat c < 1000 \<Longrightarrow> component_id_from_string (dec_string (unat c)) = Inr c"
    "p \<noteq> 0 \<Longrightarrow> priority_from_string (dec_string (unat p)) = Inr p"
    "port_from_string (dec_string (unat q)) = Inr q"
    using dec_value_string [of "unat c"] dec_value_string [of "unat p"] dec_value_string [of "unat q"]
      length_dec_string [of 3 "unat c"] length_dec_string [of 10 "unat p"] length_dec_string [of 5 "unat q"]
    by (auto simp: component_id_from_string_iff priority_from_string_iff port_from_string_eq unat_gt_0)
qed

text \<open>The texts of a connection address: an address as the operating system writes it, or a domain name that it does not take for one.\<close>

fun cand_address_text :: "posix \<Rightarrow> cand_address \<Rightarrow> string \<Rightarrow> bool" where
  "cand_address_text px (IpAddress a) t \<longleftrightarrow> address_wf a \<and> ip_text px a t"
| "cand_address_text px (FqdnAddress f) t \<longleftrightarrow>
     f = Fqdn t \<and> fqdn_text t \<and> (\<forall>fam. inet_pton px fam (c_str t) = PtonInvalid)"

lemma cand_address_from_text:
  assumes "cand_address_text px a t"
  shows "cand_address_from_string px t = Inr a"
proof (cases a)
  case (IpAddress ip)
  then have "ip_from_string px t = Inr ip" using assms ip_from_text by simp
  then show ?thesis using IpAddress by (simp add: cand_address_from_string_def)
next
  case (FqdnAddress f)
  then have "fqdn_from_string t = Inr f" "\<forall>fam. inet_pton px fam (c_str t) = PtonInvalid"
    using assms by (simp_all add: fqdn_from_string_iff)
  then show ?thesis using FqdnAddress
    by (simp add: cand_address_from_string_def ip_from_string_def from_string_v4_def from_string_v6_def inet_pton_adapter_def)
qed

lemma cand_address_to_text: "cand_address_text px a t \<Longrightarrow> cand_address_to_string px a = Some (Inr t)"
  by (cases a) (simp_all add: ip_to_string_def ntop_loop_terminates)

section \<open>Properties\<close>

text \<open>
  C35.  The priority of a preference in range is the formula of RFC 5245 4.1.2.1, \<open>2\<^sup>2\<^sup>4\<close> times the type
  preference plus \<open>2\<^sup>8\<close> times the local preference plus the component preference, below \<open>2\<^sup>3\<^sup>1\<close>; it is
  refused only if all three are zero; and priorities compare as the triples do, type first.
\<close>

theorem priority_formula_and_order:
  assumes "preference_ok s" "preference_ok s'"
  shows "to_priority s =
      (if preference_nat s = 0 then Inl (IceError invalid_priority_value) else Inr (of_nat (preference_nat s)))
    \<and> preference_nat s < 2 ^ 31
    \<and> ((of_nat (preference_nat s) :: priority) < of_nat (preference_nat s') \<longleftrightarrow>
         (let t = type_preference_value (pref_type s); t' = type_preference_value (pref_type s');
              l = local_preference_value (pref_local s); l' = local_preference_value (pref_local s');
              c = component_preference_value (pref_component s); c' = component_preference_value (pref_component s')
          in t < t' \<or> (t = t' \<and> (l < l' \<or> (l = l' \<and> c < c')))))"
proof -
  have b: "preference_nat s < 2 ^ 31" "preference_nat s' < 2 ^ 31"
    using assms by (simp_all add: preference_ok_def preference_nat_def)
  then have "unat (of_nat (preference_nat s) :: priority) = preference_nat s"
    "unat (of_nat (preference_nat s') :: priority) = preference_nat s'" by (simp_all add: unat_of_nat_small)
  moreover have "preference_nat s < preference_nat s' \<longleftrightarrow>
    (let t = type_preference_value (pref_type s); t' = type_preference_value (pref_type s');
         l = local_preference_value (pref_local s); l' = local_preference_value (pref_local s');
         c = component_preference_value (pref_component s); c' = component_preference_value (pref_component s')
     in unat t < unat t' \<or> (unat t = unat t' \<and> (unat l < unat l' \<or> (unat l = unat l' \<and> unat c < unat c'))))"
    using assms unfolding preference_nat_lex Let_def by (intro triple_less) (simp_all add: preference_ok_def)
  ultimately show ?thesis using b to_priority_value [OF assms(1)] by (simp add: word_less_nat_alt word_unat_eq_iff Let_def)
qed

theorem priority_formula_and_order_witness:
  "to_priority \<lparr>pref_type = type_preference_recommended_for HOST, pref_local = LocalPreference 65535,
       pref_component = component_preference_recommended_for 1\<rparr> = Inr 2130706431
   \<and> to_priority \<lparr>pref_type = type_preference_recommended_for RELAYED, pref_local = LocalPreference 0,
       pref_component = component_preference_recommended_for 256\<rparr> = Inl (IceError invalid_priority_value)"
proof -
  let ?h = "\<lparr>pref_type = type_preference_recommended_for HOST, pref_local = LocalPreference 65535,
       pref_component = component_preference_recommended_for 1\<rparr>"
  let ?r = "\<lparr>pref_type = type_preference_recommended_for RELAYED, pref_local = LocalPreference 0,
       pref_component = component_preference_recommended_for 256\<rparr>"
  have ok: "preference_ok ?h" "preference_ok ?r"
    by (simp_all add: preference_ok_def component_preference_recommended_for_def)
  have "preference_nat ?h = 2130706431" "preference_nat ?r = 0"
    by (simp_all add: preference_nat_def component_preference_recommended_for_def)
  then show ?thesis using priority_formula_and_order [OF ok] priority_formula_and_order [OF ok(2,1)] by simp
qed

text \<open>
  \<open>Priority::from_string\<close> accepts exactly one to ten digits of a value from 1 to \<open>2\<^sup>3\<^sup>2 - 1\<close>, and
  \<open>ComponentId::from_string\<close> exactly one to three digits, each returning the value; the decimal
  notation of a priority and of a component identifier of up to three digits is read back.
\<close>

theorem priority_and_component_grammar:
  "(priority_from_string v = Inr p \<longleftrightarrow>
      v \<noteq> [] \<and> length v \<le> 10 \<and> list_all is_DIGIT v \<and> 0 < dec_value v \<and> dec_value v < 2 ^ 32 \<and> unat p = dec_value v)
   \<and> (component_id_from_string v = Inr c \<longleftrightarrow>
      v \<noteq> [] \<and> length v \<le> 3 \<and> list_all is_DIGIT v \<and> unat c = dec_value v)
   \<and> (p \<noteq> 0 \<longrightarrow> priority_from_string (dec_string (unat p)) = Inr p)
   \<and> (unat c < 1000 \<longrightarrow> component_id_from_string (dec_string (unat c)) = Inr c)"
  using priority_from_string_iff component_id_from_string_iff dec_string_roundtrips by blast

theorem priority_and_component_grammar_witness:
  "priority_from_string (dec_string 2130706431) = Inr 2130706431 \<and> component_id_from_string (dec_string 256) = Inr 256"
  using priority_and_component_grammar [of "[]" 2130706431 256] by simp

text \<open>
  \<open>ComponentId::from_string\<close> does not make the range check of \<open>from_unsigned\<close>: it accepts 0 and
  every value from 257 to 999, and the recommended component preference of such an identifier is outside
  0 to 255, by wrap-around for those above 256.
\<close>

theorem component_id_text_out_of_range:
  "(\<exists>i. component_id_from_string ''0'' = Inr i \<and> component_id_from_unsigned i = Inl (IceError invalid_component_id_value)
      \<and> component_preference_recommended_for i = ComponentPreference 256)
   \<and> (\<exists>i. component_id_from_string ''257'' = Inr i \<and> component_id_from_unsigned i = Inl (IceError invalid_component_id_value)
      \<and> component_preference_recommended_for i = ComponentPreference 0xFFFFFFFF)"
proof -
  have "component_id_from_string ''0'' = Inr 0" "component_id_from_string ''257'' = Inr 257" by code_simp+
  moreover have "component_id_from_unsigned 0 = Inl (IceError invalid_component_id_value)"
    "component_id_from_unsigned 257 = Inl (IceError invalid_component_id_value)" by code_simp+
  moreover have "component_preference_recommended_for 0 = ComponentPreference 256"
    "component_preference_recommended_for 257 = ComponentPreference 0xFFFFFFFF" by code_simp+
  ultimately show ?thesis by blast
qed

end
