(* ===== verification/Ice_Sdp.thy ===== *)
theory Ice_Sdp
  imports Ice_Candidate
begin

text \<open>
  The parser of the SDP candidate attribute (\<open>ice/candidate/ice_candidate_sdp.cpp\<close>).  The stream of
  tokens is threaded through the reads in the order of the code.  The loop over the attributes behind
  the type is a partial function: that it always ends is proved below.  \<open>Unsupported\<close> keeps the error
  whose message text the code stores.  Which of several errors \<open>combine\<close> and \<open>any_is_err\<close> report is
  the function \<open>pick_err\<close> of the external package.
\<close>

record candidate =
  c_address :: cand_address
  c_port :: port
  c_transport_type :: transport_type
  c_foundation :: foundation
  c_component :: component_id
  c_priority :: priority
  c_type :: cand_type
  c_related_address :: "cand_address option"
  c_related_port :: "port option"

record extension =
  att_name :: string
  att_value :: string

datatype sdp_result = Supported candidate "extension list" | Unsupported error

partial_function (option) attr_loop ::
  "posix \<Rightarrow> token_stream \<Rightarrow> cand_address result option \<Rightarrow> port result option \<Rightarrow> extension list
   \<Rightarrow> (cand_address result option \<times> port result option \<times> extension list) result option" where
  "attr_loop px tstr raddr rport exts =
     (case optional_token tstr of
        (tstr, None) \<Rightarrow> Some (Inr (raddr, rport, exts))
      | (tstr, Some name) \<Rightarrow>
          if name = ''raddr''
          then (case required_bind (cand_address_from_string px) tstr of
                  (tstr, rv) \<Rightarrow> attr_loop px tstr (Some rv) rport exts)
          else if name = ''rport''
          then (case required_bind port_from_string tstr of
                  (tstr, rv) \<Rightarrow> attr_loop px tstr raddr (Some rv) exts)
          else (case required tstr of
                  (tstr, Inl e) \<Rightarrow> Some (Inl e)
                | (tstr, Inr v) \<Rightarrow> attr_loop px tstr raddr rport (exts @ [\<lparr>att_name = name, att_value = v\<rparr>])))"

definition any_is_err :: "craftpp \<Rightarrow> error list \<Rightarrow> error option" where
  "any_is_err cv errs = (if errs = [] then None else Some (pick_err cv errs))"

text \<open>The \<open>Result\<close> of an absent value is a value; a present one must not be an error.\<close>

definition flip_maybe :: "'a result option \<Rightarrow> 'a option result" where
  "flip_maybe m = (case m of None \<Rightarrow> Inr None | Some rv \<Rightarrow> rmap Some rv)"

definition combine_candidate ::
  "craftpp \<Rightarrow> foundation result \<Rightarrow> component_id result \<Rightarrow> transport_type result \<Rightarrow> priority result
   \<Rightarrow> cand_address result \<Rightarrow> port result \<Rightarrow> cand_type result \<Rightarrow> cand_address option result
   \<Rightarrow> port option result \<Rightarrow> extension list \<Rightarrow> sdp_result result" where
  "combine_candidate cv f cid tt p addr po ty raddr rport exts =
     (case (f, cid, tt, p, addr, po, ty, raddr, rport) of
        (Inr f, Inr cid, Inr tt, Inr p, Inr addr, Inr po, Inr ty, Inr raddr, Inr rport) \<Rightarrow>
          Inr (Supported \<lparr>c_address = addr, c_port = po, c_transport_type = tt, c_foundation = f, c_component = cid,
                 c_priority = p, c_type = ty, c_related_address = raddr, c_related_port = rport\<rparr> exts)
      | _ \<Rightarrow> Inl (pick_err cv (err_list f @ err_list cid @ err_list tt @ err_list p @ err_list addr @ err_list po
                @ err_list ty @ err_list raddr @ err_list rport)))"

definition sdp_advance :: "string option \<Rightarrow> nat \<Rightarrow> string option" where
  "sdp_advance m sz = Option.bind m (\<lambda>v. if sz > length v then None else Some (drop sz v))"

definition parse_sdp_attr :: "craftpp \<Rightarrow> posix \<Rightarrow> string \<Rightarrow> sdp_result result option" where
  "parse_sdp_attr cv px inp =
     (let pre = ''candidate:'' in
      if take (length pre) inp \<noteq> pre then Some (Inl (IceError invalid_attr_prefix))
      else case sdp_advance (Some inp) (length pre) of
        None \<Rightarrow> Some (Inl (IceError invalid_attr_prefix))
      | Some v \<Rightarrow>
          let tstr = token_stream_new (split_all v CHR '' '');
              (tstr, foundation_rv) = required_bind foundation_from_string tstr;
              (tstr, component_id_rv) = required_bind component_id_from_string tstr;
              (tstr, transport_rv) = required_bind transport_type_from_string tstr;
              (tstr, priority_rv) = required_bind priority_from_string tstr;
              (tstr, connection_addr_rv) = required_bind (cand_address_from_string px) tstr;
              (tstr, port_rv) = required_bind port_from_string tstr;
              (tstr, typ_rv) = required_token ''typ'' tstr;
              (tstr, type_rv) = (case typ_rv of Inl e \<Rightarrow> (tstr, Inl e) | Inr _ \<Rightarrow> required_bind cand_type_from_string tstr)
          in Option.bind (attr_loop px tstr None None []) (\<lambda>r.
             case r of
               Inl e \<Rightarrow> Some (Inl e)
             | Inr (maybe_raddr, maybe_rport, extensions) \<Rightarrow>
                 let unsupported = any_is_err cv (err_list connection_addr_rv @ err_list type_rv @ err_list transport_rv);
                     combined = combine_candidate cv foundation_rv component_id_rv transport_rv priority_rv
                       connection_addr_rv port_rv type_rv (flip_maybe maybe_raddr) (flip_maybe maybe_rport) extensions
                 in Some (case unsupported of
                      Some e \<Rightarrow>
                        if is_err connection_addr_rv \<or> e = IceError unknown_candidate_type \<or> e = IceError unknown_transport_type
                        then Inr (Unsupported e)
                        else combined
                    | None \<Rightarrow> combined)))"

section \<open>The loop over the attributes\<close>

definition flat_pairs :: "(string \<times> string) list \<Rightarrow> string list" where
  "flat_pairs ps = concat (map (\<lambda>(n, v). [n, v]) ps)"

lemma flat_pairs_simps [simp]:
  "flat_pairs [] = []" "flat_pairs ((n, v) # ps) = n # v # flat_pairs ps"
  by (simp_all add: flat_pairs_def)

text \<open>What a list of name and value pairs stands for: the last value of \<open>raddr\<close> and \<open>rport\<close>, and the rest in order.\<close>

definition last_attr :: "string \<Rightarrow> (string \<times> string) list \<Rightarrow> string option" where
  "last_attr n ps = map_of (rev ps) n"

definition extensions_of :: "(string \<times> string) list \<Rightarrow> extension list" where
  "extensions_of ps = map (\<lambda>(n, v). \<lparr>att_name = n, att_value = v\<rparr>) (filter (\<lambda>(n, v). n \<noteq> ''raddr'' \<and> n \<noteq> ''rport'') ps)"

definition or_else :: "'a option \<Rightarrow> 'a option \<Rightarrow> 'a option" where
  "or_else m d = (case m of None \<Rightarrow> d | Some x \<Rightarrow> Some x)"

lemma or_else_simps [simp]: "or_else None d = d" "or_else (Some x) d = Some x" "or_else m None = m"
  by (simp_all add: or_else_def split: option.split)

lemma last_attr_simps [simp]:
  "last_attr n [] = None"
  "last_attr n ((m, v) # ps) = or_else (last_attr n ps) (if m = n then Some v else None)"
  by (auto simp: last_attr_def or_else_def map_of_append map_add_def split: option.split)

lemma extensions_of_simps [simp]:
  "extensions_of [] = []"
  "extensions_of ((n, v) # ps) =
     (if n = ''raddr'' \<or> n = ''rport'' then [] else [\<lparr>att_name = n, att_value = v\<rparr>]) @ extensions_of ps"
  by (auto simp: extensions_of_def)

lemma pairs_cases:
  obtains (even) ps where "ts = flat_pairs ps" | (odd) ps n where "ts = flat_pairs ps @ [n]"
proof (induction ts arbitrary: thesis rule: induct_list012)
  case 1
  then show ?case by (metis flat_pairs_simps(1))
next
  case (2 n)
  then show ?case by (metis append_Nil flat_pairs_simps(1))
next
  case (3 n v ts)
  show ?case
    by (rule 3(1)) (metis 3(3) flat_pairs_simps(2), metis 3(4) append_Cons flat_pairs_simps(2))
qed

text \<open>Reading a token of a stream is reading the head of the list of tokens that are left.\<close>

definition token_rv :: "(string \<Rightarrow> 'a result) \<Rightarrow> string list \<Rightarrow> 'a result" where
  "token_rv f ts = (case ts of [] \<Rightarrow> Inl (TokenError no_required_token) | t # _ \<Rightarrow> f t)"

lemma token_rv_simps [simp]:
  "token_rv f [] = Inl (TokenError no_required_token)" "token_rv f (t # ts) = f t"
  by (simp_all add: token_rv_def)

lemma token_rv_Inr: "token_rv f ts = Inr x \<longleftrightarrow> (\<exists>t ts'. ts = t # ts' \<and> f t = Inr x)"
  by (cases ts) auto

text \<open>The stream of the tokens \<open>ts\<close> after \<open>n\<close> reads, whether or not they found a token.\<close>

definition next_stream :: "token_stream \<Rightarrow> token_stream" where
  "next_stream = (\<lambda>s. fst (required s))"

definition stream_at :: "string list \<Rightarrow> nat \<Rightarrow> token_stream" where
  "stream_at ts n = (next_stream ^^ n) (token_stream_new ts)"

lemma stream_at: "stream_of (drop n ts) (stream_at ts n)"
  using vec.left_after [OF stream_of_new, of n ts] by (simp add: stream_at_def next_stream_def)

lemma required_bind_at: "required_bind f (stream_at ts n) = (stream_at ts (Suc n), token_rv f (drop n ts))"
proof -
  have "snd (required (stream_at ts n)) = (if n < length ts then Inr (ts ! n) else Inl (TokenError no_required_token))"
    using vec.req_after [OF stream_of_new, of n ts] by (simp add: stream_at_def next_stream_def)
  moreover have "fst (required (stream_at ts n)) = stream_at ts (Suc n)" by (simp add: stream_at_def next_stream_def)
  ultimately show ?thesis
    by (cases "n < length ts") (simp_all add: required_bind_def case_prod_beta token_rv_def flip: Cons_nth_drop_Suc)
qed

fun attrs :: "posix \<Rightarrow> string list \<Rightarrow> cand_address result option \<Rightarrow> port result option \<Rightarrow> extension list
   \<Rightarrow> (cand_address result option \<times> port result option \<times> extension list) result" where
  "attrs px [] raddr rport exts = Inr (raddr, rport, exts)"
| "attrs px [n] raddr rport exts =
     (if n = ''raddr'' then Inr (Some (Inl (TokenError no_required_token)), rport, exts)
      else if n = ''rport'' then Inr (raddr, Some (Inl (TokenError no_required_token)), exts)
      else Inl (TokenError no_required_token))"
| "attrs px (n # v # ts) raddr rport exts =
     (if n = ''raddr'' then attrs px ts (Some (cand_address_from_string px v)) rport exts
      else if n = ''rport'' then attrs px ts raddr (Some (port_from_string v)) exts
      else attrs px ts raddr rport (exts @ [\<lparr>att_name = n, att_value = v\<rparr>]))"

lemma attr_loop_attrs: "stream_of ts s \<Longrightarrow> attr_loop px s raddr rport exts = Some (attrs px ts raddr rport exts)"
proof (induction px ts raddr rport exts arbitrary: s rule: attrs.induct)
  case (1 px raddr rport exts)
  then show ?case by (simp add: attr_loop.simps [of px s] optional_Nil)
next
  case (2 px n raddr rport exts)
  define s1 where "s1 = s\<lparr>tk_pos := tk_pos s + 1\<rparr>"
  have s1: "optional_token s = (s1, Some n)" "stream_of [] s1"
    using optional_Cons [OF 2] stream_of_Cons [OF 2] by (simp_all add: s1_def)
  have "attr_loop px s1 ra rp ex = Some (Inr (ra, rp, ex))" for ra rp ex
    using s1(2) by (simp add: attr_loop.simps [of px s1] optional_Nil)
  then show ?case using s1 by (simp add: attr_loop.simps [of px s] required_bind_Nil required_Nil)
next
  case (3 px n v ts raddr rport exts)
  define s1 where "s1 = s\<lparr>tk_pos := tk_pos s + 1\<rparr>"
  define s2 where "s2 = s1\<lparr>tk_pos := tk_pos s1 + 1\<rparr>"
  have s1: "optional_token s = (s1, Some n)" "stream_of (v # ts) s1"
    using optional_Cons [OF 3(4)] stream_of_Cons [OF 3(4)] by (simp_all add: s1_def)
  have s2: "stream_of ts s2" using stream_of_Cons [OF s1(2)] by (simp add: s2_def)
  have reads: "required s1 = (s2, Inr v)" "required_bind (cand_address_from_string px) s1 = (s2, cand_address_from_string px v)"
    "required_bind port_from_string s1 = (s2, port_from_string v)"
    using required_Cons [OF s1(2)] required_bind_Cons [OF s1(2)] by (simp_all add: s2_def)
  show ?case using 3(1) [OF _ s2] 3(2,3) [OF _ _ s2] by (simp add: attr_loop.simps [of px s] s1(1) reads)
qed

lemma attrs_pairs:
  "attrs px (flat_pairs ps @ ts) raddr rport exts =
     attrs px ts (or_else (map_option (cand_address_from_string px) (last_attr ''raddr'' ps)) raddr)
       (or_else (map_option port_from_string (last_attr ''rport'' ps)) rport) (exts @ extensions_of ps)"
proof (induction ps arbitrary: raddr rport exts)
  case (Cons p ps)
  obtain n v where "p = (n, v)" by force
  then show ?case using Cons by (auto simp: or_else_def split: option.split)
qed simp

section \<open>The result as a function of the tokens\<close>

definition sdp_tokens :: "string \<Rightarrow> string list" where
  "sdp_tokens inp = split_all (drop 10 inp) CHR '' ''"

definition typ_rv :: "string list \<Rightarrow> unit result" where
  "typ_rv = token_rv (\<lambda>v. if v = ''typ'' then Inr () else Inl (TokenError expected_token_missed))"

definition type_rv :: "string list \<Rightarrow> cand_type result" where
  "type_rv ts = (case typ_rv (drop 6 ts) of Inl e \<Rightarrow> Inl e | Inr _ \<Rightarrow> token_rv cand_type_from_string (drop 7 ts))"

definition attr_tokens :: "string list \<Rightarrow> string list" where
  "attr_tokens ts = drop (if is_err (typ_rv (drop 6 ts)) then 7 else 8) ts"

definition unsupported_errs :: "posix \<Rightarrow> string list \<Rightarrow> error list" where
  "unsupported_errs px ts =
     err_list (token_rv (cand_address_from_string px) (drop 4 ts)) @ err_list (type_rv ts)
     @ err_list (token_rv transport_type_from_string (drop 2 ts))"

definition sdp_of_tokens :: "craftpp \<Rightarrow> posix \<Rightarrow> string list \<Rightarrow> sdp_result result" where
  "sdp_of_tokens cv px ts =
     rbind (attrs px (attr_tokens ts) None None []) (\<lambda>(raddr, rport, exts).
       let addr = token_rv (cand_address_from_string px) (drop 4 ts);
           combined = combine_candidate cv (token_rv foundation_from_string ts)
             (token_rv component_id_from_string (drop 1 ts)) (token_rv transport_type_from_string (drop 2 ts))
             (token_rv priority_from_string (drop 3 ts)) addr (token_rv port_from_string (drop 5 ts)) (type_rv ts)
             (flip_maybe raddr) (flip_maybe rport) exts
       in case any_is_err cv (unsupported_errs px ts) of
            Some e \<Rightarrow> if is_err addr \<or> e = IceError unknown_candidate_type \<or> e = IceError unknown_transport_type
                      then Inr (Unsupported e) else combined
          | None \<Rightarrow> combined)"

lemma parse_sdp_attr_tokens:
  assumes "take 10 inp = ''candidate:''"
  shows "parse_sdp_attr cv px inp = Some (sdp_of_tokens cv px (sdp_tokens inp))"
proof -
  define ts where "ts = sdp_tokens inp"
  have pre: "length ''candidate:'' = 10" by simp
  have adv: "sdp_advance (Some inp) 10 = Some (drop 10 inp)"
    using arg_cong [OF assms, of length] by (simp add: sdp_advance_def)
  have start: "token_stream_new (split_all (drop 10 inp) CHR '' '') = stream_at ts 0"
    by (simp add: stream_at_def ts_def sdp_tokens_def)
  have tyt: "required_token ''typ'' (stream_at ts n) = (stream_at ts (Suc n), typ_rv (drop n ts))" for n
    by (simp add: required_token_def required_bind_at typ_rv_def)
  have loop: "attr_loop px (stream_at ts n) None None [] = Some (attrs px (drop n ts) None None [])" for n
    by (rule attr_loop_attrs) (rule stream_at)
  show ?thesis
    unfolding parse_sdp_attr_def Let_def pre assms adv start option.case
    by (cases "typ_rv (drop 6 ts)")
       (simp_all add: required_bind_at tyt loop sdp_of_tokens_def attr_tokens_def type_rv_def unsupported_errs_def
          eval_nat_numeral Let_def rbind_def flip: ts_def split: sum.split prod.split option.split)
qed

section \<open>What the parser accepts\<close>

text \<open>
  The tokens that are accepted as a candidate.  This is more than the grammar of RFC 8839: the attributes
  behind the type may come in any order and any number, of several values of \<open>raddr\<close> or \<open>rport\<close> only the
  last is read, and the name and the value of an extension may be any text without a space.
\<close>

definition sdp_accepts :: "posix \<Rightarrow> string list \<Rightarrow> candidate \<Rightarrow> extension list \<Rightarrow> bool" where
  "sdp_accepts px ts c exts \<longleftrightarrow>
     (\<exists>f cid tr pr ad po ty ps. ts = [f, cid, tr, pr, ad, po, ''typ'', ty] @ flat_pairs ps
        \<and> foundation_from_string f = Inr (c_foundation c)
        \<and> component_id_from_string cid = Inr (c_component c)
        \<and> transport_type_from_string tr = Inr (c_transport_type c)
        \<and> priority_from_string pr = Inr (c_priority c)
        \<and> cand_address_from_string px ad = Inr (c_address c)
        \<and> port_from_string po = Inr (c_port c)
        \<and> cand_type_from_string ty = Inr (c_type c)
        \<and> flip_maybe (map_option (cand_address_from_string px) (last_attr ''raddr'' ps)) = Inr (c_related_address c)
        \<and> flip_maybe (map_option port_from_string (last_attr ''rport'' ps)) = Inr (c_related_port c)
        \<and> exts = extensions_of ps)"

lemma sdp_acceptsI:
  assumes "foundation_from_string f = Inr (c_foundation c)" "component_id_from_string cid = Inr (c_component c)"
    "transport_type_from_string tr = Inr (c_transport_type c)" "priority_from_string pr = Inr (c_priority c)"
    "cand_address_from_string px ad = Inr (c_address c)" "port_from_string po = Inr (c_port c)"
    "cand_type_from_string ty = Inr (c_type c)"
    "flip_maybe (map_option (cand_address_from_string px) (last_attr ''raddr'' ps)) = Inr (c_related_address c)"
    "flip_maybe (map_option port_from_string (last_attr ''rport'' ps)) = Inr (c_related_port c)"
    "exts = extensions_of ps"
  shows "sdp_accepts px ([f, cid, tr, pr, ad, po, ''typ'', ty] @ flat_pairs ps) c exts"
  using assms unfolding sdp_accepts_def by blast

lemma flip_maybe_simps [simp]: "flip_maybe None = Inr None" "flip_maybe (Some rv) = rmap Some rv"
  by (simp_all add: flip_maybe_def)

lemma combine_candidate_Supported:
  "combine_candidate cv f cid tt p addr po ty raddr rport exts = Inr (Supported c exts') \<longleftrightarrow>
     f = Inr (c_foundation c) \<and> cid = Inr (c_component c) \<and> tt = Inr (c_transport_type c) \<and> p = Inr (c_priority c)
     \<and> addr = Inr (c_address c) \<and> po = Inr (c_port c) \<and> ty = Inr (c_type c)
     \<and> raddr = Inr (c_related_address c) \<and> rport = Inr (c_related_port c) \<and> exts' = exts"
  by (cases c) (auto simp: combine_candidate_def split: sum.split)

lemma combine_candidate_not_Unsupported: "combine_candidate cv f cid tt p addr po ty raddr rport exts \<noteq> Inr (Unsupported e)"
  by (simp add: combine_candidate_def split: sum.split)

lemma token_rv_nth: "token_rv f (drop n ts) = Inr x \<longleftrightarrow> n < length ts \<and> f (ts ! n) = Inr x"
  by (cases "n < length ts") (simp_all flip: Cons_nth_drop_Suc)

lemma eight_tokens:
  assumes "7 < length ts"
  shows "ts = [ts ! 0, ts ! 1, ts ! 2, ts ! 3, ts ! 4, ts ! 5, ts ! 6, ts ! 7] @ drop 8 ts"
proof -
  have "ts = take 8 ts @ drop 8 ts" by simp
  also have "take 8 ts = map (\<lambda>i. ts ! i) [0..<8]" using assms by (intro nth_equalityI) auto
  finally show ?thesis by (simp add: upt_rec numeral_eq_Suc)
qed

lemma typ_rv_Inr: "typ_rv (drop n ts) = Inr u \<longleftrightarrow> n < length ts \<and> ts ! n = ''typ''"
  by (simp add: typ_rv_def token_rv_nth)

lemma type_rv_Inr:
  "type_rv ts = Inr k \<longleftrightarrow> 7 < length ts \<and> ts ! 6 = ''typ'' \<and> cand_type_from_string (ts ! 7) = Inr k"
  using typ_rv_Inr [of 6 ts] by (cases "typ_rv (drop 6 ts)") (auto simp: type_rv_def token_rv_nth)

text \<open>The result on a complete list of tokens.\<close>

lemma sdp_of_eight:
  "sdp_of_tokens cv px ([f, cid, tr, pr, ad, po, ''typ'', ty] @ flat_pairs ps) =
     (let addr = cand_address_from_string px ad; k = cand_type_from_string ty; tt = transport_type_from_string tr;
          combined = combine_candidate cv (foundation_from_string f) (component_id_from_string cid) tt
            (priority_from_string pr) addr (port_from_string po) k
            (flip_maybe (map_option (cand_address_from_string px) (last_attr ''raddr'' ps)))
            (flip_maybe (map_option port_from_string (last_attr ''rport'' ps))) (extensions_of ps)
      in case any_is_err cv (err_list addr @ err_list k @ err_list tt) of
           Some e \<Rightarrow> if is_err addr \<or> e = IceError unknown_candidate_type \<or> e = IceError unknown_transport_type
                     then Inr (Unsupported e) else combined
         | None \<Rightarrow> combined)"
  using attrs_pairs [of px ps "[]" None None "[]"]
  by (simp add: sdp_of_tokens_def attr_tokens_def type_rv_def typ_rv_def unsupported_errs_def Let_def)

lemma attrs_complete:
  assumes "attrs px ts None None [] = Inr (raddr, rport, exts)" "flip_maybe raddr = Inr a" "flip_maybe rport = Inr p"
  shows "\<exists>ps. ts = flat_pairs ps \<and> raddr = map_option (cand_address_from_string px) (last_attr ''raddr'' ps)
    \<and> rport = map_option port_from_string (last_attr ''rport'' ps) \<and> exts = extensions_of ps"
proof (cases rule: pairs_cases [of ts])
  case (even ps)
  then show ?thesis using assms(1) attrs_pairs [of px ps "[]" None None "[]"] by auto
next
  case (odd ps n)
  then show ?thesis using assms attrs_pairs [of px ps "[n]" None None "[]"] by (auto split: if_splits)
qed

lemma sdp_of_tokens_Supported: "sdp_of_tokens cv px ts = Inr (Supported c exts) \<longleftrightarrow> sdp_accepts px ts c exts"
proof
  assume r: "sdp_of_tokens cv px ts = Inr (Supported c exts)"
  then obtain raddr rport ex where at: "attrs px (attr_tokens ts) None None [] = Inr (raddr, rport, ex)"
    by (auto simp: sdp_of_tokens_def)
  have parts: "token_rv foundation_from_string ts = Inr (c_foundation c)"
      "token_rv component_id_from_string (drop 1 ts) = Inr (c_component c)"
      "token_rv transport_type_from_string (drop 2 ts) = Inr (c_transport_type c)"
      "token_rv priority_from_string (drop 3 ts) = Inr (c_priority c)"
      "token_rv (cand_address_from_string px) (drop 4 ts) = Inr (c_address c)"
      "token_rv port_from_string (drop 5 ts) = Inr (c_port c)" "type_rv ts = Inr (c_type c)"
      "flip_maybe raddr = Inr (c_related_address c)" "flip_maybe rport = Inr (c_related_port c)" "exts = ex"
    using r unfolding sdp_of_tokens_def at rbind_simps Let_def prod.case
    by (auto simp: combine_candidate_Supported split: option.splits if_splits)
  have ty: "7 < length ts" "ts ! 6 = ''typ''" "cand_type_from_string (ts ! 7) = Inr (c_type c)"
    using parts(7) by (simp_all add: type_rv_Inr)
  then have "typ_rv (drop 6 ts) = Inr ()" by (simp add: typ_rv_def token_rv_nth)
  then have "attr_tokens ts = drop 8 ts" by (simp add: attr_tokens_def)
  then obtain ps where ps: "drop 8 ts = flat_pairs ps" "raddr = map_option (cand_address_from_string px) (last_attr ''raddr'' ps)"
      "rport = map_option port_from_string (last_attr ''rport'' ps)" "ex = extensions_of ps"
    using attrs_complete [OF at parts(8,9)] by auto
  have "ts = [ts ! 0, ts ! 1, ts ! 2, ts ! 3, ts ! 4, ts ! 5, ''typ'', ts ! 7] @ flat_pairs ps"
    using eight_tokens [OF ty(1)] by (simp add: ty(2) ps(1))
  then show "sdp_accepts px ts c exts"
    using parts ty ps token_rv_nth [of foundation_from_string 0 ts]
    unfolding sdp_accepts_def by (intro exI conjI) (auto simp: token_rv_nth)
next
  assume "sdp_accepts px ts c exts"
  then obtain f cid tr pr ad po ty ps where d: "ts = [f, cid, tr, pr, ad, po, ''typ'', ty] @ flat_pairs ps"
      "foundation_from_string f = Inr (c_foundation c)" "component_id_from_string cid = Inr (c_component c)"
      "transport_type_from_string tr = Inr (c_transport_type c)" "priority_from_string pr = Inr (c_priority c)"
      "cand_address_from_string px ad = Inr (c_address c)" "port_from_string po = Inr (c_port c)"
      "cand_type_from_string ty = Inr (c_type c)"
      "flip_maybe (map_option (cand_address_from_string px) (last_attr ''raddr'' ps)) = Inr (c_related_address c)"
      "flip_maybe (map_option port_from_string (last_attr ''rport'' ps)) = Inr (c_related_port c)" "exts = extensions_of ps"
    unfolding sdp_accepts_def by blast
  show "sdp_of_tokens cv px ts = Inr (Supported c exts)"
    unfolding d(1) sdp_of_eight by (simp add: any_is_err_def combine_candidate_Supported d(2-))
qed

lemma sdp_of_eight_Supported:
  "sdp_of_tokens cv px ([f, cid, tr, pr, ad, po, ''typ'', ty] @ flat_pairs ps) = Inr (Supported c exts) \<longleftrightarrow>
     foundation_from_string f = Inr (c_foundation c) \<and> component_id_from_string cid = Inr (c_component c)
     \<and> transport_type_from_string tr = Inr (c_transport_type c) \<and> priority_from_string pr = Inr (c_priority c)
     \<and> cand_address_from_string px ad = Inr (c_address c) \<and> port_from_string po = Inr (c_port c)
     \<and> cand_type_from_string ty = Inr (c_type c)
     \<and> flip_maybe (map_option (cand_address_from_string px) (last_attr ''raddr'' ps)) = Inr (c_related_address c)
     \<and> flip_maybe (map_option port_from_string (last_attr ''rport'' ps)) = Inr (c_related_port c)
     \<and> exts = extensions_of ps"
  unfolding sdp_of_eight Let_def
  by (auto simp: combine_candidate_Supported any_is_err_def split: option.split if_splits)

lemma parse_sdp_attr_returns: "parse_sdp_attr cv px inp =
    Some (if take 10 inp = ''candidate:'' then sdp_of_tokens cv px (sdp_tokens inp) else Inl (IceError invalid_attr_prefix))"
proof (cases "take 10 inp = ''candidate:''")
  case True
  then show ?thesis by (simp add: parse_sdp_attr_tokens)
next
  case False
  have "length ''candidate:'' = 10" by simp
  then show ?thesis using False unfolding parse_sdp_attr_def Let_def by (simp only: if_True if_False not_True_eq_False not_False_eq_True)
qed

section \<open>The grammar\<close>

text \<open>
  The candidate attribute of RFC 8839 5.1 as the comment of \<open>parse_sdp_attr\<close> quotes it: the texts of a line,
  the words that a line consists of, and the values that the texts stand for.  Numbers are digits, keywords
  are compared without case, and a connection address is what \<open>inet_pton\<close> takes for an IP address, first
  of version 4, or else a domain name.
\<close>

definition digits_text :: "nat \<Rightarrow> string \<Rightarrow> nat \<Rightarrow> bool" where
  "digits_text k t n \<longleftrightarrow> t \<noteq> [] \<and> length t \<le> k \<and> list_all is_DIGIT t \<and> dec_value t = n"

definition ip_literal :: "posix \<Rightarrow> family \<Rightarrow> nat \<Rightarrow> string \<Rightarrow> bytes option" where
  "ip_literal px fam sz t =
     (case inet_pton px fam (c_str t) of PtonOk bs \<Rightarrow> if length bs = sz then Some bs else None | _ \<Rightarrow> None)"

fun address_names :: "posix \<Rightarrow> string \<Rightarrow> cand_address \<Rightarrow> bool" where
  "address_names px t (IpAddress (AddressV4 bs)) \<longleftrightarrow> ip_literal px AF_INET 4 t = Some bs"
| "address_names px t (IpAddress (AddressV6 bs)) \<longleftrightarrow>
     ip_literal px AF_INET 4 t = None \<and> ip_literal px AF_INET6 16 t = Some bs"
| "address_names px t (FqdnAddress f) \<longleftrightarrow>
     ip_literal px AF_INET 4 t = None \<and> ip_literal px AF_INET6 16 t = None \<and> f = Fqdn t \<and> fqdn_text t"

record sdp_texts =
  tx_foundation :: string
  tx_component :: string
  tx_transport :: string
  tx_priority :: string
  tx_address :: string
  tx_port :: string
  tx_type :: string
  tx_raddr :: "string option"
  tx_rport :: "string option"
  tx_extensions :: "(string \<times> string) list"

definition abnf_words :: "sdp_texts \<Rightarrow> string list" where
  "abnf_words x =
     [tx_foundation x, tx_component x, tx_transport x, tx_priority x, tx_address x, tx_port x, ''typ'', tx_type x]
     @ (case tx_raddr x of None \<Rightarrow> [] | Some t \<Rightarrow> [''raddr'', t])
     @ (case tx_rport x of None \<Rightarrow> [] | Some t \<Rightarrow> [''rport'', t])
     @ concat (map (\<lambda>(n, v). [n, v]) (tx_extensions x))"

definition abnf_shape :: "sdp_texts \<Rightarrow> bool" where
  "abnf_shape x \<longleftrightarrow> list_all (\<lambda>w. CHR '' '' \<notin> set w) (abnf_words x) \<and> last (abnf_words x) \<noteq> [] \<and>
     list_all (\<lambda>(n, v). n \<noteq> ''raddr'' \<and> n \<noteq> ''rport'') (tx_extensions x)"

definition abnf_values :: "posix \<Rightarrow> sdp_texts \<Rightarrow> candidate \<Rightarrow> extension list \<Rightarrow> bool" where
  "abnf_values px x c exts \<longleftrightarrow>
     c_foundation c = tx_foundation x \<and> tx_foundation x \<noteq> [] \<and> length (tx_foundation x) \<le> 32 \<and>
       list_all is_ice_char (tx_foundation x) \<and>
     digits_text 3 (tx_component x) (unat (c_component c)) \<and>
     map to_lower (tx_transport x) = transport_type_to_string (c_transport_type c) \<and>
     digits_text 10 (tx_priority x) (unat (c_priority c)) \<and> c_priority c \<noteq> 0 \<and>
     address_names px (tx_address x) (c_address c) \<and>
     digits_text 5 (tx_port x) (unat (c_port c)) \<and>
     map to_lower (tx_type x) = cand_type_to_string (c_type c) \<and>
     rel_option (address_names px) (tx_raddr x) (c_related_address c) \<and>
     rel_option (\<lambda>t p. digits_text 5 t (unat p)) (tx_rport x) (c_related_port c) \<and>
     exts = map (\<lambda>(n, v). \<lparr>att_name = n, att_value = v\<rparr>) (tx_extensions x)"

lemma from_string_literal:
  "(case from_string_v4 px t of Inr bs \<Rightarrow> Some bs | Inl _ \<Rightarrow> None) = ip_literal px AF_INET 4 t"
  "(case from_string_v6 px t of Inr bs \<Rightarrow> Some bs | Inl _ \<Rightarrow> None) = ip_literal px AF_INET6 16 t"
  by (simp_all add: from_string_v4_def from_string_v6_def inet_pton_adapter_def addr_from_view_def ip_literal_def
      split: pton_result.split)

lemma address_names_iff: "cand_address_from_string px t = Inr a \<longleftrightarrow> address_names px t a"
proof -
  obtain e where fq: "fqdn_from_string t = (if fqdn_text t then Inr (Fqdn t) else Inl e)"
    using fqdn_from_string_iff [of t] by (cases "fqdn_from_string t"; metis)
  show ?thesis
    using from_string_literal [of px t]
    by (cases "from_string_v4 px t"; cases "from_string_v6 px t"; cases "(px, t, a)" rule: address_names.cases)
      (auto simp: cand_address_from_string_def ip_from_string_def fq dest!: sym [of _ "ip_literal _ _ _ _"])
qed

lemma port_text_iff: "port_from_string t = Inr p \<longleftrightarrow> digits_text 5 t (unat p)"
proof -
  have "unat (of_nat (dec_value t) :: u16) = dec_value t" if "dec_value t \<le> 65535" using that by (simp add: unat_of_nat_small)
  moreover have "unat p \<le> 65535" using unsigned_less [of p, where 'a = nat] by simp
  ultimately show ?thesis by (auto simp: port_from_string_eq digits_text_def)
qed

lemma keyword_iff:
  "transport_type_from_string t = Inr tt \<longleftrightarrow> map to_lower t = transport_type_to_string tt"
  "cand_type_from_string t = Inr k \<longleftrightarrow> map to_lower t = cand_type_to_string k"
   apply (cases tt; simp add: transport_type_from_string_def eq_string_iff to_lower_def)
  apply (cases k; simp add: cand_type_from_string_def eq_string_iff to_lower_def)
  done

lemma word_iffs:
  "component_id_from_string t = Inr i \<longleftrightarrow> digits_text 3 t (unat i)"
  "priority_from_string t = Inr p \<longleftrightarrow> digits_text 10 t (unat p) \<and> p \<noteq> 0"
  using unsigned_less [of p, where 'a = nat]
  by (auto simp: component_id_from_string_iff priority_from_string_iff digits_text_def unat_gt_0 simp flip: unat_gt_0)

lemma flip_maybe_rel: "flip_maybe (map_option f m) = Inr r \<longleftrightarrow> rel_option (\<lambda>t x. f t = Inr x) m r"
  by (cases m; cases r; cases "f (the m)") (auto simp: rmap_def)


lemma abnf_words_pairs:
  "abnf_words x = [tx_foundation x, tx_component x, tx_transport x, tx_priority x, tx_address x, tx_port x, ''typ'', tx_type x]
     @ flat_pairs ((case tx_raddr x of None \<Rightarrow> [] | Some t \<Rightarrow> [(''raddr'', t)])
         @ (case tx_rport x of None \<Rightarrow> [] | Some t \<Rightarrow> [(''rport'', t)]) @ tx_extensions x)"
  by (simp add: abnf_words_def flat_pairs_def split: option.split)

lemma abnf_attrs:
  assumes "list_all (\<lambda>(n, v). n \<noteq> ''raddr'' \<and> n \<noteq> ''rport'') es"
  shows "last_attr ''raddr'' es = None" "last_attr ''rport'' es = None"
    "extensions_of es = map (\<lambda>(n, v). \<lparr>att_name = n, att_value = v\<rparr>) es"
  using assms by (induction es) auto

section \<open>Printing a candidate\<close>

text \<open>
  The sources have no printer; \<open>sdp_line\<close> writes a candidate in the grammar of RFC 8839 5.1, with
  \<open>atext\<close> for the texts of addresses.
\<close>

definition sdp_pairs :: "(cand_address \<Rightarrow> string) \<Rightarrow> candidate \<Rightarrow> extension list \<Rightarrow> (string \<times> string) list" where
  "sdp_pairs atext c exts =
     (case c_related_address c of None \<Rightarrow> [] | Some a \<Rightarrow> [(''raddr'', atext a)])
     @ (case c_related_port c of None \<Rightarrow> [] | Some p \<Rightarrow> [(''rport'', dec_string (unat p))])
     @ map (\<lambda>x. (att_name x, att_value x)) exts"

definition sdp_words :: "(cand_address \<Rightarrow> string) \<Rightarrow> candidate \<Rightarrow> extension list \<Rightarrow> string list" where
  "sdp_words atext c exts =
     [c_foundation c, dec_string (unat (c_component c)), transport_type_to_string (c_transport_type c),
      dec_string (unat (c_priority c)), atext (c_address c), dec_string (unat (c_port c)), ''typ'',
      cand_type_to_string (c_type c)] @ flat_pairs (sdp_pairs atext c exts)"

definition sdp_line :: "(cand_address \<Rightarrow> string) \<Rightarrow> candidate \<Rightarrow> extension list \<Rightarrow> string" where
  "sdp_line atext c exts = ''candidate:'' @ join (sdp_words atext c exts) '' ''"

definition cand_addresses :: "candidate \<Rightarrow> cand_address list" where
  "cand_addresses c = c_address c # (case c_related_address c of None \<Rightarrow> [] | Some a \<Rightarrow> [a])"

definition is_word :: "string \<Rightarrow> bool" where
  "is_word w \<longleftrightarrow> w \<noteq> [] \<and> CHR '' '' \<notin> set w"

definition candidate_ok :: "candidate \<Rightarrow> extension list \<Rightarrow> bool" where
  "candidate_ok c exts \<longleftrightarrow>
     c_foundation c \<noteq> [] \<and> length (c_foundation c) \<le> 32 \<and> list_all is_ice_char (c_foundation c)
     \<and> unat (c_component c) < 1000 \<and> c_priority c \<noteq> 0
     \<and> list_all (\<lambda>x. is_word (att_name x) \<and> is_word (att_value x)
          \<and> att_name x \<noteq> ''raddr'' \<and> att_name x \<noteq> ''rport'') exts"

lemma no_space:
  "list_all is_ice_char v \<Longrightarrow> CHR '' '' \<notin> set v" "CHR '' '' \<notin> set (dec_string n)"
  "CHR '' '' \<notin> set (transport_type_to_string tt)" "CHR '' '' \<notin> set (cand_type_to_string k)"
proof -
  show "list_all is_ice_char v \<Longrightarrow> CHR '' '' \<notin> set v"
    by (auto simp: list_all_iff is_ice_char_def is_ALPHA_def is_DIGIT_def)
  show "CHR '' '' \<notin> set (dec_string n)"
    using dec_value_string [of n] by (auto simp: list_all_iff is_DIGIT_def)
  show "CHR '' '' \<notin> set (transport_type_to_string tt)" "CHR '' '' \<notin> set (cand_type_to_string k)"
    by (cases tt; simp) (cases k; simp)
qed

lemma flat_pairs_words: "list_all (\<lambda>(n, v). is_word n \<and> is_word v) ps \<Longrightarrow> list_all is_word (flat_pairs ps)"
  by (induction ps) auto

lemma sdp_words_are_words:
  assumes "candidate_ok c exts" "list_all (\<lambda>a. is_word (atext a)) (cand_addresses c)"
  shows "list_all is_word (sdp_words atext c exts)"
proof -
  have "list_all (\<lambda>(n, v). is_word n \<and> is_word v) (sdp_pairs atext c exts)"
    using assms no_space dec_value_string
    by (auto simp: sdp_pairs_def cand_addresses_def candidate_ok_def list_all_iff is_word_def split: option.splits)
  moreover have "is_word (dec_string n)" "is_word (transport_type_to_string tt)" "is_word (cand_type_to_string k)" for n tt k
    using no_space dec_value_string unfolding is_word_def by (blast, cases tt, simp, cases k, simp_all)
  ultimately show ?thesis using assms no_space(1) flat_pairs_words
    by (auto simp: sdp_words_def candidate_ok_def cand_addresses_def is_word_def)
qed

lemma sdp_pairs_attrs:
  assumes "candidate_ok c exts"
  shows "last_attr ''raddr'' (sdp_pairs atext c exts) = map_option atext (c_related_address c)"
    "last_attr ''rport'' (sdp_pairs atext c exts) = map_option (\<lambda>p. dec_string (unat p)) (c_related_port c)"
    "extensions_of (sdp_pairs atext c exts) = exts"
proof -
  have n: "\<forall>x \<in> set exts. att_name x \<noteq> ''raddr'' \<and> att_name x \<noteq> ''rport''" using assms by (simp add: candidate_ok_def list_all_iff)
  let ?ps = "map (\<lambda>x. (att_name x, att_value x)) exts"
  have "last_attr m ?ps = None" if "m = ''raddr'' \<or> m = ''rport''" for m
    using n that unfolding last_attr_def map_of_eq_None_iff by auto
  moreover have "extensions_of ?ps = exts" using n by (induction exts) auto
  ultimately show "last_attr ''raddr'' (sdp_pairs atext c exts) = map_option atext (c_related_address c)"
    "last_attr ''rport'' (sdp_pairs atext c exts) = map_option (\<lambda>p. dec_string (unat p)) (c_related_port c)"
    "extensions_of (sdp_pairs atext c exts) = exts"
    by (auto simp: sdp_pairs_def split: option.split)
qed

lemma sdp_accepts_words:
  assumes "candidate_ok c exts" "list_all (\<lambda>a. cand_address_text px a (atext a)) (cand_addresses c)"
  shows "sdp_accepts px (sdp_words atext c exts) c exts"
proof -
  have "cand_address_from_string px (atext a) = Inr a" if "a \<in> set (cand_addresses c)" for a
    using assms(2) that cand_address_from_text by (auto simp: list_all_iff)
  then have "cand_address_from_string px (atext (c_address c)) = Inr (c_address c)"
    "flip_maybe (map_option (cand_address_from_string px) (map_option atext (c_related_address c))) = Inr (c_related_address c)"
    by (cases "c_related_address c"; simp add: cand_addresses_def)+
  moreover have "flip_maybe (map_option port_from_string (map_option (\<lambda>p. dec_string (unat p)) (c_related_port c))) = Inr (c_related_port c)"
    by (cases "c_related_port c") (simp_all add: dec_string_roundtrips)
  ultimately show ?thesis
    unfolding sdp_words_def using assms(1)
    by (intro sdp_acceptsI) (simp_all add: sdp_pairs_attrs foundation_from_string_iff candidate_ok_def dec_string_roundtrips)
qed

lemma sdp_line_tokens:
  assumes "candidate_ok c exts" "list_all (\<lambda>a. is_word (atext a)) (cand_addresses c)"
  shows "take 10 (sdp_line atext c exts) = ''candidate:'' \<and> sdp_tokens (sdp_line atext c exts) = sdp_words atext c exts"
proof -
  have w: "list_all is_word (sdp_words atext c exts)" by (rule sdp_words_are_words [OF assms])
  have ne: "sdp_words atext c exts \<noteq> []" by (simp add: sdp_words_def)
  have "list_all (\<lambda>w. CHR '' '' \<notin> set w) (sdp_words atext c exts)" using w by (auto simp: list_all_iff is_word_def)
  moreover have "last (sdp_words atext c exts) \<noteq> []" using w ne last_in_set by (auto simp: list_all_iff is_word_def)
  ultimately have "split_all (join (sdp_words atext c exts) [CHR '' '']) CHR '' '' = sdp_words atext c exts"
    by (intro split_all_join ne)
  then show ?thesis by (simp add: sdp_line_def sdp_tokens_def)
qed

lemma unknown_errs:
  "transport_type_from_string tr = Inl e \<Longrightarrow> e = IceError unknown_transport_type"
  "cand_type_from_string ty = Inl e \<Longrightarrow> e = IceError unknown_candidate_type"
  by (auto simp: transport_type_from_string_def cand_type_from_string_def split: if_splits)

lemma sdp_line_parses:
  assumes "candidate_ok c exts"
    and "list_all (\<lambda>a. cand_address_text px a (atext a) \<and> is_word (atext a)) (cand_addresses c)"
  shows "parse_sdp_attr cv px (sdp_line atext c exts) = Some (Inr (Supported c exts))"
proof -
  have "list_all (\<lambda>a. cand_address_text px a (atext a)) (cand_addresses c)" "list_all (\<lambda>a. is_word (atext a)) (cand_addresses c)"
    using assms(2) by (simp_all add: list_all_iff)
  then show ?thesis
    using sdp_line_tokens [of c exts atext] sdp_accepts_words [of c exts px atext] assms(1)
    by (simp add: parse_sdp_attr_returns sdp_of_tokens_Supported)
qed

section \<open>Properties\<close>


definition sample_texts :: sdp_texts where
  "sample_texts = \<lparr>tx_foundation = ''2'', tx_component = ''1'', tx_transport = ''UDP'', tx_priority = ''7'', tx_address = ''192.0.2.1'',
     tx_port = ''9'', tx_type = ''srflx'', tx_raddr = Some ''192.0.2.1'', tx_rport = None, tx_extensions = [(''generation'', ''0'')]\<rparr>"


text \<open>
  The texts that are accepted, over all lines: \<open>candidate:\<close> and tokens as in \<open>sdp_accepts\<close>.  So of two values of
  \<open>raddr\<close> the first may be anything, as in the second line below.
\<close>

theorem sdp_parse_accepts:
  "parse_sdp_attr cv px inp = Some (Inr (Supported c exts)) \<longleftrightarrow>
     take 10 inp = ''candidate:'' \<and> sdp_accepts px (split_all (drop 10 inp) CHR '' '') c exts"
  by (simp add: parse_sdp_attr_returns sdp_of_tokens_Supported sdp_tokens_def)

theorem sdp_repeated_attribute:
  "case parse_sdp_attr list_view sample_posix
     ''candidate:2 1 udp 7 192.0.2.1 9 typ host raddr !!! raddr 192.0.2.1'' of
     Some (Inr (Supported c exts)) \<Rightarrow> c_related_address c = Some (IpAddress (AddressV4 [192, 0, 2, 1])) \<and> exts = []
   | _ \<Rightarrow> False"
proof -
  have "sdp_tokens ''candidate:2 1 udp 7 192.0.2.1 9 typ host raddr !!! raddr 192.0.2.1'' =
      [''2'', ''1'', ''udp'', ''7'', ''192.0.2.1'', ''9'', ''typ'', ''host''] @
        flat_pairs [(''raddr'', ''!!!''), (''raddr'', ''192.0.2.1'')]" by code_simp
  moreover have "case sdp_of_tokens list_view sample_posix ([''2'', ''1'', ''udp'', ''7'', ''192.0.2.1'', ''9'', ''typ'', ''host''] @
        flat_pairs [(''raddr'', ''!!!''), (''raddr'', ''192.0.2.1'')]) of
     Inr (Supported c exts) \<Rightarrow> c_related_address c = Some (IpAddress (AddressV4 [192, 0, 2, 1])) \<and> exts = []
   | _ \<Rightarrow> False" by code_simp
  ultimately show ?thesis by (simp add: parse_sdp_attr_returns)
qed

text \<open>
  C21.  A candidate with values in range, printed in the grammar of RFC 8839 with its addresses as the
  operating system or the domain name prints them, is parsed back as the same candidate with the same
  extensions; the texts of the addresses are what \<open>Address::to_string\<close> returns.
\<close>

theorem sdp_print_parse:
  assumes "candidate_ok c exts"
    and "list_all (\<lambda>a. cand_address_text px a (atext a) \<and> is_word (atext a)) (cand_addresses c)"
  shows "parse_sdp_attr cv px (sdp_line atext c exts) = Some (Inr (Supported c exts))
    \<and> list_all (\<lambda>a. cand_address_to_string px a = Some (Inr (atext a))) (cand_addresses c)"
  using sdp_line_parses [OF assms] assms(2) cand_address_to_text by (auto simp: list_all_iff)

definition sample_candidate :: candidate where
  "sample_candidate = \<lparr>c_address = IpAddress (AddressV4 [192, 0, 2, 1]), c_port = 45664, c_transport_type = UDP,
     c_foundation = ''2'', c_component = 1, c_priority = 1694498815, c_type = SERVER_REFLEXIVE,
     c_related_address = Some (FqdnAddress (Fqdn ''host-7.example'')), c_related_port = Some 8998\<rparr>"

definition sample_txt :: "cand_address \<Rightarrow> string" where
  "sample_txt a = (case a of IpAddress _ \<Rightarrow> ''192.0.2.1'' | FqdnAddress f \<Rightarrow> fqdn_to_string f)"

lemma sample_fqdn: "fqdn_text ''host-7.example''"
proof -
  have "list_all valid_label [''host-7'', ''example'']" by code_simp
  then show ?thesis unfolding fqdn_text_def by (intro exI [of _ "[''host-7'', ''example'']"]) (simp add: join_Cons)
qed

theorem sdp_print_parse_witness:
  "parse_sdp_attr list_view sample_posix
     ''candidate:2 1 udp 1694498815 192.0.2.1 45664 typ srflx raddr host-7.example rport 8998 generation 0''
   = Some (Inr (Supported sample_candidate [\<lparr>att_name = ''generation'', att_value = ''0''\<rparr>]))"
proof -
  let ?x = "[\<lparr>att_name = ''generation'', att_value = ''0''\<rparr>]"
  have ok: "candidate_ok sample_candidate ?x" by code_simp
  have addrs: "list_all (\<lambda>a. cand_address_text sample_posix a (sample_txt a) \<and> is_word (sample_txt a)) (cand_addresses sample_candidate)"
    using sample_posix_text(1) sample_fqdn
    by (simp add: cand_addresses_def sample_candidate_def sample_txt_def is_word_def c_str_def sample_posix_def)
  have "sdp_line sample_txt sample_candidate ?x =
      ''candidate:2 1 udp 1694498815 192.0.2.1 45664 typ srflx raddr host-7.example rport 8998 generation 0''"
    by (simp add: sdp_line_def sdp_words_def sdp_pairs_def sample_candidate_def sample_txt_def dec_string.simps join_Cons char_of_def bit_0)
  then show ?thesis using sdp_print_parse [OF ok addrs, of list_view] by simp
qed

text \<open>
  C34.  A complete candidate line is reported as unsupported, to be ignored as RFC 8839 asks, exactly if
  its transport or its type is unknown or its address is neither an IP address nor a domain name,
  whatever error \<open>combine\<close> would have picked and even if another part is malformed.
\<close>

theorem sdp_unsupported_iff:
  assumes "binary_view cv" "take 10 inp = ''candidate:''"
    and "split_all (drop 10 inp) CHR '' '' = [f, cid, tr, pr, ad, po, ''typ'', ty] @ flat_pairs ps"
  shows "(\<exists>e. parse_sdp_attr cv px inp = Some (Inr (Unsupported e))) \<longleftrightarrow>
      is_err (transport_type_from_string tr) \<or> is_err (cand_type_from_string ty) \<or> is_err (cand_address_from_string px ad)"
proof -
  let ?errs = "err_list (cand_address_from_string px ad) @ err_list (cand_type_from_string ty) @ err_list (transport_type_from_string tr)"
  have pick: "?errs \<noteq> [] \<Longrightarrow> pick_err cv ?errs \<in> set ?errs" by (rule binary_view.pick_err_in [OF assms(1)])
  show ?thesis
    unfolding parse_sdp_attr_tokens [OF assms(2)] sdp_tokens_def assms(3) sdp_of_eight
    using pick unknown_errs(1) [of tr] unknown_errs(2) [of ty]
    by (cases "cand_address_from_string px ad"; cases "cand_type_from_string ty"; cases "transport_type_from_string tr")
       (auto simp: any_is_err_def combine_candidate_not_Unsupported Let_def)
qed

theorem sdp_unsupported_iff_witness:
  "\<exists>e. parse_sdp_attr list_view sample_posix ''candidate:2 1 tcp 0 192.0.2.1 9 typ host'' = Some (Inr (Unsupported e))"
proof -
  have t: "take 10 ''candidate:2 1 tcp 0 192.0.2.1 9 typ host'' = ''candidate:''" by simp
  have s: "split_all (drop 10 ''candidate:2 1 tcp 0 192.0.2.1 9 typ host'') CHR '' ''
      = [''2'', ''1'', ''tcp'', ''0'', ''192.0.2.1'', ''9'', ''typ'', ''host''] @ flat_pairs []" by code_simp
  have "is_err (transport_type_from_string ''tcp'')" by code_simp
  then show ?thesis using sdp_unsupported_iff [OF binary_view_list_view t s] by blast
qed

text \<open>
  A line cut off before its address is reported as unsupported and not as malformed, also the
  empty attribute \<open>candidate:\<close>, because the missing address is taken for one that is not recognised.
\<close>

theorem sdp_truncated_is_unsupported:
  assumes "take 10 inp = ''candidate:''" "length (split_all (drop 10 inp) CHR '' '') < 5"
  shows "\<exists>e. parse_sdp_attr cv px inp = Some (Inr (Unsupported e))"
proof -
  let ?ts = "sdp_tokens inp"
  have l: "length ?ts < 5" using assms(2) by (simp add: sdp_tokens_def)
  then have "token_rv (cand_address_from_string px) (drop 4 ?ts) = Inl (TokenError no_required_token)" by simp
  moreover have "attr_tokens ?ts = []" using l by (simp add: attr_tokens_def)
  ultimately show ?thesis
    by (simp add: parse_sdp_attr_tokens [OF assms(1)] sdp_of_tokens_def unsupported_errs_def any_is_err_def)
qed

theorem sdp_truncated_is_unsupported_witness:
  "\<exists>e. parse_sdp_attr list_view sample_posix ''candidate:'' = Some (Inr (Unsupported e))"
  by (rule sdp_truncated_is_unsupported) simp_all

end
