(* ===== verification/Hashing.thy ===== *)
theory Hashing
  imports Net
begin

text \<open>
  The hash functions of the containers: MurmurHash64A (\<open>util/util_hash_murmur.cpp\<close>,
  \<open>util/util_hash_murmur.hpp\<close>), the hash of a path (\<open>net/net_path_hash.hpp\<close>), of an address
  (\<open>net/ip/ip_address_hash.cpp\<close>) and of a transaction identifier
  (\<open>stun/stun_transaction_id_hash.hpp\<close>), with the wrapper \<open>util/util_hash_dynamic.hpp\<close> around it.  The code reads eight bytes as a \<open>uint64_t\<close> in the byte order of
  the machine: that reading is the parameter \<open>load\<close>.  \<open>std::size_t\<close> has 64 bits.
\<close>

section \<open>Murmur\<close>

definition murmur_m :: u64 where
  "murmur_m = 0xc6a4a7935bd1e995"

definition murmur_r :: nat where
  "murmur_r = 47"

fun murmur_loop :: "(bytes \<Rightarrow> u64) \<Rightarrow> nat \<Rightarrow> bytes \<Rightarrow> u64 \<Rightarrow> u64 \<times> bytes" where
  "murmur_loop load 0 d h = (h, d)"
| "murmur_loop load (Suc blocks) d h =
     (let v = load (take 8 d);
          v = v * murmur_m;
          v = v XOR drop_bit murmur_r v;
          v = v * murmur_m;
          h = h XOR v;
          h = h * murmur_m
      in murmur_loop load blocks (drop 8 d) h)"

text \<open>The cases of the \<open>switch\<close> fall through: the case for \<open>n\<close> executes those below it.\<close>

definition murmur_tail :: "nat \<Rightarrow> bytes \<Rightarrow> u64 \<Rightarrow> u64" where
  "murmur_tail n data2 h =
     (let h = (if n \<ge> 7 then h XOR push_bit 48 (ucast (data2 ! 6)) else h);
          h = (if n \<ge> 6 then h XOR push_bit 40 (ucast (data2 ! 5)) else h);
          h = (if n \<ge> 5 then h XOR push_bit 32 (ucast (data2 ! 4)) else h);
          h = (if n \<ge> 4 then h XOR push_bit 24 (ucast (data2 ! 3)) else h);
          h = (if n \<ge> 3 then h XOR push_bit 16 (ucast (data2 ! 2)) else h);
          h = (if n \<ge> 2 then h XOR push_bit 8 (ucast (data2 ! 1)) else h)
      in if n \<ge> 1 then (h XOR ucast (data2 ! 0)) * murmur_m else h)"

definition murmur64 :: "(bytes \<Rightarrow> u64) \<Rightarrow> bytes \<Rightarrow> u64 \<Rightarrow> u64" where
  "murmur64 load view seed =
     (let h = seed XOR (of_nat (length view) * murmur_m);
          (h, data2) = murmur_loop load (length view div 8) view h;
          h = murmur_tail (length view mod 8) data2 h;
          h = h XOR drop_bit murmur_r h;
          h = h * murmur_m;
          h = h XOR drop_bit murmur_r h
      in h)"

fun murmur_views :: "(bytes \<Rightarrow> u64) \<Rightarrow> bytes list \<Rightarrow> u64 \<Rightarrow> u64" where
  "murmur_views load [] seed = seed"
| "murmur_views load (v # vs) seed = murmur_views load vs (murmur64 load v seed)"

definition path_hash :: "(bytes \<Rightarrow> u64) \<Rightarrow> path \<Rightarrow> u64" where
  "path_hash load p = murmur_views load [address_view (p_source p), address_view (p_target p)] 0"

fun address_hash :: "(bytes \<Rightarrow> u64) \<Rightarrow> address \<Rightarrow> u64" where
  "address_hash load (AddressV4 v) = load (take 8 v @ replicate (8 - min (length v) 8) 0)"
| "address_hash load (AddressV6 v) = murmur64 load v 0"

definition murmur_tid_hash :: "(bytes \<Rightarrow> u64) \<Rightarrow> u64 \<Rightarrow> bytes \<Rightarrow> u64" where
  "murmur_tid_hash load m_seed tid = murmur64 load tid m_seed"

section \<open>The steps are bijections\<close>

lemma murmur_m_inverse: "murmur_m * 0x5f7a0ea7e59b19bd = 1"
  by (simp add: murmur_m_def)

lemma mult_m_inject [simp]: "x * murmur_m = y * murmur_m \<longleftrightarrow> x = y"
proof
  assume "x * murmur_m = y * murmur_m"
  then have "x * (murmur_m * 0x5f7a0ea7e59b19bd) = y * (murmur_m * 0x5f7a0ea7e59b19bd)"
    by (simp only: mult.assoc [symmetric])
  then show "x = y" by (simp only: murmur_m_inverse mult_1_right)
qed simp

lemma xor_shift_twice: "(x XOR drop_bit murmur_r x) XOR drop_bit murmur_r (x XOR drop_bit murmur_r x) = (x :: u64)"
  by (rule bit_word_eqI) (auto simp: bit_simps murmur_r_def dest: bit_imp_le_length)

lemma xor_shift_inject [simp]: "x XOR drop_bit murmur_r x = y XOR drop_bit murmur_r y \<longleftrightarrow> x = (y :: u64)"
  by (metis xor_shift_twice)

lemma xor_inject [simp]: "h XOR x = h XOR y \<longleftrightarrow> x = (y :: u64)" "x XOR h = y XOR h \<longleftrightarrow> x = (y :: u64)"
  by (simp_all add: bit_eq_iff bit_xor_iff) blast+

definition murmur_mix :: "u64 \<Rightarrow> u64" where
  "murmur_mix v = (v * murmur_m XOR drop_bit murmur_r (v * murmur_m)) * murmur_m"

lemma murmur_mix_inject [simp]: "murmur_mix v = murmur_mix w \<longleftrightarrow> v = w"
  by (simp add: murmur_mix_def)

lemma murmur_loop_Suc:
  "murmur_loop load (Suc k) d h = murmur_loop load k (drop 8 d) ((h XOR murmur_mix (load (take 8 d))) * murmur_m)"
  by (simp add: murmur_mix_def Let_def)

lemma snd_murmur_loop: "snd (murmur_loop load k d h) = drop (8 * k) d"
  by (induction k arbitrary: d h) (simp_all add: murmur_loop_Suc add.commute del: murmur_loop.simps(2))

lemma fst_murmur_loop_inject [simp]:
  "fst (murmur_loop load k d h) = fst (murmur_loop load k d h') \<longleftrightarrow> h = h'"
  by (induction k arbitrary: d h h') (simp_all add: murmur_loop_Suc del: murmur_loop.simps(2))

lemma murmur_loop_add:
  "murmur_loop load (a + b) d h = murmur_loop load b (drop (8 * a) d) (fst (murmur_loop load a d h))"
proof (induction a arbitrary: d h)
  case (Suc a)
  then show ?case by (simp add: murmur_loop_Suc add.commute [of 8] del: murmur_loop.simps(2))
qed simp

lemma fst_murmur_loop_take: "8 * k \<le> n \<Longrightarrow> fst (murmur_loop load k (take n d) h) = fst (murmur_loop load k d h)"
proof (induction k arbitrary: n d h)
  case (Suc k)
  then have "take 8 (take n d) = take 8 d" "8 * k \<le> n - 8" by (simp_all add: min_def)
  then show ?case using Suc.IH [of "n - 8" "drop 8 d"]
    by (simp add: murmur_loop_Suc drop_take del: murmur_loop.simps(2) take_take)
qed simp

text \<open>The tail is the remaining bytes as one little-endian number.\<close>

definition tail_value :: "bytes \<Rightarrow> u64" where
  "tail_value bs = be_decode (rev bs)"

lemma tail_value_Cons: "tail_value (b # bs) = push_bit 8 (tail_value bs) XOR ucast b"
proof -
  have "push_bit 8 x OR ucast b = push_bit 8 x XOR (ucast b :: u64)" for x :: u64
    by (rule bit_word_eqI) (auto simp: bit_simps dest: bit_imp_le_length)
  then show ?thesis by (simp add: tail_value_def be_decode_snoc)
qed

lemma tail_value_inject:
  assumes "length bs = n" "length cs = n" "n \<le> 8" "tail_value bs = tail_value cs"
  shows "bs = cs"
  using be_decode_inject [of "rev bs" n "rev cs", where 'a = 64] assms by (simp add: tail_value_def)

lemma murmur_tail_eq:
  assumes "n < 8" "n \<le> length d"
  shows "murmur_tail n d h = (if n = 0 then h else (h XOR tail_value (take n d)) * murmur_m)"
proof -
  have "n = 0 \<or> n = 1 \<or> n = 2 \<or> n = 3 \<or> n = 4 \<or> n = 5 \<or> n = 6 \<or> n = 7" using assms(1) by linarith
  moreover have nil: "tail_value [] = 0" by (simp add: tail_value_def be_decode_def)
  moreover have "take n d = map (\<lambda>i. d ! i) [0..<n]" using assms(2) by (intro nth_equalityI) auto
  ultimately show ?thesis
    by (elim disjE) (simp_all add: murmur_tail_def tail_value_Cons nil upt_rec push_bit_xor xor.assoc xor.commute xor.left_commute Let_def
        flip: numeral_2_eq_2)
qed

text \<open>The hash as the composition of its bijective steps.\<close>

definition murmur_final :: "u64 \<Rightarrow> u64" where
  "murmur_final h =
     (let h = (h XOR drop_bit murmur_r h) * murmur_m in h XOR drop_bit murmur_r h)"

lemma murmur_final_inject [simp]: "murmur_final h = murmur_final h' \<longleftrightarrow> h = h'"
  by (simp add: murmur_final_def Let_def)

lemma murmur64_eq:
  "murmur64 load v seed =
     (let h = fst (murmur_loop load (length v div 8) v (seed XOR of_nat (length v) * murmur_m));
          rest = drop (8 * (length v div 8)) v
      in murmur_final (if length v mod 8 = 0 then h else (h XOR tail_value rest) * murmur_m))"
proof -
  let ?k = "length v div 8" and ?n = "length v mod 8"
  have l: "length (drop (8 * ?k) v) = ?n" by (simp add: minus_mult_div_eq_mod)
  obtain h where h: "murmur_loop load ?k v (seed XOR of_nat (length v) * murmur_m) = (h, drop (8 * ?k) v)"
    using snd_murmur_loop [of load ?k v "seed XOR of_nat (length v) * murmur_m"] by (metis prod.collapse)
  have n: "?n < 8" "?n \<le> length (drop (8 * ?k) v)" using l by simp_all
  have "take ?n (drop (8 * ?k) v) = drop (8 * ?k) v" using l by (metis order_refl take_all_iff)
  note tail = murmur_tail_eq [OF n, of h, unfolded this]
  show ?thesis unfolding murmur64_def h Let_def prod.case tail by (simp only: murmur_final_def Let_def fst_conv)
qed

lemma murmur64_seed_inject: "murmur64 load v s = murmur64 load v s' \<longleftrightarrow> s = s'"
  by (simp add: murmur64_eq Let_def)

text \<open>Two views of one length that differ only in the block of eight bytes with number \<open>k\<close>.\<close>

definition differ_in_block :: "nat \<Rightarrow> bytes \<Rightarrow> bytes \<Rightarrow> bool" where
  "differ_in_block k v w \<longleftrightarrow> length v = length w \<and> v \<noteq> w \<and> take (8 * k) v = take (8 * k) w
     \<and> drop (8 * k + 8) v = drop (8 * k + 8) w"

lemma loop_differs:
  assumes "inj_on load {b. length b = 8}" "length v = length w" "8 * k + 8 \<le> length v"
    and "take (8 * k) v = take (8 * k) w" "drop (8 * k + 8) v = drop (8 * k + 8) w"
    and "fst (murmur_loop load (Suc k + j) v h) = fst (murmur_loop load (Suc k + j) w h)"
  shows "v = w"
proof -
  have pre: "fst (murmur_loop load k v h) = fst (murmur_loop load k w h)"
    using fst_murmur_loop_take [of k "8 * k" load v h] fst_murmur_loop_take [of k "8 * k" load w h] assms(4) by simp
  have dr: "drop 8 (drop (8 * k) v) = drop 8 (drop (8 * k) w)" using assms(5) by (simp add: add.commute)
  have "murmur_loop load (Suc k + j) x h = murmur_loop load (Suc j) (drop (8 * k) x) (fst (murmur_loop load k x h))" for x
    using murmur_loop_add [of load k "Suc j" x h] by simp
  then have "load (take 8 (drop (8 * k) v)) = load (take 8 (drop (8 * k) w))"
    using assms(6) pre dr by (simp add: murmur_loop_Suc del: murmur_loop.simps(2))
  then have "take 8 (drop (8 * k) v) = take 8 (drop (8 * k) w)"
    using assms(1-3) by (auto dest: inj_onD)
  then show "v = w" using assms(4) dr by (metis append_take_drop_id)
qed

lemma murmur64_differs:
  assumes "inj_on load {b. length b = 8}" "differ_in_block k v w"
  shows "murmur64 load v s \<noteq> murmur64 load w s"
proof
  assume eq: "murmur64 load v s = murmur64 load w s"
  have d: "length v = length w" "v \<noteq> w" "take (8 * k) v = take (8 * k) w" "drop (8 * k + 8) v = drop (8 * k + 8) w"
    using assms(2) by (simp_all add: differ_in_block_def)
  define N where "N = length v div 8"
  have N: "8 * N \<le> length v" "length v < 8 * N + 8" unfolding N_def by linarith+
  let ?h = "s XOR of_nat (length v) * murmur_m"
  show False
  proof (cases "k < N")
    case True
    then obtain j where j: "N = Suc k + j" using less_imp_Suc_add by auto
    have "drop (8 * N) x = drop (8 * j) (drop (8 * k + 8) x)" for x :: bytes by (simp add: j algebra_simps)
    then have "drop (8 * N) v = drop (8 * N) w" using d(4) by metis
    then have "fst (murmur_loop load N v ?h) = fst (murmur_loop load N w ?h)"
      using eq d(1) by (simp add: murmur64_eq Let_def N_def split: if_splits)
    then have "v = w" using loop_differs [OF assms(1) d(1) _ d(3,4), of j ?h] N(1) unfolding j by simp
    then show False using d(2) by simp
  next
    case False
    then have "8 * N \<le> 8 * k" by simp
    then have same: "take (8 * N) v = take (8 * N) w" using d(3) by (metis min.absorb1 take_take)
    then have h: "fst (murmur_loop load N v ?h) = fst (murmur_loop load N w ?h)"
      using fst_murmur_loop_take [of N "8 * N" load v ?h] fst_murmur_loop_take [of N "8 * N" load w ?h] by simp
    have l: "length (drop (8 * N) v) < 8" "length (drop (8 * N) w) = length (drop (8 * N) v)" using N d(1) by auto
    have "length v mod 8 = 0 \<Longrightarrow> length v \<le> 8 * N" unfolding N_def by presburger
    moreover have "length v \<le> 8 * N \<Longrightarrow> False" using same d(1,2) by simp
    ultimately have "length v mod 8 \<noteq> 0" by blast
    then have "tail_value (drop (8 * N) v) = tail_value (drop (8 * N) w)"
      using eq h d(1) by (simp add: murmur64_eq Let_def N_def)
    then have "drop (8 * N) v = drop (8 * N) w" using l tail_value_inject by (metis less_imp_le)
    then show False using same d(2) by (metis append_take_drop_id)
  qed
qed

section \<open>Hash functions chosen at run time\<close>

text \<open>
  \<open>util/util_hash_dynamic.hpp\<close>: an \<open>Algorithm\<close> is an object with a virtual function, and a \<open>Hash\<close> refers to
  the one instance of a class of algorithms.  That instance is a static variable of
  \<open>AlgorithmSingleton::get\<close>, constructed by the first call: it is part of the state, together with the
  random generator that the constructor may call.
\<close>

record 'k algorithm =
  alg_hash :: "'k \<Rightarrow> u64"

type_synonym ('k, 'g) singleton = "'k algorithm option \<times> 'g"

definition singleton_get :: "('g \<Rightarrow> 'k algorithm \<times> 'g) \<Rightarrow> ('k, 'g) singleton \<Rightarrow> 'k algorithm \<times> ('k, 'g) singleton" where
  "singleton_get construct s =
     (case s of
        (Some i, g) \<Rightarrow> (i, (Some i, g))
      | (None, g) \<Rightarrow> (let (i, g') = construct g in (i, (Some i, g'))))"

record 'k dynamic_hash =
  m_algo :: "'k algorithm"

definition dynamic_hash_create ::
    "('g \<Rightarrow> 'k algorithm \<times> 'g) \<Rightarrow> ('k, 'g) singleton \<Rightarrow> 'k dynamic_hash \<times> ('k, 'g) singleton" where
  "dynamic_hash_create construct s = (let (a, s') = singleton_get construct s in (\<lparr>m_algo = a\<rparr>, s'))"

definition dynamic_hash_apply :: "'k dynamic_hash \<Rightarrow> 'k \<Rightarrow> u64" where
  "dynamic_hash_apply h v = alg_hash (m_algo h) v"

definition no_random :: "'g \<Rightarrow> u64 \<times> 'g" where
  "no_random g = (0, g)"

definition murmur_tid_construct :: "(bytes \<Rightarrow> u64) \<Rightarrow> ('g \<Rightarrow> u64 \<times> 'g) \<Rightarrow> 'g \<Rightarrow> bytes algorithm \<times> 'g" where
  "murmur_tid_construct load r g = (let (m_seed, g') = r g in (\<lparr>alg_hash = murmur_tid_hash load m_seed\<rparr>, g'))"

definition tid_hash_create ::
    "(bytes \<Rightarrow> u64) \<Rightarrow> ('g \<Rightarrow> u64 \<times> 'g) \<Rightarrow> (bytes, 'g) singleton \<Rightarrow> bytes dynamic_hash \<times> (bytes, 'g) singleton" where
  "tid_hash_create load r = dynamic_hash_create (murmur_tid_construct load r)"

text \<open>
  All hashes that are made from one class of algorithms are the same function, which calls the random
  generator once; a container keeps the hash it was made with.
\<close>

lemma dynamic_hash_create_again:
  assumes "dynamic_hash_create construct s = (h, s')"
  shows "dynamic_hash_create construct s' = (h, s')"
  using assms by (auto simp: dynamic_hash_create_def singleton_get_def Let_def split: prod.splits option.splits)

lemma tid_hash_create_first:
  "\<exists>h s'. tid_hash_create load r (None, g) = (h, s') \<and> snd s' = snd (r g) \<and>
     dynamic_hash_apply h = murmur_tid_hash load (fst (r g))"
  by (auto simp: tid_hash_create_def dynamic_hash_create_def singleton_get_def murmur_tid_construct_def
      dynamic_hash_apply_def fun_eq_iff Let_def split: prod.splits)

text \<open>
  The client's default has no random generator: every client of every process hashes with the seed
  zero, so that identifiers which fall into one bucket are the same ones everywhere.
\<close>

lemma default_tid_hash:
  "tid_hash_create load no_random (None, g) = (h, s') \<Longrightarrow> dynamic_hash_apply h = murmur_tid_hash load 0"
  using tid_hash_create_first [of load no_random g] by (auto simp: no_random_def)

section \<open>Properties\<close>

text \<open>
  C38.  Murmur never maps two different views of one length to the same hash when they differ only within
  one aligned block of eight bytes (in particular any two of at most eight bytes), under any seed, and it
  is a bijection of the seed.  So two paths between IPv4 addresses with a common source or a common
  target never collide, nor do two transaction identifiers that agree in their first eight or in their
  last four bytes.
\<close>

theorem murmur_separates:
  assumes "inj_on load {b. length b = 8}"
  shows "(murmur64 load v s = murmur64 load v s' \<longleftrightarrow> s = s')
    \<and> (differ_in_block k v w \<longrightarrow> murmur64 load v s \<noteq> murmur64 load w s)
    \<and> (length a = 4 \<and> length b = 4 \<and> length c = 4 \<and> a \<noteq> b \<longrightarrow>
         path_hash load \<lparr>p_source = AddressV4 a, p_target = AddressV4 c\<rparr> \<noteq> path_hash load \<lparr>p_source = AddressV4 b, p_target = AddressV4 c\<rparr>
         \<and> path_hash load \<lparr>p_source = AddressV4 c, p_target = AddressV4 a\<rparr> \<noteq> path_hash load \<lparr>p_source = AddressV4 c, p_target = AddressV4 b\<rparr>)
    \<and> (length x = 8 \<and> length y = 8 \<and> length a = 4 \<and> length b = 4 \<and> (x = y) \<noteq> (a = b) \<longrightarrow>
         murmur_tid_hash load s (x @ a) \<noteq> murmur_tid_hash load s (y @ b))"
proof -
  have short: "length a = 4 \<Longrightarrow> length b = 4 \<Longrightarrow> a \<noteq> b \<Longrightarrow> murmur64 load a t \<noteq> murmur64 load b t" for a b t
    using murmur64_differs [OF assms, of 0 a b t] by (simp add: differ_in_block_def)
  have tid: "murmur_tid_hash load s (x @ a) \<noteq> murmur_tid_hash load s (y @ b)"
    if l: "length x = 8" "length y = 8" "length a = 4" "length b = 4" and ne: "(x = y) \<noteq> (a = b)"
  proof -
    have "differ_in_block (if x = y then 1 else 0) (x @ a) (y @ b)" using l ne by (auto simp: differ_in_block_def)
    then show ?thesis using murmur64_differs [OF assms] by (simp add: murmur_tid_hash_def)
  qed
  show ?thesis using murmur64_seed_inject murmur64_differs [OF assms] short tid by (simp add: path_hash_def)
qed

theorem murmur_separates_witness:
  "path_hash be_decode \<lparr>p_source = AddressV4 [10, 0, 0, 1], p_target = AddressV4 [10, 0, 0, 9]\<rparr>
   \<noteq> path_hash be_decode \<lparr>p_source = AddressV4 [10, 0, 0, 2], p_target = AddressV4 [10, 0, 0, 9]\<rparr>"
proof -
  have "inj_on (be_decode :: bytes \<Rightarrow> u64) {b. length b = 8}" 
    by (rule inj_onI) (rule be_decode_inject [of _ 8 _, where 'a = 64], simp_all)
  from murmur_separates [OF this, where a = "[10, 0, 0, 1]" and b = "[10, 0, 0, 2]" and c = "[10, 0, 0, 9]"] show ?thesis by simp
qed

end
