(* ===== verification/Error_Texts.thy ===== *)
theory Error_Texts
  imports Text_Streams
begin

text \<open>
  Error codes and their texts: the \<open>make_error_code\<close> functions and the error categories of
  \<open>stun/stun_error.cpp\<close>, \<open>net/net_error.cpp\<close>, \<open>rtp/rtp_error.cpp\<close>, \<open>util/util_token_stream.cpp\<close>,
  \<open>ice/candidate/ice_candidate_error.cpp\<close>, \<open>util/util_error_code.cpp\<close>, \<open>util/util_error.cpp\<close> and
  \<open>node/node_stun/node_stun_error.cpp\<close>, \<open>crypto/openssl/openssl_error.cpp\<close> and
  \<open>node/openssl/node_openssl_error.cpp\<close>.  A \<open>std::error_code\<close> is a category and a number; two codes are
  equal when both agree.  The codes of the operating system, of the JavaScript engine and of
  \<open>Maybe::require\<close> belong to categories outside the repository; the texts of OpenSSL's codes come from
  \<open>ERR_error_string_n\<close>, which is the argument \<open>err_string\<close>.
\<close>

section \<open>Codes\<close>

datatype category =
    stun_parse_error_category
  | stun_client_error_category
  | net_error_category
  | rtp_error_category
  | token_stream_error_category
  | ice_error_category
  | node_stun_category
  | openssl_category
  | node_openssl_category

fun parse_error_code :: "parse_error \<Rightarrow> int" where
  "parse_error_code invalid_message_size = 1"
| "parse_error_code not_padded_attributes = 2"
| "parse_error_code invalid_message_len = 3"
| "parse_error_code invalid_magic_cookie = 4"
| "parse_error_code invalid_attr_size = 5"
| "parse_error_code invalid_mapped_addr = 6"
| "parse_error_code invalid_xor_mapped_addr = 7"
| "parse_error_code invalid_ipv4_address_size = 8"
| "parse_error_code invalid_ipv6_address_size = 9"
| "parse_error_code integrity_digest_size = 10"
| "parse_error_code fingerprint_crc_size = 11"
| "parse_error_code fingerprint_is_not_last = 12"
| "parse_error_code fingerprint_not_valid = 13"
| "parse_error_code priority_attribute_size = 14"
| "parse_error_code ice_controlled_size = 15"
| "parse_error_code ice_controlling_size = 16"
| "parse_error_code use_candidate_size = 17"
| "parse_error_code error_code_attribute_size = 18"
| "parse_error_code unknown_attributes_attribute_size = 19"
| "parse_error_code unknown_addr_family = 20"

fun client_error_code :: "client_error \<Rightarrow> int" where
  "client_error_code no_integrity_attribute_in_response = 1"
| "client_error_code digest_is_not_valid = 2"
| "client_error_code transaction_not_found = 3"
| "client_error_code no_address_in_response = 4"
| "client_error_code no_error_code_in_response = 5"
| "client_error_code no_alternate_server_in_response = 6"

fun net_error_code :: "net_error \<Rightarrow> int" where
  "net_error_code invalid_address_size = 1"
| "net_error_code ip_address_parse_error = 2"
| "net_error_code fqdn_invalid_label_expect_letter = 3"
| "net_error_code fqdn_not_fully_parsed = 4"
| "net_error_code invalid_port_value = 5"

fun rtp_error_code :: "rtp_error \<Rightarrow> int" where
  "rtp_error_code packet_is_too_short = 1"
| "rtp_error_code unknown_packet_version = 2"
| "rtp_error_code invalid_payload_type = 3"
| "rtp_error_code unknown_rtp_clock = 4"
| "rtp_error_code invalid_extension_length = 5"
| "rtp_error_code invalid_packet_padding = 6"

fun token_error_code :: "token_error \<Rightarrow> int" where
  "token_error_code no_required_token = 1"
| "token_error_code expected_token_missed = 2"

fun ice_error_code :: "ice_error \<Rightarrow> int" where
  "ice_error_code invalid_attr_prefix = 1"
| "ice_error_code invalid_candidate_parts_number = 2"
| "ice_error_code candidate_type_absent = 3"
| "ice_error_code unknown_candidate_type = 4"
| "ice_error_code invalid_foundation_length = 5"
| "ice_error_code invalid_foundation_char = 6"
| "ice_error_code invalid_component_id_length = 7"
| "ice_error_code invalid_component_id_char = 8"
| "ice_error_code invalid_component_id_value = 9"
| "ice_error_code unknown_transport_type = 10"
| "ice_error_code invalid_priority_length = 11"
| "ice_error_code invalid_priority_value = 12"
| "ice_error_code invalid_type_preference_value = 13"
| "ice_error_code invalid_component_preference_value = 14"
| "ice_error_code invalid_local_preference_value = 15"

fun node_error_code :: "node_error \<Rightarrow> int" where
  "node_error_code unknown_stun_method = 1"
| "node_error_code unknown_stun_class = 2"
| "node_error_code invalid_ip_address = 3"
| "node_error_code invalid_port_number = 4"

text \<open>\<open>None\<close>: the code belongs to a category outside the repository.\<close>

fun make_error_code :: "error \<Rightarrow> (category \<times> int) option" where
  "make_error_code (ParseError e) = Some (stun_parse_error_category, parse_error_code e)"
| "make_error_code (ClientError e) = Some (stun_client_error_category, client_error_code e)"
| "make_error_code (NetError e) = Some (net_error_category, net_error_code e)"
| "make_error_code (RtpError e) = Some (rtp_error_category, rtp_error_code e)"
| "make_error_code (TokenError e) = Some (token_stream_error_category, token_error_code e)"
| "make_error_code (IceError e) = Some (ice_error_category, ice_error_code e)"
| "make_error_code (NodeError e) = Some (node_stun_category, node_error_code e)"
| "make_error_code ValueRequired = None"
| "make_error_code (OpenSSLError code) = Some (openssl_category, code)"
| "make_error_code (NodeOpenSSLError code) = Some (node_openssl_category, code)"
| "make_error_code (SystemError _) = None"
| "make_error_code (NapiError _) = None"

section \<open>Texts\<close>

definition to_string_int :: "int \<Rightarrow> string" where
  \<comment> \<open>\<open>std::to_string\<close> of an \<open>int\<close>\<close>
  "to_string_int n = (if n < 0 then CHR ''-'' # dec_string (nat (- n)) else dec_string (nat n))"

definition switch_text :: "(int \<times> string) list \<Rightarrow> string \<Rightarrow> int \<Rightarrow> string" where
  "switch_text cases dflt code = (case map_of cases code of Some t \<Rightarrow> t | None \<Rightarrow> dflt)"

definition parse_texts :: "(int \<times> string) list" where
  "parse_texts =
     [(0, ''success''),
      (parse_error_code invalid_message_size, ''invalid message size''),
      (parse_error_code not_padded_attributes, ''not padded attributes''),
      (parse_error_code invalid_message_len, ''invalid message length''),
      (parse_error_code invalid_magic_cookie, ''invalid magic cookie''),
      (parse_error_code invalid_attr_size, ''invalid attr size''),
      (parse_error_code invalid_mapped_addr, ''invalid mapped address''),
      (parse_error_code invalid_xor_mapped_addr, ''invalid xor mapped address''),
      (parse_error_code invalid_ipv4_address_size, ''invalid ipv4 address size''),
      (parse_error_code invalid_ipv6_address_size, ''invalid ipv6 address size''),
      (parse_error_code integrity_digest_size, ''invalid integrity digest size''),
      (parse_error_code fingerprint_crc_size, ''invalid fingerprint crc size''),
      (parse_error_code fingerprint_is_not_last, ''fingerprint attribute is not the last''),
      (parse_error_code fingerprint_not_valid, ''fingerprint is not valid''),
      (parse_error_code priority_attribute_size, ''priority attribute size''),
      (parse_error_code ice_controlled_size, ''invalid ice controlled attribute size''),
      (parse_error_code ice_controlling_size, ''invalid ice controlling attribute size''),
      (parse_error_code use_candidate_size, ''invalid use candidate size''),
      (parse_error_code error_code_attribute_size, ''invalid error code attribute size''),
      (parse_error_code unknown_attributes_attribute_size, ''invalid unknown attributes attribute size''),
      (parse_error_code unknown_addr_family, ''unknown addr family'')]"

definition parse_category_text :: "int \<Rightarrow> string" where
  "parse_category_text code = switch_text parse_texts ''unknown stun error'' code"

definition client_texts :: "(int \<times> string) list" where
  "client_texts =
     [(0, ''success''),
      (client_error_code no_integrity_attribute_in_response, ''no expect integrity attribute in response''),
      (client_error_code digest_is_not_valid, ''digest is not valid in response''),
      (client_error_code transaction_not_found, ''transaction of response is not found''),
      (client_error_code no_address_in_response, ''bad response: no address in response''),
      (client_error_code no_error_code_in_response, ''bad response: no error code attribute in response''),
      (client_error_code no_alternate_server_in_response, ''bad response: no alternate server in 300 response'')]"

definition client_category_text :: "int \<Rightarrow> string" where
  "client_category_text code = switch_text client_texts ''unknown stun client error'' code"

definition net_texts :: "(int \<times> string) list" where
  "net_texts =
     [(0, ''success''),
      (net_error_code invalid_address_size, ''invalid data size to initialize address''),
      (net_error_code ip_address_parse_error, ''cannot parse IP address''),
      (net_error_code fqdn_invalid_label_expect_letter, ''invalid FQDN label: expect letter''),
      (net_error_code fqdn_not_fully_parsed, ''FQDN is not fully parsed''),
      (net_error_code invalid_port_value, ''invalid port value'')]"

definition net_category_text :: "int \<Rightarrow> string" where
  "net_category_text code = switch_text net_texts ''unknown stun error'' code"

definition rtp_texts :: "(int \<times> string) list" where
  "rtp_texts =
     [(0, ''success''),
      (rtp_error_code packet_is_too_short, ''rtp packet is too short''),
      (rtp_error_code unknown_packet_version, ''rtp packet version is unknown''),
      (rtp_error_code invalid_payload_type, ''rtp packet with invalid payload type''),
      (rtp_error_code unknown_rtp_clock, ''unknown rtp clock rate''),
      (rtp_error_code invalid_extension_length, ''invalid extension length''),
      (rtp_error_code invalid_packet_padding, ''invalid packet padding'')]"

definition rtp_category_text :: "int \<Rightarrow> string" where
  "rtp_category_text code = switch_text rtp_texts ''unknown rtp error'' code"

definition token_texts :: "(int \<times> string) list" where
  "token_texts =
     [(0, ''Success''),
      (token_error_code no_required_token, ''No required token''),
      (token_error_code expected_token_missed, ''Expected token is missed'')]"

definition token_category_text :: "int \<Rightarrow> string" where
  "token_category_text code = switch_text token_texts (''Unknown token stream error: '' @ to_string_int code) code"

definition ice_texts :: "(int \<times> string) list" where
  "ice_texts =
     [(0, ''Success''),
      (ice_error_code invalid_attr_prefix, ''Invalid attribute prefix''),
      (ice_error_code invalid_candidate_parts_number, ''Invalid candidate string number of tokens''),
      (ice_error_code candidate_type_absent, ''Candidate type is absent in candidate string''),
      (ice_error_code unknown_candidate_type, ''Candidate type is unknown''),
      (ice_error_code invalid_foundation_length, ''Invalid length of foundation string''),
      (ice_error_code invalid_foundation_char, ''Invalid char in foundation string''),
      (ice_error_code invalid_component_id_length, ''Invalid length of component id''),
      (ice_error_code invalid_component_id_char, ''Invalid char in component id''),
      (ice_error_code invalid_component_id_value, ''Invalid value of component id''),
      (ice_error_code unknown_transport_type, ''Transport type is unknown''),
      (ice_error_code invalid_priority_length, ''Invalid candidate priority length''),
      (ice_error_code invalid_priority_value, ''Invalid candidate priority value''),
      (ice_error_code invalid_type_preference_value, ''Invalid candidate type preference value''),
      (ice_error_code invalid_component_preference_value, ''Invalid component preference value''),
      (ice_error_code invalid_local_preference_value, ''Invalid local preference value'')]"

definition ice_category_text :: "int \<Rightarrow> string" where
  "ice_category_text code = switch_text ice_texts (''Unknown ice candidate error: '' @ to_string_int code) code"

definition node_texts :: "(int \<times> string) list" where
  "node_texts =
     [(0, ''Success''),
      (node_error_code unknown_stun_method, ''Unknown stun method''),
      (node_error_code unknown_stun_class, ''Unknown stun class''),
      (node_error_code invalid_ip_address, ''Invalid IP address''),
      (node_error_code invalid_port_number, ''Invalid port number'')]"

definition node_category_text :: "int \<Rightarrow> string" where
  "node_category_text code = switch_text node_texts (''Unknown node stun code: '' @ to_string_int code) code"

definition util_category_text :: "int \<Rightarrow> string" where
  "util_category_text code = switch_text [(0, ''success''), (1, ''value required'')] ''unknown util error'' code"

fun category_name :: "category \<Rightarrow> string" where
  "category_name stun_parse_error_category = ''stun parse error''"
| "category_name stun_client_error_category = ''stun client error''"
| "category_name net_error_category = ''net error''"
| "category_name rtp_error_category = ''net error''"
| "category_name token_stream_error_category = ''token stream error''"
| "category_name ice_error_category = ''ice candidate error''"
| "category_name node_stun_category = ''node stun''"
| "category_name openssl_category = ''OpenSSL''"
| "category_name node_openssl_category = ''OpenSSL''"

definition openssl_category_text :: "(int \<Rightarrow> string) \<Rightarrow> int \<Rightarrow> string" where
  \<comment> \<open>the buffer has 256 characters, the last of them the end of the string\<close>
  "openssl_category_text err_string code = take 255 (err_string code)"

definition node_openssl_category_text :: "(int \<Rightarrow> string) \<Rightarrow> int \<Rightarrow> string" where
  "node_openssl_category_text err_string code = take 255 (err_string code)"

fun category_message :: "(int \<Rightarrow> string) \<Rightarrow> category \<Rightarrow> int \<Rightarrow> string" where
  "category_message err_string stun_parse_error_category = parse_category_text"
| "category_message err_string stun_client_error_category = client_category_text"
| "category_message err_string net_error_category = net_category_text"
| "category_message err_string rtp_error_category = rtp_category_text"
| "category_message err_string token_stream_error_category = token_category_text"
| "category_message err_string ice_error_category = ice_category_text"
| "category_message err_string node_stun_category = node_category_text"
| "category_message err_string openssl_category = openssl_category_text err_string"
| "category_message err_string node_openssl_category = node_openssl_category_text err_string"

definition code_message :: "(int \<Rightarrow> string) \<Rightarrow> (error \<Rightarrow> string) \<Rightarrow> error \<Rightarrow> string" where
  \<comment> \<open>\<open>std::error_code::message\<close>; the argument \<open>ext\<close> gives the texts of the outside categories\<close>
  "code_message err_string ext e =
     (case make_error_code e of Some (cat, code) \<Rightarrow> category_message err_string cat code | None \<Rightarrow> ext e)"

definition error_message :: "(int \<Rightarrow> string) \<Rightarrow> (error \<Rightarrow> string) \<Rightarrow> string list \<Rightarrow> error \<Rightarrow> string" where
  "error_message err_string ext context e = join (rev context @ [code_message err_string ext e]) '': ''"

section \<open>Properties\<close>

definition own_errors :: "error list" where
  "own_errors =
     map ParseError [invalid_message_size, not_padded_attributes, invalid_message_len, invalid_magic_cookie,
       invalid_attr_size, invalid_mapped_addr, invalid_xor_mapped_addr, invalid_ipv4_address_size,
       invalid_ipv6_address_size, integrity_digest_size, fingerprint_crc_size, fingerprint_is_not_last,
       fingerprint_not_valid, priority_attribute_size, ice_controlled_size, ice_controlling_size,
       use_candidate_size, error_code_attribute_size, unknown_attributes_attribute_size, unknown_addr_family] @
     map ClientError [no_integrity_attribute_in_response, digest_is_not_valid, transaction_not_found,
       no_address_in_response, no_error_code_in_response, no_alternate_server_in_response] @
     map NetError [invalid_address_size, ip_address_parse_error, fqdn_invalid_label_expect_letter,
       fqdn_not_fully_parsed, invalid_port_value] @
     map RtpError [packet_is_too_short, unknown_packet_version, invalid_payload_type, unknown_rtp_clock,
       invalid_extension_length, invalid_packet_padding] @
     map TokenError [no_required_token, expected_token_missed] @
     map IceError [invalid_attr_prefix, invalid_candidate_parts_number, candidate_type_absent,
       unknown_candidate_type, invalid_foundation_length, invalid_foundation_char,
       invalid_component_id_length, invalid_component_id_char, invalid_component_id_value,
       unknown_transport_type, invalid_priority_length, invalid_priority_value,
       invalid_type_preference_value, invalid_component_preference_value, invalid_local_preference_value] @
     map NodeError [unknown_stun_method, unknown_stun_class, invalid_ip_address, invalid_port_number]"

definition enumerated :: "error \<Rightarrow> bool" where
  "enumerated e \<longleftrightarrow> (\<exists>cat code. make_error_code e = Some (cat, code) \<and> cat \<noteq> openssl_category \<and> cat \<noteq> node_openssl_category)"

lemma own_errors_complete: "enumerated e \<longleftrightarrow> e \<in> set own_errors"
proof (cases e)
  case (ParseError p) then show ?thesis by (cases p) (simp_all add: own_errors_def enumerated_def)
next
  case (ClientError p) then show ?thesis by (cases p) (simp_all add: own_errors_def enumerated_def)
next
  case (NetError p) then show ?thesis by (cases p) (simp_all add: own_errors_def enumerated_def)
next
  case (RtpError p) then show ?thesis by (cases p) (simp_all add: own_errors_def enumerated_def)
next
  case (TokenError p) then show ?thesis by (cases p) (simp_all add: own_errors_def enumerated_def)
next
  case (IceError p) then show ?thesis by (cases p) (simp_all add: own_errors_def enumerated_def)
next
  case (NodeError p) then show ?thesis by (cases p) (simp_all add: own_errors_def enumerated_def)
qed (auto simp: own_errors_def enumerated_def)

definition own_text :: "error \<Rightarrow> string" where
  "own_text e = code_message (\<lambda>_. []) (\<lambda>_. []) e"

lemma own_texts_distinct: "distinct (map own_text own_errors)"
  by code_simp

lemma own_texts_no_success: "\<forall>e \<in> set own_errors. own_text e \<notin> {''success'', ''Success''}"
  by code_simp

lemma own_text: "enumerated e \<Longrightarrow> code_message err_string ext e = own_text e"
proof -
  assume "enumerated e"
  then obtain cat code where "make_error_code e = Some (cat, code)" "cat \<noteq> openssl_category" "cat \<noteq> node_openssl_category"
    by (auto simp: enumerated_def)
  then show ?thesis by (cases cat) (simp_all add: own_text_def code_message_def)
qed

lemma own_text_inj:
  assumes "enumerated e" "enumerated e'" "own_text e' = own_text e"
  shows "e' = e"
  using assms own_texts_distinct unfolding own_errors_complete distinct_map inj_on_def by metis

lemma same_code:
  assumes "make_error_code e' = make_error_code e" "enumerated e"
  shows "enumerated e'" "own_text e' = own_text e"
  using assms by (simp_all add: enumerated_def own_text_def code_message_def)

text \<open>
  The errors of the program's enumerations are identified by their code (category and number) and by the
  text that their category gives it: such an error shares its code with no other error, has a text of
  its own among them, and never reads as a success.
\<close>

theorem error_texts_identify:
  assumes "enumerated e"
  shows "(make_error_code e' = make_error_code e \<longrightarrow> e' = e)
    \<and> (enumerated e' \<and> code_message err_string ext e' = code_message err_string ext e \<longrightarrow> e' = e)
    \<and> code_message err_string ext e \<notin> {''success'', ''Success''}"
proof -
  have "e' = e" if "make_error_code e' = make_error_code e"
    using same_code [OF that assms] assms by (intro own_text_inj)
  moreover have "e' = e" if "enumerated e'" "code_message err_string ext e' = code_message err_string ext e"
    using that assms by (intro own_text_inj) (simp_all add: own_text)
  moreover have "code_message err_string ext e \<notin> {''success'', ''Success''}"
    using assms own_texts_no_success own_errors_complete [of e] by (simp add: own_text)
  ultimately show ?thesis by blast
qed

theorem error_texts_identify_witness:
  "\<forall>e'. make_error_code e' = Some (net_error_category, 5) \<longrightarrow> e' = NetError invalid_port_value"
  using error_texts_identify [of "NetError invalid_port_value"] by (simp add: enumerated_def)

end
