(* ===== verification/Napi.thy ===== *)
theory Napi
  imports Text_Streams Net_Names
begin

text \<open>
  JavaScript values.  The Node.js bindings build and read them through the package \<open>craftnapi\<close>, whose
  code is not part of the repository: its operations are the record \<open>napi\<close>, a parameter of the
  definitions that model the bindings, and locale \<open>js_values\<close> states what they rely on.  \<open>Value\<close> and
  \<open>Object\<close> are one type of values here, and \<open>Object::fmap_to_value\<close> is the identity.  An entry of
  \<open>create_object\<close> is a name and a \<open>Maybe<Result<Value>>\<close>.  A \<open>CallbackInfo\<close> is the function from an
  index to the argument.

  \<open>datatype js\<close> with \<open>js_napi\<close> is an executable instance of the contract.
\<close>

record 'v napi =
  as_object :: "'v \<Rightarrow> 'v result"
  as_string :: "'v \<Rightarrow> string result"
  as_buffer :: "'v \<Rightarrow> bytes result"
  as_int32 :: "'v \<Rightarrow> u32 result"
  as_boolean :: "'v \<Rightarrow> bool result"
  named_property :: "string \<Rightarrow> 'v \<Rightarrow> 'v result"
  maybe_named_property :: "string \<Rightarrow> 'v \<Rightarrow> 'v option result"
  create_string :: "string \<Rightarrow> 'v result"
  create_buffer :: "bytes \<Rightarrow> 'v result"
  create_int32 :: "u32 \<Rightarrow> 'v result"
  create_uint32 :: "u32 \<Rightarrow> 'v result"
  create_bigint_uint64 :: "u64 \<Rightarrow> 'v result"
  create_boolean :: "bool \<Rightarrow> 'v result"
  create_null :: "'v result"
  create_undefined :: "'v result"
  create_object :: "(string \<times> 'v result option) list \<Rightarrow> 'v result"
  wrap :: "'v \<Rightarrow> 'v result"
  create_array :: "'v result list \<Rightarrow> 'v result"
  error_text :: "error \<Rightarrow> string"

text \<open>
  A \<open>std::string\<close> is a list of characters where the program treats it as text and a list of bytes where
  it goes into a message.  \<open>int32_t\<close> arguments are their 32 bits, read as two's complement.
\<close>

definition str_bytes :: "string \<Rightarrow> bytes" where
  "str_bytes s = map (\<lambda>c. of_nat (of_char c)) s"

definition bytes_str :: "bytes \<Rightarrow> string" where
  "bytes_str b = map (\<lambda>w. char_of (unat w)) b"

lemma str_bytes_str [simp]: "str_bytes (bytes_str b) = b"
proof -
  have "of_nat (of_char (char_of (unat w))) = w" for w :: u8
    using unsigned_less [of w, where 'a = nat] by simp
  then show ?thesis by (simp add: str_bytes_def bytes_str_def o_def)
qed

lemma bytes_str_bytes [simp]: "bytes_str (str_bytes s) = s"
proof -
  have "unat (of_nat (of_char c) :: u8) = of_char c" for c
  proof (rule unat_of_nat_small)
    have "(of_char c :: nat) = of_char c mod 256" by simp
    then show "(of_char c :: nat) < 2 ^ LENGTH(8)" using mod_less_divisor [of 256 "of_char c :: nat"] by simp
  qed
  then show ?thesis by (simp add: str_bytes_def bytes_str_def o_def)
qed

definition ascii :: "string \<Rightarrow> bool" where
  "ascii s \<longleftrightarrow> list_all (\<lambda>c. (of_char c :: nat) < 128) s"

abbreviation to_int32 :: "int \<Rightarrow> u32" where
  "to_int32 i \<equiv> word_of_int i"

section \<open>Sequencing with a conversion that may not end\<close>

definition obind :: "'a result option \<Rightarrow> ('a \<Rightarrow> 'b result option) \<Rightarrow> 'b result option" where
  "obind m f = Option.bind m (\<lambda>r. case r of Inl e \<Rightarrow> Some (Inl e) | Inr x \<Rightarrow> f x)"

definition omaybe :: "'a option \<Rightarrow> ('a \<Rightarrow> 'b result option) \<Rightarrow> 'b result option option" where
  \<comment> \<open>\<open>Maybe::fmap\<close> with such a conversion: an entry of an object, if the conversion ends\<close>
  "omaybe m f = (case m of None \<Rightarrow> Some None | Some x \<Rightarrow> map_option Some (f x))"

lemma obind_simps [simp]:
  "obind None f = None" "obind (Some (Inl e)) f = Some (Inl e)" "obind (Some (Inr x)) f = f x"
  by (simp_all add: obind_def)

lemma omaybe_simps [simp]: "omaybe None f = Some None" "omaybe (Some x) f = map_option Some (f x)"
  by (simp_all add: omaybe_def)

section \<open>The contract\<close>

definition entry_err :: "string \<times> 'v result option \<Rightarrow> error list" where
  "entry_err e = (case snd e of Some (Inl x) \<Rightarrow> [x] | _ \<Rightarrow> [])"

lemma entry_err_simps [simp]:
  "entry_err (k, None) = []" "entry_err (k, Some (Inr v)) = []" "entry_err (k, Some (Inl x)) = [x]"
  by (simp_all add: entry_err_def)

locale js_values =
  fixes n :: "'v napi"
  assumes create_string_ok: "\<exists>v. create_string n s = Inr v \<and> (ascii s \<longrightarrow> as_string n v = Inr s)"
    and create_buffer_ok: "\<exists>v. create_buffer n b = Inr v \<and> as_buffer n v = Inr b"
    and create_int32_ok: "\<exists>v. create_int32 n i = Inr v \<and> as_int32 n v = Inr i"
    and create_uint32_ok: "\<exists>v. create_uint32 n u = Inr v"
    and create_bigint_ok: "\<exists>v. create_bigint_uint64 n w = Inr v"
    and create_boolean_ok: "\<exists>v. create_boolean n x = Inr v \<and> as_boolean n v = Inr x"
    and create_null_ok: "\<exists>v. create_null n = Inr v"
    and create_undefined_ok: "\<exists>v. create_undefined n = Inr v"
    and create_object_ok:
      "\<lbrakk>concat (map entry_err es) = []; distinct (map fst es)\<rbrakk> \<Longrightarrow>
       \<exists>obj. create_object n es = Inr obj \<and> as_object n obj = Inr obj \<and>
         (\<forall>k v. (k, Some (Inr v)) \<in> set es \<longrightarrow> maybe_named_property n k obj = Inr (Some v))"
    and create_object_err:
      "concat (map entry_err es) \<noteq> [] \<Longrightarrow> \<exists>e \<in> set (concat (map entry_err es)). create_object n es = Inl e"
    and create_array_ok: "(\<forall>r \<in> set rs. \<not> is_err r) \<Longrightarrow> \<exists>v. create_array n rs = Inr v"
    and create_array_err: "r \<in> set rs \<Longrightarrow> is_err r \<Longrightarrow> is_err (create_array n rs)"
    and named_property_ok: "maybe_named_property n k obj = Inr (Some v) \<Longrightarrow> named_property n k obj = Inr v"
begin

text \<open>An object shows each entry under its name, and creating it fails exactly when an entry has failed.\<close>

lemma object_of:
  assumes "concat (map entry_err es) = []" "distinct (map fst es)"
  obtains obj where "create_object n es = Inr obj" "as_object n obj = Inr obj"
    "list_all (\<lambda>(k, m). \<forall>v. m = Some (Inr v) \<longrightarrow> named_property n k obj = Inr v) es"
proof -
  obtain obj where obj: "create_object n es = Inr obj" "as_object n obj = Inr obj"
    "\<forall>k v. (k, Some (Inr v)) \<in> set es \<longrightarrow> maybe_named_property n k obj = Inr (Some v)"
    using create_object_ok [OF assms] by (elim exE conjE) (rule that)
  then have "list_all (\<lambda>(k, m). \<forall>v. m = Some (Inr v) \<longrightarrow> named_property n k obj = Inr v) es"
    by (auto simp: list_all_iff intro: named_property_ok)
  then show ?thesis using that obj(1,2) by simp
qed

lemma create_object_Inr:
  assumes "create_object n es = Inr obj" "distinct (map fst es)"
  shows "concat (map entry_err es) = []" "as_object n obj = Inr obj"
    "list_all (\<lambda>(k, m). \<forall>v. m = Some (Inr v) \<longrightarrow> named_property n k obj = Inr v) es"
proof -
  show es: "concat (map entry_err es) = []"
    using create_object_err [of es] assms(1) by (metis Inr_not_Inl)
  obtain obj' where obj': "create_object n es = Inr obj'" "as_object n obj' = Inr obj'"
    "list_all (\<lambda>(k, m). \<forall>v. m = Some (Inr v) \<longrightarrow> named_property n k obj' = Inr v) es"
    by (rule object_of [OF es assms(2)])
  have "obj' = obj" using obj'(1) assms(1) by simp
  then show "as_object n obj = Inr obj"
    "list_all (\<lambda>(k, m). \<forall>v. m = Some (Inr v) \<longrightarrow> named_property n k obj = Inr v) es"
    using obj'(2,3) by simp_all
qed

end

section \<open>An instance\<close>

datatype js =
    JUndefined
  | JNull
  | JBool bool
  | JNumber int
  | JBigint int
  | JString string
  | JBuffer bytes
  | JArray "js list"
  | JObject "(string \<times> js) list"

abbreviation type_expected :: "'a result" where
  "type_expected \<equiv> Inl (NapiError 1)"

fun js_entries :: "(string \<times> js result option) list \<Rightarrow> (string \<times> js) list result" where
  "js_entries [] = Inr []"
| "js_entries ((k, None) # es) = js_entries es"
| "js_entries ((k, Some (Inl e)) # es) = Inl e"
| "js_entries ((k, Some (Inr v)) # es) = rmap (\<lambda>ps. (k, v) # ps) (js_entries es)"

fun js_elements :: "js result list \<Rightarrow> js list result" where
  "js_elements [] = Inr []"
| "js_elements (Inl e # rs) = Inl e"
| "js_elements (Inr v # rs) = rmap (\<lambda>vs. v # vs) (js_elements rs)"

definition js_napi :: "js napi" where
  "js_napi = \<lparr>
     as_object = (\<lambda>v. case v of JObject _ \<Rightarrow> Inr v | _ \<Rightarrow> type_expected),
     as_string = (\<lambda>v. case v of JString s \<Rightarrow> Inr s | _ \<Rightarrow> type_expected),
     as_buffer = (\<lambda>v. case v of JBuffer b \<Rightarrow> Inr b | _ \<Rightarrow> type_expected),
     as_int32 = (\<lambda>v. case v of JNumber i \<Rightarrow> Inr (word_of_int i) | _ \<Rightarrow> type_expected),
     as_boolean = (\<lambda>v. case v of JBool b \<Rightarrow> Inr b | _ \<Rightarrow> type_expected),
     named_property = (\<lambda>k v. case v of
        JObject ps \<Rightarrow> Inr (case map_of ps k of Some x \<Rightarrow> x | None \<Rightarrow> JUndefined) | _ \<Rightarrow> type_expected),
     maybe_named_property = (\<lambda>k v. case v of JObject ps \<Rightarrow> Inr (map_of ps k) | _ \<Rightarrow> type_expected),
     create_string = (\<lambda>s. Inr (JString s)),
     create_buffer = (\<lambda>b. Inr (JBuffer b)),
     create_int32 = (\<lambda>i. Inr (JNumber (sint i))),
     create_uint32 = (\<lambda>i. Inr (JNumber (uint i))),
     create_bigint_uint64 = (\<lambda>i. Inr (JBigint (uint i))),
     create_boolean = (\<lambda>b. Inr (JBool b)),
     create_null = Inr JNull,
     create_undefined = Inr JUndefined,
     create_object = (\<lambda>es. rmap JObject (js_entries es)),
     wrap = (\<lambda>obj. Inr obj),
     create_array = (\<lambda>rs. rmap JArray (js_elements rs)),
     error_text = (\<lambda>_. ''error'')\<rparr>"

definition js_args :: "js list \<Rightarrow> nat \<Rightarrow> js result" where
  "js_args vs i = (if i < length vs then Inr (vs ! i) else Inl (NapiError 1))"

lemma js_entries_ok:
  assumes "concat (map entry_err es) = []"
  shows "\<exists>ps. js_entries es = Inr ps \<and>
    (distinct (map fst es) \<longrightarrow> (\<forall>k v. (k, Some (Inr v)) \<in> set es \<longrightarrow> map_of ps k = Some v))"
  using assms
proof (induction es rule: js_entries.induct)
  case (4 k v es)
  then obtain ps where ps: "js_entries es = Inr ps"
    "distinct (map fst es) \<longrightarrow> (\<forall>k v. (k, Some (Inr v)) \<in> set es \<longrightarrow> map_of ps k = Some v)" by auto
  have "map_of ((k, v) # ps) k' = Some v'"
    if "distinct (map fst ((k, Some (Inr v)) # es))" "(k', Some (Inr v')) \<in> set ((k, Some (Inr v)) # es)" for k' v'
  proof (cases "k' = k")
    case True
    then have "(k', Some (Inr v')) \<notin> set es" using that(1) by force
    then show ?thesis using that(2) True by simp
  next
    case False
    then show ?thesis using that ps(2) by simp
  qed
  then show ?case using ps(1) by auto
qed auto

lemma js_entries_err:
  "concat (map entry_err es) \<noteq> [] \<Longrightarrow> \<exists>e \<in> set (concat (map entry_err es)). js_entries es = Inl e"
  by (induction es rule: js_entries.induct) auto

lemma js_elements_ok: "(\<forall>r \<in> set rs. \<not> is_err r) \<Longrightarrow> \<exists>vs. js_elements rs = Inr vs"
  by (induction rs rule: js_elements.induct) auto

lemma js_elements_err: "r \<in> set rs \<Longrightarrow> is_err r \<Longrightarrow> is_err (js_elements rs)"
  by (induction rs rule: js_elements.induct) (auto simp: is_err_def rmap_def split: sum.splits)

interpretation js: js_values js_napi
proof unfold_locales
  fix es :: "(string \<times> js result option) list"
  show "\<exists>obj. create_object js_napi es = Inr obj \<and> as_object js_napi obj = Inr obj \<and>
      (\<forall>k v. (k, Some (Inr v)) \<in> set es \<longrightarrow> maybe_named_property js_napi k obj = Inr (Some v))"
    if "concat (map entry_err es) = []" "distinct (map fst es)"
    using js_entries_ok [OF that(1)] that(2) by (auto simp: js_napi_def)
  show "\<exists>e \<in> set (concat (map entry_err es)). create_object js_napi es = Inl e" if "concat (map entry_err es) \<noteq> []"
    using js_entries_err [OF that] by (auto simp: js_napi_def)
next
  fix rs :: "js result list"
  show "\<exists>v. create_array js_napi rs = Inr v" if "\<forall>r \<in> set rs. \<not> is_err r"
    using js_elements_ok [OF that] by (auto simp: js_napi_def)
  show "is_err (create_array js_napi rs)" if "r \<in> set rs" "is_err r" for r
    using js_elements_err [OF that] by (auto simp: js_napi_def is_err_def split: sum.splits)
next
  show "named_property js_napi k obj = Inr v" if "maybe_named_property js_napi k obj = Inr (Some v)" for k obj v
    using that by (auto simp: js_napi_def split: js.splits)
qed (simp_all add: js_napi_def)

end
