(* ===== verification/Node_Message.thy ===== *)
theory Node_Message
  imports Napi Stun_Server
begin

text \<open>
  STUN messages as JavaScript objects: \<open>node/node_stun/node_stun_header.cpp\<close> and
  \<open>node/node_stun/node_stun_message.cpp\<close>.  The text of an address comes from a loop that may not end;
  the results are optional for that reason only.
\<close>

fun node_stun_class :: "'v napi \<Rightarrow> stun_class \<Rightarrow> 'v result" where
  "node_stun_class n REQUEST = create_string n ''request''"
| "node_stun_class n INDICATION = create_string n ''indication''"
| "node_stun_class n SUCCESS_RESPONSE = create_string n ''success_response''"
| "node_stun_class n ERROR_RESPONSE = create_string n ''error_response''"

definition node_stun_method :: "'v napi \<Rightarrow> stun_method \<Rightarrow> 'v result" where
  "node_stun_method n method =
     (if method = binding_method then create_string n ''binding'' else Inl (NodeError unknown_stun_method))"

definition node_transaction_id :: "'v napi \<Rightarrow> transaction_id \<Rightarrow> 'v result" where
  "node_transaction_id n tid = create_buffer n tid"

definition node_header :: "'v napi \<Rightarrow> header \<Rightarrow> 'v result" where
  "node_header n hdr =
     create_object n
       [(''class'', Some (node_stun_class n (h_cls hdr))),
        (''method'', Some (node_stun_method n (h_method hdr))),
        (''transaction'', Some (node_transaction_id n (h_transaction_id hdr)))]"

definition node_xor_mapped :: "'v napi \<Rightarrow> craftpp \<Rightarrow> posix \<Rightarrow> transaction_id \<Rightarrow> xored_address \<times> port \<Rightarrow> 'v result option" where
  "node_xor_mapped n cv px tid v =
     obind (ip_to_string px (xored_to_address cv (fst v) tid)) (\<lambda>addr.
       Some (create_object n
         [(''addr'', Some (create_string n addr)),
          (''port'', Some (create_int32 n (ucast (snd v))))]))"

definition node_error_code_attr :: "'v napi \<Rightarrow> u32 \<times> bytes option \<Rightarrow> 'v result" where
  "node_error_code_attr n v =
     create_object n
       [(''code'', Some (create_int32 n (fst v))),
        (''reason'', Some (create_string n (bytes_str (case snd v of Some r \<Rightarrow> r | None \<Rightarrow> []))))]"

definition node_attributes :: "'v napi \<Rightarrow> craftpp \<Rightarrow> posix \<Rightarrow> transaction_id \<Rightarrow> attribute_set \<Rightarrow> 'v result option" where
  "node_attributes n cv px tid attrs =
     map_option (\<lambda>xor_mapped.
       create_object n
         [(''username'', map_option (\<lambda>v. create_string n (bytes_str v)) (get_username attrs)),
          (''software'', map_option (\<lambda>v. create_string n (bytes_str v)) (get_software attrs)),
          (''xor_mapped'', xor_mapped),
          (''priority'', map_option (create_uint32 n) (get_priority attrs)),
          (''ice-controlling'', map_option (create_bigint_uint64 n) (get_ice_controlling attrs)),
          (''ice-controlled'', map_option (create_bigint_uint64 n) (get_ice_controlled attrs)),
          (''use-candidate'', if has_use_candidate attrs then Some (create_boolean n True) else None),
          (''error_code'', map_option (node_error_code_attr n) (get_error_code attrs))])
       (omaybe (get_xor_mapped attrs) (node_xor_mapped n cv px tid))"

definition node_message :: "'v napi \<Rightarrow> craftpp \<Rightarrow> posix \<Rightarrow> message \<Rightarrow> 'v result option" where
  "node_message n cv px msg =
     map_option (\<lambda>attributes.
       create_object n
         [(''header'', Some (node_header n (m_header msg))),
          (''is_rfc3489'', Some (create_boolean n (m_is_rfc3489 msg))),
          (''attributes'', Some attributes)])
       (node_attributes n cv px (h_transaction_id (m_header msg)) (m_attribute_set msg))"

definition node_message_parse :: "'v napi \<Rightarrow> craftpp \<Rightarrow> posix \<Rightarrow> (nat \<Rightarrow> 'v result) \<Rightarrow> 'v result option" where
  "node_message_parse n cv px ci =
     obind (Some (rbind (ci 0) (as_buffer n))) (\<lambda>view.
     obind (Some (snd (message_parse cv view zero_stat))) (\<lambda>msg.
       node_message n cv px msg))"

section \<open>When the conversion succeeds\<close>

text \<open>An address is printable if the operating system has a text for it.\<close>

definition printable :: "posix \<Rightarrow> address \<Rightarrow> bool" where
  "printable px a \<longleftrightarrow> (\<exists>t. ip_text px a t)"

definition message_printable :: "craftpp \<Rightarrow> posix \<Rightarrow> message \<Rightarrow> bool" where
  "message_printable cv px msg \<longleftrightarrow>
     (case get_xor_mapped (m_attribute_set msg) of
        Some (xa, _) \<Rightarrow> printable px (xored_to_address cv xa (h_transaction_id (m_header msg)))
      | None \<Rightarrow> True)"

text \<open>An object that shows an endpoint: the text of its address, if it is ASCII, and its port.\<close>

definition shows_endpoint :: "'v napi \<Rightarrow> posix \<Rightarrow> 'v \<Rightarrow> address \<Rightarrow> port \<Rightarrow> bool" where
  "shows_endpoint n px obj a p \<longleftrightarrow>
     (\<exists>v. named_property n ''addr'' obj = Inr v \<and> (\<forall>t. ip_text px a t \<and> ascii t \<longrightarrow> as_string n v = Inr t)) \<and>
     (\<exists>v. named_property n ''port'' obj = Inr v \<and> as_int32 n v = Inr (ucast p))"

definition shows_mapped :: "'v napi \<Rightarrow> craftpp \<Rightarrow> posix \<Rightarrow> 'v \<Rightarrow> transaction_id \<Rightarrow> attribute_set \<Rightarrow> bool" where
  "shows_mapped n cv px obj tid attrs \<longleftrightarrow>
     (\<forall>xa p. get_xor_mapped attrs = Some (xa, p) \<longrightarrow>
        (\<exists>v. named_property n ''xor_mapped'' obj = Inr v \<and> shows_endpoint n px v (xored_to_address cv xa tid) p))"

lemma ip_text_unique: "ip_text px a t \<Longrightarrow> ip_text px a t' \<Longrightarrow> t' = t"
  unfolding ip_text_def by (metis Inr_inject less_max_iff_disj lessI)

lemma ip_to_string_text: "ip_text px a t \<Longrightarrow> ip_to_string px a = Some (Inr t)"
  using ntop_loop_terminates [of px a t] by (simp add: ip_to_string_def)

context js_values
begin

lemma created:
  "\<exists>v. create_string n s = Inr v" "\<exists>v. create_buffer n b = Inr v" "\<exists>v. create_int32 n i = Inr v"
  "\<exists>v. create_boolean n x = Inr v"
  using create_string_ok create_buffer_ok create_int32_ok create_boolean_ok by blast+

lemma entry_err_created [simp]:
  "entry_err (k, Some (create_string n s)) = []" "entry_err (k, Some (create_buffer n b)) = []"
  "entry_err (k, Some (create_int32 n i)) = []" "entry_err (k, Some (create_boolean n x)) = []"
  "entry_err (k, Some (create_uint32 n i)) = []" "entry_err (k, Some (create_bigint_uint64 n w)) = []"
  "entry_err (k, Some (create_null n)) = []"
  using create_string_ok [of s] create_buffer_ok [of b] create_int32_ok [of i] create_boolean_ok [of x]
    create_uint32_ok [of i] create_bigint_ok [of w] create_null_ok
  by auto

lemma entry_err_map [simp]:
  "entry_err (k, map_option (\<lambda>v. create_string n (f v)) m) = []"
  "entry_err (k, map_option (create_uint32 n) mu) = []"
  "entry_err (k, map_option (create_bigint_uint64 n) mw) = []"
  by (simp_all split: option.split add: map_option_case)

lemma node_header_Inl:
  assumes "h_method hdr \<noteq> binding_method"
  shows "node_header n hdr = Inl (NodeError unknown_stun_method)"
proof -
  have "entry_err (''class'', Some (node_stun_class n (h_cls hdr))) = []" by (cases "h_cls hdr") simp_all
  then show ?thesis
    using create_object_err [of "[(''class'', Some (node_stun_class n (h_cls hdr))),
        (''method'', Some (node_stun_method n (h_method hdr))),
        (''transaction'', Some (node_transaction_id n (h_transaction_id hdr)))]"] assms
    by (simp add: node_header_def node_stun_method_def node_transaction_id_def)
qed

lemma node_header_Inr:
  assumes "h_method hdr = binding_method"
  obtains obj where "node_header n hdr = Inr obj"
    "\<exists>v. named_property n ''class'' obj = Inr v \<and> node_stun_class n (h_cls hdr) = Inr v"
    "\<exists>v. named_property n ''transaction'' obj = Inr v \<and> as_buffer n v = Inr (h_transaction_id hdr)"
proof -
  let ?es = "[(''class'', Some (node_stun_class n (h_cls hdr))),
        (''method'', Some (node_stun_method n (h_method hdr))),
        (''transaction'', Some (node_transaction_id n (h_transaction_id hdr)))]"
  obtain c where c: "node_stun_class n (h_cls hdr) = Inr c" by (cases "h_cls hdr") (use created(1) in auto)
  obtain t where t: "create_buffer n (h_transaction_id hdr) = Inr t" "as_buffer n t = Inr (h_transaction_id hdr)"
    using create_buffer_ok by blast
  have "concat (map entry_err ?es) = []" "distinct (map fst ?es)"
    using assms c by (simp_all add: node_stun_method_def node_transaction_id_def)
  then obtain obj where "create_object n ?es = Inr obj" "as_object n obj = Inr obj" "list_all (\<lambda>(k, m). \<forall>v. m = Some (Inr v) \<longrightarrow> named_property n k obj = Inr v) ?es"
    by (rule object_of)
  then show ?thesis using that [of obj] c t by (auto simp: node_header_def node_transaction_id_def)
qed

lemma node_error_code_attr_ok: "\<exists>v. node_error_code_attr n x = Inr v"
  using create_object_ok [of "[(''code'', Some (create_int32 n (fst x))),
      (''reason'', Some (create_string n (bytes_str (case snd x of Some r \<Rightarrow> r | None \<Rightarrow> []))))]"]
  by (auto simp: node_error_code_attr_def)

lemma node_xor_mapped_text:
  assumes "ip_text px (xored_to_address cv (fst v) tid) t"
  obtains obj where "node_xor_mapped n cv px tid v = Some (Inr obj)"
    "\<exists>a. named_property n ''addr'' obj = Inr a \<and> (ascii t \<longrightarrow> as_string n a = Inr t)"
    "\<exists>p. named_property n ''port'' obj = Inr p \<and> as_int32 n p = Inr (ucast (snd v))"
proof -
  let ?es = "[(''addr'', Some (create_string n t)), (''port'', Some (create_int32 n (ucast (snd v))))]"
  obtain a where a: "create_string n t = Inr a" "ascii t \<longrightarrow> as_string n a = Inr t" using create_string_ok by blast
  obtain p where p: "create_int32 n (ucast (snd v)) = Inr p" "as_int32 n p = Inr (ucast (snd v))" using create_int32_ok by blast
  have "concat (map entry_err ?es) = []" "distinct (map fst ?es)" by simp_all
  then obtain obj where "create_object n ?es = Inr obj" "as_object n obj = Inr obj" "list_all (\<lambda>(k, m). \<forall>v. m = Some (Inr v) \<longrightarrow> named_property n k obj = Inr v) ?es"
    by (rule object_of)
  then show ?thesis using that [of obj] a p by (simp add: node_xor_mapped_def ip_to_string_text [OF assms])
qed

lemma shows_endpointI:
  assumes "ip_text px (xored_to_address cv (fst v) tid) t"
  obtains obj where "node_xor_mapped n cv px tid v = Some (Inr obj)"
    "shows_endpoint n px obj (xored_to_address cv (fst v) tid) (snd v)"
proof -
  obtain obj where "node_xor_mapped n cv px tid v = Some (Inr obj)"
    "\<exists>a. named_property n ''addr'' obj = Inr a \<and> (ascii t \<longrightarrow> as_string n a = Inr t)"
    "\<exists>p. named_property n ''port'' obj = Inr p \<and> as_int32 n p = Inr (ucast (snd v))"
    by (rule node_xor_mapped_text [OF assms])
  then show ?thesis using that assms ip_text_unique [OF assms] unfolding shows_endpoint_def by metis
qed

lemma node_attributes_ok:
  assumes "\<And>xa p. get_xor_mapped attrs = Some (xa, p) \<Longrightarrow> printable px (xored_to_address cv xa tid)"
  obtains obj where "node_attributes n cv px tid attrs = Some (Inr obj)"
    "shows_mapped n cv px obj tid attrs"
proof -
  have "\<exists>m. omaybe (get_xor_mapped attrs) (node_xor_mapped n cv px tid) = Some m \<and> entry_err (''xor_mapped'', m) = []
      \<and> (\<forall>xa p. get_xor_mapped attrs = Some (xa, p) \<longrightarrow>
           (\<exists>v. m = Some (Inr v) \<and> shows_endpoint n px v (xored_to_address cv xa tid) p))"
  proof (cases "get_xor_mapped attrs")
    case (Some v)
    then obtain t where "ip_text px (xored_to_address cv (fst v) tid) t"
      using assms by (cases v) (auto simp: printable_def)
    then show ?thesis by (rule shows_endpointI) (auto simp: Some)
  qed simp
  then obtain m where m: "omaybe (get_xor_mapped attrs) (node_xor_mapped n cv px tid) = Some m" "entry_err (''xor_mapped'', m) = []"
    "\<forall>xa p. get_xor_mapped attrs = Some (xa, p) \<longrightarrow>
       (\<exists>v. m = Some (Inr v) \<and> shows_endpoint n px v (xored_to_address cv xa tid) p)"
    by (elim exE conjE) (rule that)
  let ?es = "[(''username'', map_option (\<lambda>v. create_string n (bytes_str v)) (get_username attrs)),
          (''software'', map_option (\<lambda>v. create_string n (bytes_str v)) (get_software attrs)),
          (''xor_mapped'', m),
          (''priority'', map_option (create_uint32 n) (get_priority attrs)),
          (''ice-controlling'', map_option (create_bigint_uint64 n) (get_ice_controlling attrs)),
          (''ice-controlled'', map_option (create_bigint_uint64 n) (get_ice_controlled attrs)),
          (''use-candidate'', if has_use_candidate attrs then Some (create_boolean n True) else None),
          (''error_code'', map_option (node_error_code_attr n) (get_error_code attrs))]"
  have "entry_err (''error_code'', map_option (node_error_code_attr n) (get_error_code attrs)) = []"
  proof (cases "get_error_code attrs")
    case (Some x)
    then show ?thesis using node_error_code_attr_ok [of x] by auto
  qed simp
  then have ok: "concat (map entry_err ?es) = []" "distinct (map fst ?es)" using m(2) by simp_all
  obtain obj where "create_object n ?es = Inr obj" "as_object n obj = Inr obj"
    "list_all (\<lambda>(k, m). \<forall>v. m = Some (Inr v) \<longrightarrow> named_property n k obj = Inr v) ?es"
    by (rule object_of [OF ok])
  then show ?thesis using that [of obj] m(1,3) by (fastforce simp: node_attributes_def shows_mapped_def)
qed

lemma node_message_attributes:
  assumes "message_printable cv px msg"
  obtains at where "node_attributes n cv px (h_transaction_id (m_header msg)) (m_attribute_set msg) = Some (Inr at)"
    "shows_mapped n cv px at (h_transaction_id (m_header msg)) (m_attribute_set msg)"
proof (rule node_attributes_ok [of "m_attribute_set msg" px cv "h_transaction_id (m_header msg)"])
  show "printable px (xored_to_address cv xa (h_transaction_id (m_header msg)))"
    if "get_xor_mapped (m_attribute_set msg) = Some (xa, p)" for xa p
    using assms that by (simp add: message_printable_def)
qed (rule that)

lemma node_message_Inl:
  assumes "message_printable cv px msg" "h_method (m_header msg) \<noteq> binding_method"
  shows "node_message n cv px msg = Some (Inl (NodeError unknown_stun_method))"
proof -
  obtain at where at: "node_attributes n cv px (h_transaction_id (m_header msg)) (m_attribute_set msg) = Some (Inr at)"
    by (rule node_message_attributes [OF assms(1)])
  have "\<exists>e \<in> {NodeError unknown_stun_method}. create_object n
      [(''header'', Some (Inl (NodeError unknown_stun_method))), (''is_rfc3489'', Some (create_boolean n (m_is_rfc3489 msg))),
       (''attributes'', Some (Inr at))] = Inl e"
    using create_object_err [of "[(''header'', Some (Inl (NodeError unknown_stun_method))),
        (''is_rfc3489'', Some (create_boolean n (m_is_rfc3489 msg))), (''attributes'', Some (Inr at))]"] by simp
  then show ?thesis by (simp add: node_message_def at node_header_Inl [OF assms(2)])
qed

lemma node_message_Inr:
  assumes "message_printable cv px msg" "h_method (m_header msg) = binding_method"
  obtains obj hd at where "node_message n cv px msg = Some (Inr obj)" "named_property n ''header'' obj = Inr hd"
    "named_property n ''attributes'' obj = Inr at"
    "shows_mapped n cv px at (h_transaction_id (m_header msg)) (m_attribute_set msg)"
    "\<exists>v. named_property n ''class'' hd = Inr v \<and> node_stun_class n (h_cls (m_header msg)) = Inr v"
    "\<exists>v. named_property n ''transaction'' hd = Inr v \<and> as_buffer n v = Inr (h_transaction_id (m_header msg))"
proof -
  obtain at where at: "node_attributes n cv px (h_transaction_id (m_header msg)) (m_attribute_set msg) = Some (Inr at)"
    "shows_mapped n cv px at (h_transaction_id (m_header msg)) (m_attribute_set msg)"
    by (rule node_message_attributes [OF assms(1)])
  obtain hd where hd: "node_header n (m_header msg) = Inr hd"
    "\<exists>v. named_property n ''class'' hd = Inr v \<and> node_stun_class n (h_cls (m_header msg)) = Inr v"
    "\<exists>v. named_property n ''transaction'' hd = Inr v \<and> as_buffer n v = Inr (h_transaction_id (m_header msg))"
    by (rule node_header_Inr [OF assms(2)])
  let ?es = "[(''header'', Some (Inr hd)), (''is_rfc3489'', Some (create_boolean n (m_is_rfc3489 msg))), (''attributes'', Some (Inr at))]"
  have "concat (map entry_err ?es) = []" "distinct (map fst ?es)" by simp_all
  then obtain obj where "create_object n ?es = Inr obj" "as_object n obj = Inr obj"
    "list_all (\<lambda>(k, m). \<forall>v. m = Some (Inr v) \<longrightarrow> named_property n k obj = Inr v) ?es"
    by (rule object_of)
  then show ?thesis using that [of obj hd at] hd at(2) by (simp add: node_message_def at(1))
qed

end

section \<open>Properties\<close>

fun class_text :: "stun_class \<Rightarrow> string" where
  "class_text REQUEST = ''request''"
| "class_text INDICATION = ''indication''"
| "class_text SUCCESS_RESPONSE = ''success_response''"
| "class_text ERROR_RESPONSE = ''error_response''"

lemma class_text_read: "js_values n \<Longrightarrow> node_stun_class n c = Inr v \<Longrightarrow> as_string n v = Inr (class_text c)"
  using js_values.create_string_ok [of n "class_text c"] by (cases c) (auto simp: ascii_def)

text \<open>
  C24.  The parser of the JavaScript interface: for a buffer argument it returns the error of
  \<open>Message::parse\<close>, or refuses a message that is not of the binding method, or returns an object that
  carries the class, the bytes of the transaction identifier and, if the message has one, the unmasked
  XOR-MAPPED-ADDRESS as text and port.
\<close>

theorem node_message_parse_outcome:
  assumes "js_values n" "ci 0 = Inr v" "as_buffer n v = Inr view"
  shows "case snd (message_parse cv view zero_stat) of
     Inl e \<Rightarrow> node_message_parse n cv px ci = Some (Inl e)
   | Inr msg \<Rightarrow> message_printable cv px msg \<longrightarrow>
       (if h_method (m_header msg) \<noteq> binding_method
        then node_message_parse n cv px ci = Some (Inl (NodeError unknown_stun_method))
        else \<exists>obj hd at cv' tv. node_message_parse n cv px ci = Some (Inr obj)
          \<and> named_property n ''header'' obj = Inr hd \<and> named_property n ''attributes'' obj = Inr at
          \<and> named_property n ''class'' hd = Inr cv' \<and> as_string n cv' = Inr (class_text (h_cls (m_header msg)))
          \<and> named_property n ''transaction'' hd = Inr tv \<and> as_buffer n tv = Inr (h_transaction_id (m_header msg))
          \<and> shows_mapped n cv px at (h_transaction_id (m_header msg)) (m_attribute_set msg))"
proof (cases "snd (message_parse cv view zero_stat)")
  case (Inr msg)
  have p: "node_message_parse n cv px ci = node_message n cv px msg"
    using assms(2,3) Inr by (simp add: node_message_parse_def)
  show ?thesis
  proof (cases "message_printable cv px msg \<and> h_method (m_header msg) = binding_method")
    case True
    then obtain obj hd at where o: "node_message n cv px msg = Some (Inr obj)" "named_property n ''header'' obj = Inr hd"
      "named_property n ''attributes'' obj = Inr at"
      "shows_mapped n cv px at (h_transaction_id (m_header msg)) (m_attribute_set msg)"
      "\<exists>v. named_property n ''class'' hd = Inr v \<and> node_stun_class n (h_cls (m_header msg)) = Inr v"
      "\<exists>v. named_property n ''transaction'' hd = Inr v \<and> as_buffer n v = Inr (h_transaction_id (m_header msg))"
      using js_values.node_message_Inr [OF assms(1)] by metis
    then show ?thesis using Inr p True class_text_read [OF assms(1)] by auto
  next
    case False
    then show ?thesis using Inr p js_values.node_message_Inl [OF assms(1)] by auto
  qed
qed (use assms(2,3) in \<open>simp add: node_message_parse_def\<close>)

definition sample_datagram :: bytes where
  "sample_datagram = [0, 1, 0, 0, 0x21, 0x12, 0xA4, 0x42, 1, 2, 3, 4, 5, 6, 7, 8, 9, 10, 11, 12]"

theorem node_message_parse_outcome_witness:
  "\<exists>obj hd tv. node_message_parse js_napi list_view sample_posix (js_args [JBuffer sample_datagram]) = Some (Inr obj)
     \<and> named_property js_napi ''header'' obj = Inr hd
     \<and> named_property js_napi ''transaction'' hd = Inr tv \<and> as_buffer js_napi tv = Inr [1, 2, 3, 4, 5, 6, 7, 8, 9, 10, 11, 12]"
proof -
  have "case snd (message_parse list_view sample_datagram zero_stat) of Inl _ \<Rightarrow> False
    | Inr msg \<Rightarrow> h_method (m_header msg) = binding_method \<and> h_transaction_id (m_header msg) = [1, 2, 3, 4, 5, 6, 7, 8, 9, 10, 11, 12]
        \<and> get_xor_mapped (m_attribute_set msg) = None"
    by code_simp
  then obtain msg where msg: "snd (message_parse list_view sample_datagram zero_stat) = Inr msg" "h_method (m_header msg) = binding_method"
    "h_transaction_id (m_header msg) = [1, 2, 3, 4, 5, 6, 7, 8, 9, 10, 11, 12]" "get_xor_mapped (m_attribute_set msg) = None"
    by (auto split: sum.splits)
  have "js_args [JBuffer sample_datagram] 0 = Inr (JBuffer sample_datagram)"
    "as_buffer js_napi (JBuffer sample_datagram) = Inr sample_datagram" by (simp_all add: js_args_def js_napi_def)
  from node_message_parse_outcome [where ci = "js_args [JBuffer sample_datagram]", OF js.js_values_axioms this,
      of list_view sample_posix] msg show ?thesis
    by (auto simp: message_printable_def)
qed

end
