(* ===== verification/Node_Openssl.thy ===== *)
theory Node_Openssl
  imports Crypto
begin

text \<open>
  The hash functions of the Node.js bindings: \<open>node/openssl/node_openssl_hash.cpp\<close>.  The class is a copy
  of the one in \<open>crypto/openssl/openssl_hash.cpp\<close> with another loop: \<open>calc\<close> drops what \<open>update\<close> returns.
  The loop goes on with the context that a failed \<open>EVP_DigestUpdate\<close> leaves behind, which only
  OpenSSL knows: it is the argument \<open>failed\<close>.
\<close>

definition node_md_init :: "'c evp \<Rightarrow> 'c result" where
  "node_md_init evp =
     (case evp_ctx_new evp of
        None \<Rightarrow> Inl (SystemError enomem)
      | Some ctx \<Rightarrow>
          (case evp_digest_init evp ctx of
             None \<Rightarrow> Inl (NodeOpenSSLError (err_get_error evp))
           | Some ctx' \<Rightarrow> Inr ctx'))"

definition node_md_update :: "'c evp \<Rightarrow> ('c \<Rightarrow> bytes \<Rightarrow> 'c) \<Rightarrow> 'c \<Rightarrow> bytes \<Rightarrow> 'c \<times> unit result" where
  "node_md_update evp failed ctx view =
     (case evp_digest_update evp ctx view of
        None \<Rightarrow> (failed ctx view, Inl (NodeOpenSSLError (err_get_error evp)))
      | Some ctx' \<Rightarrow> (ctx', Inr ()))"

definition node_md_finalize :: "'c evp \<Rightarrow> 'c \<Rightarrow> bytes result" where
  "node_md_finalize evp ctx =
     (case evp_digest_final evp ctx of
        None \<Rightarrow> Inl (NodeOpenSSLError (err_get_error evp))
      | Some v \<Rightarrow> Inr v)"

fun node_md_loop :: "'c evp \<Rightarrow> ('c \<Rightarrow> bytes \<Rightarrow> 'c) \<Rightarrow> 'c \<Rightarrow> bytes list \<Rightarrow> 'c" where
  "node_md_loop evp failed ctx [] = ctx"
| "node_md_loop evp failed ctx (chunk # input) =
     (let (ctx, _) = node_md_update evp failed ctx chunk in node_md_loop evp failed ctx input)"

definition node_md_calc :: "'c evp \<Rightarrow> ('c \<Rightarrow> bytes \<Rightarrow> 'c) \<Rightarrow> hash_func" where
  "node_md_calc evp failed input =
     (case node_md_init evp of
        Inl e \<Rightarrow> Inl e
      | Inr ctx \<Rightarrow> node_md_finalize evp (node_md_loop evp failed ctx input))"

definition node_sha1 :: "'c evp \<Rightarrow> ('c \<Rightarrow> bytes \<Rightarrow> 'c) \<Rightarrow> hash_func" where
  \<comment> \<open>the argument \<open>evp\<close> is EVP with \<open>EVP_sha1()\<close>\<close>
  "node_sha1 evp failed input = node_md_calc evp failed input"

section \<open>Comparison with the wrapper of the library\<close>

text \<open>The bindings have an error category of their own for the codes of OpenSSL.\<close>

fun in_node_category :: "error \<Rightarrow> error" where
  "in_node_category (OpenSSLError code) = NodeOpenSSLError code"
| "in_node_category e = e"

lemma node_md_init_eq: "node_md_init evp = map_sum in_node_category id (md_init evp)"
  by (simp add: node_md_init_def md_init_def split: option.split)

lemma node_md_finalize_eq: "node_md_finalize evp ctx = map_sum in_node_category id (md_finalize evp ctx)"
  by (simp add: node_md_finalize_def md_finalize_def split: option.split)

lemma node_md_loop_eq: "md_reduce evp ctx input = Inr ctx' \<Longrightarrow> node_md_loop evp failed ctx input = ctx'"
  by (induction input arbitrary: ctx)
    (auto simp: md_update_def node_md_update_def split: option.splits)

lemma node_md_calc_eq:
  assumes "\<And>ctx. md_init evp = Inr ctx \<Longrightarrow> \<not> is_err (md_reduce evp ctx input)"
  shows "node_md_calc evp failed input = map_sum in_node_category id (md_calc evp input)"
proof (cases "md_init evp")
  case (Inl e)
  then show ?thesis by (simp add: node_md_calc_def md_calc_def node_md_init_eq)
next
  case (Inr ctx)
  then obtain ctx' where "md_reduce evp ctx input = Inr ctx'"
    using assms by (cases "md_reduce evp ctx input") auto
  then show ?thesis
    using Inr by (simp add: node_md_calc_def md_calc_def node_md_init_eq node_md_finalize_eq node_md_loop_eq)
qed

lemma md_reduce_total:
  assumes "\<And>c v. evp_digest_update evp c v \<noteq> None"
  shows "\<not> is_err (md_reduce evp ctx input)"
proof (induction input arbitrary: ctx)
  case (Cons v vs)
  obtain ctx' where "evp_digest_update evp ctx v = Some ctx'" using assms by fast
  then show ?case using Cons by (simp add: md_update_def)
qed simp

text \<open>With an EVP whose updates succeed the function keeps the contract that the users of a hash rely on.\<close>

locale node_evp_sha1 = evp_sha1 evp for evp :: "'c evp" +
  fixes failed :: "'c \<Rightarrow> bytes \<Rightarrow> 'c"
  assumes update_succeeds: "evp_digest_update evp c v \<noteq> None"
begin

lemma node_sha1_eq: "node_sha1 evp failed input = map_sum in_node_category id (md_calc evp input)"
  unfolding node_sha1_def by (rule node_md_calc_eq) (rule md_reduce_total [OF update_succeeds])

end

lemma map_sum_Inr: "map_sum f id r = Inr d \<longleftrightarrow> r = Inr d"
  by (cases r) simp_all

sublocale node_evp_sha1 \<subseteq> node: sha1_function "node_sha1 evp failed"
proof
  show "node_sha1 evp failed xs = node_sha1 evp failed ys" if "concat xs = concat ys" for xs ys
    using ossl.hash_concat [OF that] by (simp add: node_sha1_eq)
  show "length d = sha1_size" if "node_sha1 evp failed xs = Inr d" for xs d
    using that ossl.hash_size by (simp add: node_sha1_eq map_sum_Inr)
qed

definition node_buffer_sha1 :: hash_func where
  "node_buffer_sha1 = node_sha1 buffer_evp (\<lambda>ctx _. ctx)"

interpretation node_buffer: node_evp_sha1 buffer_evp "\<lambda>ctx _. ctx"
  by unfold_locales (simp add: buffer_evp_def)

lemma node_buffer_sha1_eq: "node_buffer_sha1 = buffer_sha1"
  by (simp add: fun_eq_iff node_buffer_sha1_def node_buffer.node_sha1_eq buffer_sha1_eq flip: buffer_sha1_def)

section \<open>Properties\<close>

lemma md_reduce_append:
  "md_reduce evp ctx (xs @ ys) = rbind (md_reduce evp ctx xs) (\<lambda>ctx'. md_reduce evp ctx' ys)"
  by (induction xs arbitrary: ctx) (simp_all add: rbind_def split: sum.split)

lemma node_md_loop_append:
  "node_md_loop evp failed ctx (xs @ ys) = node_md_loop evp failed (node_md_loop evp failed ctx xs) ys"
  by (induction xs arbitrary: ctx) (simp_all add: case_prod_beta)

text \<open>
  C39.  When no update of the digest fails, the hash of the bindings returns what the hash of the library
  returns, errors included, except that a code of OpenSSL comes in the category of the bindings.  When the update
  of a chunk fails, the library's hash reports it; the one of the bindings goes on with the chunks behind
  it from the context that the failure leaves, and if nothing else fails it returns the digest that is
  finalized there, as if the whole input had been hashed.
\<close>

theorem node_hash_agrees_or_hides_failure:
  "((\<forall>ctx. md_init evp = Inr ctx \<longrightarrow> \<not> is_err (md_reduce evp ctx input)) \<longrightarrow>
      node_md_calc evp failed input = map_sum in_node_category id (md_calc evp input))
   \<and> (md_init evp = Inr ctx \<and> md_reduce evp ctx pre = Inr ctx1 \<and> evp_digest_update evp ctx1 chunk = None \<and>
       md_reduce evp (failed ctx1 chunk) post = Inr ctx2 \<and> evp_digest_final evp ctx2 = Some digest \<longrightarrow>
      md_calc evp (pre @ chunk # post) = Inl (OpenSSLError (err_get_error evp)) \<and>
      node_md_calc evp failed (pre @ chunk # post) = Inr digest)"
proof (intro conjI impI; (elim conjE)?)
  assume "\<forall>ctx. md_init evp = Inr ctx \<longrightarrow> \<not> is_err (md_reduce evp ctx input)"
  then show "node_md_calc evp failed input = map_sum in_node_category id (md_calc evp input)"
    by (intro node_md_calc_eq) blast
next
  assume a: "md_init evp = Inr ctx" "md_reduce evp ctx pre = Inr ctx1" "evp_digest_update evp ctx1 chunk = None"
    "md_reduce evp (failed ctx1 chunk) post = Inr ctx2" "evp_digest_final evp ctx2 = Some digest"
  then show "md_calc evp (pre @ chunk # post) = Inl (OpenSSLError (err_get_error evp))"
    by (simp add: md_calc_def md_reduce_append md_update_def)
  show "node_md_calc evp failed (pre @ chunk # post) = Inr digest"
    using a by (simp add: node_md_calc_def node_md_init_eq node_md_loop_append node_md_loop_eq node_md_update_def node_md_finalize_def)
qed

text \<open>An EVP that refuses one chunk and is untouched by the failure: the chunk is missing from the hashed data.\<close>

definition failing_evp :: "bytes evp" where
  "failing_evp = buffer_evp\<lparr>evp_digest_update := (\<lambda>c v. if v = [2] then None else Some (c @ v))\<rparr>"

theorem node_hash_agrees_or_hides_failure_witness:
  "md_calc failing_evp [[1], [2], [3]] = Inl (OpenSSLError 0)
   \<and> node_md_calc failing_evp (\<lambda>ctx _. ctx) [[1], [2], [3]] = Inr (be_encode 20 (be_decode [1, 3] :: 160 word))"
  using node_hash_agrees_or_hides_failure [of failing_evp "[]" "\<lambda>ctx _. ctx" "[]" "[[1]]" "[1]" "[2]" "[[3]]" "[1, 3]"
      "be_encode 20 (be_decode [1, 3] :: 160 word)"]
  by (simp add: failing_evp_def buffer_evp_def md_init_def md_update_def)

end
