(* ===== verification/Node_Client.thy ===== *)
theory Node_Client
  imports Node_Message Node_Openssl Stun_Exchange Error_Texts "HOL-Library.Signed_Division"
begin

text \<open>
  The STUN client as a JavaScript class: \<open>node/node_stun/node_stun_client_udp.cpp\<close> with its settings,
  credentials, handles and effects.  \<open>self\<close> is what \<open>unwrap\<close> of the receiver gives, the client behind the
  object or an error; an operation returns it with its new state.  \<open>now\<close> is the value of the clock at the
  call, \<open>g\<close> the state of the random device.
\<close>

section \<open>Arguments\<close>

definition node_settings :: "'v napi \<Rightarrow> 'v \<Rightarrow> client_settings result" where
  "node_settings n obj =
     (let maybe_use_fingerprint_rv =
            rbind (maybe_named_property n ''use_fingerprint'' obj) (\<lambda>maybe_v.
              case maybe_v of Some v \<Rightarrow> rmap Some (as_boolean n v) | None \<Rightarrow> Inr None)
      in rmap (\<lambda>maybe_use_fingerprint.
           default_settings\<lparr>cs_use_fingerprint :=
             (case maybe_use_fingerprint of Some v \<Rightarrow> v | None \<Rightarrow> cs_use_fingerprint default_settings)\<rparr>)
           maybe_use_fingerprint_rv)"

definition node_parse_auth :: "'v napi \<Rightarrow> craftpp \<Rightarrow> hash_func \<Rightarrow> 'v \<Rightarrow> auth result" where
  "node_parse_auth n cv sha1 obj =
     (let username_rv = rmap str_bytes (rbind (named_property n ''username'' obj) (as_string n));
          password_rv = rbind (rbind (named_property n ''password'' obj) (as_string n))
            (\<lambda>str. short_term cv (str_bytes str) sha1)
      in combine2 cv (\<lambda>username password.
           Inr \<lparr>au_username = username, au_integrity = \<lparr>id_password = password, id_hash = sha1\<rparr>\<rparr>)
           username_rv password_rv)"

definition node_request :: "'v napi \<Rightarrow> craftpp \<Rightarrow> posix \<Rightarrow> hash_func \<Rightarrow> 'v \<Rightarrow> request result" where
  "node_request n cv px sha1 obj =
     (let source_rv = rbind (rbind (named_property n ''source'' obj) (as_string n)) (ip_from_string px);
          target_rv = rbind (rbind (named_property n ''target'' obj) (as_string n)) (ip_from_string px);
          maybe_auth_rv = rbind (maybe_named_property n ''auth'' obj) (\<lambda>maybe_val.
            case maybe_val of
              Some val \<Rightarrow> rmap Some (rbind (as_object n val) (node_parse_auth n cv sha1))
            | None \<Rightarrow> Inr None)
      in combine3 cv (\<lambda>src dst maybe_auth.
           Inr \<lparr>rq_path = \<lparr>p_source = src, p_target = dst\<rparr>, rq_attrs = [], rq_unknown_attrs = [],
                rq_maybe_auth = maybe_auth\<rparr>)
           source_rv target_rv maybe_auth_rv)"

section \<open>Effects\<close>

definition node_handle :: "'v napi \<Rightarrow> handle \<Rightarrow> 'v result" where
  "node_handle n hnd = create_object n [(''value'', Some (create_int32 n hnd))]"

definition node_send_data :: "'v napi \<Rightarrow> bytes \<Rightarrow> 'v result" where
  "node_send_data n message_view =
     create_object n
       [(''type'', Some (create_string n ''send_data'')),
        (''message'', Some (create_buffer n message_view))]"

definition node_endpoint :: "'v napi \<Rightarrow> posix \<Rightarrow> generic_endpoint \<Rightarrow> 'v result option" where
  "node_endpoint n px ep =
     map_option (\<lambda>addr. create_object n [(''addr'', Some addr), (''port'', Some (create_int32 n (ucast (ep_port ep))))])
       (obind (ip_to_string px (ep_address ep)) (\<lambda>s. Some (create_string n s)))"

definition node_transaction_ok ::
    "'v napi \<Rightarrow> craftpp \<Rightarrow> posix \<Rightarrow> generic_endpoint \<Rightarrow> message \<Rightarrow> duration option \<Rightarrow> 'v result option" where
  "node_transaction_ok n cv px ep msg round_trip =
     Option.bind (node_endpoint n px ep) (\<lambda>result.
     Option.bind (node_message n cv px msg) (\<lambda>msg.
       Some (create_object n
         [(''type'', Some (create_string n ''transaction_ok'')),
          (''result'', Some result),
          (''response'', Some msg),
          (''rtt_us'', map_option (\<lambda>rtt. create_int32 n (to_int32 rtt)) round_trip)])))"

fun node_failed_reason :: "'v napi \<Rightarrow> fail_reason \<Rightarrow> 'v result" where
  "node_failed_reason n (UnknownComprehensionRequiredAttribute _) =
     create_string n ''unknown comprehension required attribute''"
| "node_failed_reason n (UnknownAttributeReported _) = create_string n ''unknown required attribute reported''"
| "node_failed_reason n (AlternateServer _) = create_string n ''alternate server''"
| "node_failed_reason n (ErrorCode code reason_phrase) =
     create_string n (''stun error: '' @ dec_string (unat code) @ '': '' @
       bytes_str (case reason_phrase of Some r \<Rightarrow> r | None \<Rightarrow> []))"
| "node_failed_reason n (FailError err) = create_string n (''error: '' @ error_text n err)"
| "node_failed_reason n Timeout = create_string n ''timeout''"

definition node_transaction_failed :: "'v napi \<Rightarrow> handle \<Rightarrow> fail_reason \<Rightarrow> 'v result" where
  "node_transaction_failed n hnd reason =
     create_object n
       [(''type'', Some (create_string n ''transaction_fail'')),
        (''handle'', Some (node_handle n hnd)),
        (''reason'', Some (node_failed_reason n reason))]"

definition sleep_ms :: "duration \<Rightarrow> int" where
  \<comment> \<open>\<open>duration_cast\<close> truncates towards zero; a remainder adds one millisecond\<close>
  "sleep_ms sleep = (let ms = sleep sdiv 1000; adj = (if sleep = ms * 1000 then 0 else 1) in ms + adj)"

definition node_sleep :: "'v napi \<Rightarrow> duration \<Rightarrow> 'v result" where
  "node_sleep n sleep =
     create_object n
       [(''type'', Some (create_string n ''sleep'')),
        (''timeout_ms'', Some (create_int32 n (to_int32 (sleep_ms sleep))))]"

fun node_effect :: "'v napi \<Rightarrow> craftpp \<Rightarrow> posix \<Rightarrow> effect \<Rightarrow> 'v result option" where
  "node_effect n cv px (SendData _ message_view) = Some (node_send_data n message_view)"
| "node_effect n cv px (TransactionOk _ ep msg round_trip) = node_transaction_ok n cv px ep msg round_trip"
| "node_effect n cv px (TransactionFailed hnd reason) = Some (node_transaction_failed n hnd reason)"
| "node_effect n cv px (Sleep sleep) = Some (node_sleep n sleep)"
| "node_effect n cv px Idle = Some (create_object n [(''type'', Some (create_string n ''idle''))])"

section \<open>The class\<close>

definition node_client_constructor :: "'v napi \<Rightarrow> craftpp \<Rightarrow> 'v \<Rightarrow> (nat \<Rightarrow> 'v result) \<Rightarrow> ('v \<times> client) result" where
  "node_client_constructor n cv this_arg info =
     (let settings_rv = rbind (rbind (info 0) (as_object n)) (node_settings n)
      in combine2 cv (\<lambda>obj settings. rmap (\<lambda>v. (v, client_new settings)) (wrap n obj)) (as_object n this_arg) settings_rv)"

definition node_client_create ::
    "'v napi \<Rightarrow> ('g \<Rightarrow> u32 \<times> 'g) \<Rightarrow> (u32 \<Rightarrow> bytes) \<Rightarrow> craftpp \<Rightarrow> (attr_map \<Rightarrow> attr_map) \<Rightarrow> posix \<Rightarrow> hash_func \<Rightarrow> 'g
     \<Rightarrow> timepoint \<Rightarrow> (nat \<Rightarrow> 'v result) \<Rightarrow> client result \<Rightarrow> ('g \<times> client result \<times> 'v result) option" where
  "node_client_create n r load cv ord px sha1 g now info self =
     (let request_rv = rbind (rbind (info 0) (as_object n)) (node_request n cv px sha1)
      in case (self, request_rv) of
           (Inr client, Inr req) \<Rightarrow>
             map_option (\<lambda>(g, client, hnd_rv). (g, Inr client, rbind hnd_rv (node_handle n)))
               (client_create r load cv ord g now req client)
         | _ \<Rightarrow> Some (g, self, Inl (pick_err cv (err_list self @ err_list request_rv))))"

definition node_client_next ::
    "'v napi \<Rightarrow> craftpp \<Rightarrow> posix \<Rightarrow> timepoint \<Rightarrow> client result \<Rightarrow> client result \<times> 'v result option" where
  "node_client_next n cv px now self =
     (case self of
        Inl e \<Rightarrow> (self, Some (Inl e))
      | Inr client \<Rightarrow> (let (client, effect) = client_next now client in (Inr client, node_effect n cv px effect)))"

definition node_client_response ::
    "'v napi \<Rightarrow> craftpp \<Rightarrow> timepoint \<Rightarrow> (nat \<Rightarrow> 'v result) \<Rightarrow> client result \<Rightarrow> client result \<times> 'v result" where
  "node_client_response n cv now info self =
     (let resp_rv = rbind (info 0) (as_buffer n)
      in case (self, resp_rv) of
           (Inr client, Inr resp) \<Rightarrow>
             (let (client, _) = response cv now resp None client in (Inr client, create_undefined n))
         | _ \<Rightarrow> (self, Inl (pick_err cv (err_list self @ err_list resp_rv))))"

section \<open>Effects as objects\<close>

fun effect_name :: "effect \<Rightarrow> string" where
  "effect_name (SendData _ _) = ''send_data''"
| "effect_name (TransactionOk _ _ _ _) = ''transaction_ok''"
| "effect_name (TransactionFailed _ _) = ''transaction_fail''"
| "effect_name (Sleep _) = ''sleep''"
| "effect_name Idle = ''idle''"

text \<open>Which effects the conversion can print, and which it refuses.\<close>

fun effect_printable :: "craftpp \<Rightarrow> posix \<Rightarrow> effect \<Rightarrow> bool" where
  "effect_printable cv px (TransactionOk _ ep msg _) \<longleftrightarrow> printable px (ep_address ep) \<and> message_printable cv px msg"
| "effect_printable cv px _ \<longleftrightarrow> True"

fun effect_refused :: "effect \<Rightarrow> bool" where
  "effect_refused (TransactionOk _ _ msg _) \<longleftrightarrow> h_method (m_header msg) \<noteq> binding_method"
| "effect_refused _ \<longleftrightarrow> False"

definition typed_object :: "'v napi \<Rightarrow> string \<Rightarrow> 'v \<Rightarrow> bool" where
  "typed_object n t obj \<longleftrightarrow> (\<exists>v. named_property n ''type'' obj = Inr v \<and> as_string n v = Inr t)"

lemma effect_name_ascii: "ascii (effect_name e)"
  by (cases e) (simp_all add: ascii_def)

context js_values
begin

text \<open>The pattern of all effects: an object whose first entry is its type.\<close>

lemma typed_objectE:
  assumes "concat (map entry_err es) = []" "distinct (''type'' # map fst es)" "ascii t"
  obtains obj where "create_object n ((''type'', Some (create_string n t)) # es) = Inr obj" "typed_object n t obj"
    "list_all (\<lambda>(k, m). \<forall>v. m = Some (Inr v) \<longrightarrow> named_property n k obj = Inr v) es"
proof -
  obtain v where v: "create_string n t = Inr v" "as_string n v = Inr t" using create_string_ok [of t] assms(3) by blast
  have "concat (map entry_err ((''type'', Some (Inr v)) # es)) = []" "distinct (map fst ((''type'', Some (Inr v)) # es))"
    using assms(1,2) by simp_all
  then obtain obj where "create_object n ((''type'', Some (Inr v)) # es) = Inr obj" "as_object n obj = Inr obj"
    "list_all (\<lambda>(k, m). \<forall>v. m = Some (Inr v) \<longrightarrow> named_property n k obj = Inr v) ((''type'', Some (Inr v)) # es)"
    by (rule object_of)
  then show ?thesis using that [of obj] v by (auto simp: typed_object_def)
qed

lemma node_handle_ok: "\<exists>obj. node_handle n hnd = Inr obj \<and> (\<exists>v. named_property n ''value'' obj = Inr v \<and> as_int32 n v = Inr hnd)"
proof -
  obtain v where v: "create_int32 n hnd = Inr v" "as_int32 n v = Inr hnd" using create_int32_ok by blast
  let ?es = "[(''value'', Some (Inr v :: 'v result))]"
  have "concat (map entry_err ?es) = []" "distinct (map fst ?es)" by simp_all
  then obtain obj where "create_object n ?es = Inr obj" "as_object n obj = Inr obj"
    "list_all (\<lambda>(k, m). \<forall>v. m = Some (Inr v) \<longrightarrow> named_property n k obj = Inr v) ?es"
    by (rule object_of)
  then show ?thesis using v by (auto simp: node_handle_def)
qed

lemma node_send_data_ok:
  obtains obj where "node_send_data n dat = Inr obj" "typed_object n ''send_data'' obj"
    "\<exists>v. named_property n ''message'' obj = Inr v \<and> as_buffer n v = Inr dat"
proof -
  obtain b where b: "create_buffer n dat = Inr b" "as_buffer n b = Inr dat" using create_buffer_ok by blast
  show ?thesis
    by (rule typed_objectE [of "[(''message'', Some (Inr b))]" "''send_data''"])
      (use b that in \<open>auto simp: node_send_data_def ascii_def\<close>)
qed

lemma node_failed_reason_ok: "\<exists>v. node_failed_reason n r = Inr v"
  by (cases r) (simp_all add: created(1))

lemma node_transaction_failed_ok:
  obtains obj where "node_transaction_failed n h r = Inr obj" "typed_object n ''transaction_fail'' obj"
    "\<exists>v w. named_property n ''handle'' obj = Inr v \<and> named_property n ''value'' v = Inr w \<and> as_int32 n w = Inr h"
proof -
  obtain v where v: "node_handle n h = Inr v" "\<exists>w. named_property n ''value'' v = Inr w \<and> as_int32 n w = Inr h"
    using node_handle_ok by blast
  obtain w where w: "node_failed_reason n r = Inr w" using node_failed_reason_ok by blast
  show ?thesis
    by (rule typed_objectE [of "[(''handle'', Some (Inr v)), (''reason'', Some (Inr w))]" "''transaction_fail''"])
      (use v w that in \<open>auto simp: node_transaction_failed_def ascii_def\<close>)
qed

lemma node_sleep_ok:
  obtains obj where "node_sleep n d = Inr obj" "typed_object n ''sleep'' obj"
    "\<exists>v. named_property n ''timeout_ms'' obj = Inr v \<and> as_int32 n v = Inr (to_int32 (sleep_ms d))"
proof -
  obtain v where v: "create_int32 n (to_int32 (sleep_ms d)) = Inr v" "as_int32 n v = Inr (to_int32 (sleep_ms d))"
    using create_int32_ok by blast
  show ?thesis
    by (rule typed_objectE [of "[(''timeout_ms'', Some (Inr v))]" "''sleep''"])
      (use v that in \<open>auto simp: node_sleep_def ascii_def\<close>)
qed

lemma node_endpoint_ok:
  assumes "ip_text px (ep_address ep) t"
  obtains obj where "node_endpoint n px ep = Some (Inr obj)"
    "\<exists>v. named_property n ''addr'' obj = Inr v \<and> (ascii t \<longrightarrow> as_string n v = Inr t)"
    "\<exists>v. named_property n ''port'' obj = Inr v \<and> as_int32 n v = Inr (ucast (ep_port ep))"
proof -
  obtain a where a: "create_string n t = Inr a" "ascii t \<longrightarrow> as_string n a = Inr t" using create_string_ok by blast
  obtain p where p: "create_int32 n (ucast (ep_port ep)) = Inr p" "as_int32 n p = Inr (ucast (ep_port ep))"
    using create_int32_ok by blast
  let ?es = "[(''addr'', Some (Inr a :: 'v result)), (''port'', Some (Inr p))]"
  have "concat (map entry_err ?es) = []" "distinct (map fst ?es)" by simp_all
  then obtain obj where "create_object n ?es = Inr obj" "as_object n obj = Inr obj"
    "list_all (\<lambda>(k, m). \<forall>v. m = Some (Inr v) \<longrightarrow> named_property n k obj = Inr v) ?es"
    by (rule object_of)
  then show ?thesis using that [of obj] a p by (simp add: node_endpoint_def ip_to_string_text [OF assms])
qed

lemma node_transaction_ok_ok:
  assumes "ip_text px (ep_address ep) t" "message_printable cv px msg" "h_method (m_header msg) = binding_method"
  obtains obj res where "node_transaction_ok n cv px ep msg rtt = Some (Inr obj)" "typed_object n ''transaction_ok'' obj"
    "named_property n ''result'' obj = Inr res"
    "\<exists>v. named_property n ''addr'' res = Inr v \<and> (ascii t \<longrightarrow> as_string n v = Inr t)"
    "\<exists>v. named_property n ''port'' res = Inr v \<and> as_int32 n v = Inr (ucast (ep_port ep))"
proof -
  obtain res where res: "node_endpoint n px ep = Some (Inr res)"
    "\<exists>v. named_property n ''addr'' res = Inr v \<and> (ascii t \<longrightarrow> as_string n v = Inr t)"
    "\<exists>v. named_property n ''port'' res = Inr v \<and> as_int32 n v = Inr (ucast (ep_port ep))"
    by (rule node_endpoint_ok [OF assms(1)])
  obtain m where m: "node_message n cv px msg = Some (Inr m)" by (rule node_message_Inr [OF assms(2,3)])
  have r: "entry_err (''rtt_us'', map_option (\<lambda>rtt. create_int32 n (to_int32 rtt)) rtt) = []"
    by (cases rtt) simp_all
  show ?thesis
    by (rule typed_objectE [of "[(''result'', Some (Inr res)), (''response'', Some (Inr m)),
          (''rtt_us'', map_option (\<lambda>rtt. create_int32 n (to_int32 rtt)) rtt)]" "''transaction_ok''"])
      (use r res m that in \<open>auto simp: node_transaction_ok_def ascii_def\<close>)
qed

lemma node_transaction_ok_refused:
  assumes "printable px (ep_address ep)" "message_printable cv px msg" "h_method (m_header msg) \<noteq> binding_method"
  shows "node_transaction_ok n cv px ep msg rtt = Some (Inl (NodeError unknown_stun_method))"
proof -
  obtain t where t: "ip_text px (ep_address ep) t" using assms(1) by (auto simp: printable_def)
  obtain res where res: "node_endpoint n px ep = Some (Inr res)" by (rule node_endpoint_ok [OF t])
  let ?es = "[(''type'', Some (create_string n ''transaction_ok'')), (''result'', Some (Inr res)),
      (''response'', Some (Inl (NodeError unknown_stun_method))),
      (''rtt_us'', map_option (\<lambda>rtt. create_int32 n (to_int32 rtt)) rtt)]"
  have r: "entry_err (''rtt_us'', map_option (\<lambda>rtt. create_int32 n (to_int32 rtt)) rtt) = []"
    by (cases rtt) simp_all
  have "create_object n ?es = Inl (NodeError unknown_stun_method)"
    using create_object_err [of ?es] r by simp
  then show ?thesis by (simp add: node_transaction_ok_def res node_message_Inl [OF assms(2,3)])
qed

lemma node_effect_object:
  assumes "effect_printable cv px e" "\<not> effect_refused e"
  shows "\<exists>obj. node_effect n cv px e = Some (Inr obj) \<and> typed_object n (effect_name e) obj"
proof (cases e)
  case (SendData h dat)
  then show ?thesis using node_send_data_ok [of dat] by auto
next
  case (TransactionOk h ep msg rtt)
  then obtain t where t: "ip_text px (ep_address ep) t" using assms(1) by (auto simp: printable_def)
  show ?thesis
    by (rule node_transaction_ok_ok [OF t, of cv msg rtt]) (use assms TransactionOk in auto)
next
  case (TransactionFailed h r)
  then show ?thesis using node_transaction_failed_ok [of h r] by auto
next
  case (Sleep d)
  then show ?thesis using node_sleep_ok [of d] by auto
next
  case Idle
  show ?thesis by (rule typed_objectE [of "[]" "''idle''"]) (use Idle in \<open>auto simp: ascii_def\<close>)
qed

end

section \<open>Properties\<close>

text \<open>
  C22.  Every effect becomes an object whose \<open>type\<close> is one of the five names and tells which effect it is,
  provided that the system can print the addresses in it; the one exception is a completed transaction
  whose response is not of the binding method, which is refused with an error.
\<close>

theorem effect_object_typed:
  assumes "js_values n" "effect_printable cv px e"
  shows "\<exists>r. node_effect n cv px e = Some r \<and>
    (if effect_refused e then r = Inl (NodeError unknown_stun_method)
     else \<exists>obj. r = Inr obj \<and> typed_object n (effect_name e) obj)"
proof (cases "effect_refused e")
  case True
  then show ?thesis using js_values.node_transaction_ok_refused [OF assms(1)] assms(2) by (cases e) auto
next
  case False
  then show ?thesis using js_values.node_effect_object [OF assms(1,2)] by auto
qed

theorem effect_object_typed_witness:
  "\<exists>obj. node_effect js_napi list_view sample_posix (TransactionFailed 7 Timeout) = Some (Inr obj)
     \<and> typed_object js_napi ''transaction_fail'' obj"
  using effect_object_typed [OF js.js_values_axioms, of list_view sample_posix "TransactionFailed 7 Timeout"] by simp

lemma sleep_positive:
  assumes "reachable c" "client_next now c = (c', Sleep d)" "d \<noteq> - (2 ^ 63)"
  shows "0 < d"
proof -
  have inv: "list_all queued_kind (cl_effects (next_loop now c))"
    using client_inv_loop [OF reachable_inv [OF assms(1)]] by (simp add: client_inv_def)
  show ?thesis
  proof (cases rule: client_next_cases [of now c])
    case (sleep tp h rest)
    then have d: "d = sint (tp - now)" "sint (- (tp - now)) < 0" using assms(2) by (simp_all add: tp_minus_eq is_after_sint)
    have "- (2 ^ 63) < d" "d < 2 ^ 63"
      using d(1) assms(3) sint_ge [of "tp - now"] sint_lt [of "tp - now"] by auto
    from sint_neg_word_of_int_64 [OF this] show ?thesis using d by simp
  qed (use inv assms(2) in auto)
qed

lemma sleep_ms_bounds:
  assumes "0 < d"
  shows "d \<le> 1000 * sleep_ms d" "1000 * sleep_ms d < d + 1000"
proof -
  have e: "d sdiv 1000 = d div 1000" using assms by (simp add: signed_divide_int_def)
  have "d div 1000 * 1000 + d mod 1000 = d" "0 \<le> d mod 1000" "d mod 1000 < 1000" by simp_all
  then show "d \<le> 1000 * sleep_ms d" "1000 * sleep_ms d < d + 1000"
    unfolding sleep_ms_def e Let_def by (auto split: if_splits)
qed

text \<open>
  C23.  When the client asks to sleep, the number of milliseconds that JavaScript gets is never too short
  and less than a millisecond too long: a caller who waits for it calls \<open>next\<close> when the timer is due.
  The sleep must be below the range of a 32-bit number of milliseconds, about 24 days.
\<close>

theorem sleep_timeout_bounds:
  assumes "js_values n" "reachable c" "client_next now c = (c', Sleep d)" "\<bar>d\<bar> \<le> 2147483647000"
  shows "\<exists>obj v ms. node_client_next n cv px now (Inr c) = (Inr c', Some (Inr obj)) \<and> typed_object n ''sleep'' obj
    \<and> named_property n ''timeout_ms'' obj = Inr v \<and> as_int32 n v = Inr ms
    \<and> 0 < sint ms \<and> d \<le> 1000 * sint ms \<and> 1000 * sint ms < d + 1000"
proof -
  have d: "0 < d" by (rule sleep_positive [OF assms(2,3)]) (use assms(4) in simp)
  note b = sleep_ms_bounds [OF d]
  have "sleep_ms d < 2 ^ 31 \<and> - (2 ^ 31) \<le> sleep_ms d" using b d assms(4) by simp
  then have s: "sint (to_int32 (sleep_ms d)) = sleep_ms d" by (simp add: signed_of_int signed_take_bit_int_eq_self)
  obtain obj v where "node_sleep n d = Inr obj" "typed_object n ''sleep'' obj" "named_property n ''timeout_ms'' obj = Inr v"
    "as_int32 n v = Inr (to_int32 (sleep_ms d))"
    using js_values.node_sleep_ok [OF assms(1), of d] by metis
  then show ?thesis using assms(3) b d s by (auto simp: node_client_next_def)
qed

lemma plain_client_sleeps: "\<exists>c'. client_next 1500 plain_client = (c', Sleep 499500)"
proof -
  have "case client_next 1500 plain_client of (_, Sleep d) \<Rightarrow> d = 499500 | _ \<Rightarrow> False" by code_simp
  then show ?thesis by (cases "client_next 1500 plain_client"; cases "snd (client_next 1500 plain_client)") auto
qed

theorem sleep_timeout_bounds_witness:
  "\<exists>c' obj v ms. node_client_next js_napi list_view sample_posix 1500 (Inr plain_client) = (Inr c', Some (Inr obj))
     \<and> named_property js_napi ''timeout_ms'' obj = Inr v \<and> as_int32 js_napi v = Inr ms \<and> sint ms = 500"
proof -
  obtain c' where "client_next 1500 plain_client = (c', Sleep 499500)" using plain_client_sleeps by blast
  from sleep_timeout_bounds [OF js.js_values_axioms plain_client_reachable this, of list_view sample_posix]
  obtain obj v ms where "node_client_next js_napi list_view sample_posix 1500 (Inr plain_client) = (Inr c', Some (Inr obj))"
    "named_property js_napi ''timeout_ms'' obj = Inr v" "as_int32 js_napi v = Inr ms" "499500 \<le> 1000 * sint ms" "1000 * sint ms < 500500"
    by auto
  moreover from this have "sint ms = 500" by linarith
  ultimately show ?thesis by blast
qed

text \<open>
  A transaction completed by a response that is not of the binding method (the client does not look
  at the method) is lost in JavaScript: \<open>next\<close> fails with an error about the method, and the transaction
  is already gone, so that no later call reports its end.
\<close>

theorem foreign_method_response_lost:
  assumes "js_values n" "client_next now c = (c', TransactionOk h ep msg rtt)" "h_method (m_header msg) \<noteq> binding_method"
    and "effect_printable cv px (TransactionOk h ep msg rtt)"
  shows "node_client_next n cv px now (Inr c) = (Inr c', Some (Inl (NodeError unknown_stun_method))) \<and> cl_tmap c' h = None"
proof -
  have "cl_tmap c' h = None"
    using assms(2) by (cases rule: client_next_cases [of now c]) (force simp: cleanup_def split: option.splits)+
  then show ?thesis
    using assms(2,4) js_values.node_transaction_ok_refused [OF assms(1) _ _ assms(3)] by (simp add: node_client_next_def)
qed

definition foreign_answer :: message where
  "foreign_answer = sample_answer\<lparr>m_header := (m_header sample_answer)\<lparr>h_method := 2\<rparr>,
     m_attribute_set := set_create
       [XorMappedAddressAttribute (xored_from_address list_view (AddressV4 [192, 0, 2, 1]) sample_tid) 5000] []\<rparr>"

definition foreign_client :: client where
  "foreign_client = fst (response list_view 2000 [] (Some foreign_answer) plain_client)"

theorem foreign_method_response_lost_witness:
  "\<exists>c'. node_client_next js_napi list_view sample_posix 2000 (Inr foreign_client) = (Inr c', Some (Inl (NodeError unknown_stun_method)))
     \<and> cl_tmap c' 0 = None"
proof -
  have "case client_next 2000 foreign_client of
      (_, TransactionOk h ep msg _) \<Rightarrow> h = 0 \<and> ep_address ep = AddressV4 [192, 0, 2, 1] \<and> h_method (m_header msg) = 2 \<and>
        (case get_xor_mapped (m_attribute_set msg) of
           Some (xa, _) \<Rightarrow> xored_to_address list_view xa (h_transaction_id (m_header msg)) = AddressV4 [192, 0, 2, 1] | None \<Rightarrow> False)
    | _ \<Rightarrow> False" by code_simp
  then obtain c' ep msg rtt where n: "client_next 2000 foreign_client = (c', TransactionOk 0 ep msg rtt)"
    "ep_address ep = AddressV4 [192, 0, 2, 1]" "h_method (m_header msg) = 2"
    "case get_xor_mapped (m_attribute_set msg) of
       Some (xa, _) \<Rightarrow> xored_to_address list_view xa (h_transaction_id (m_header msg)) = AddressV4 [192, 0, 2, 1] | None \<Rightarrow> False"
    by (cases "client_next 2000 foreign_client"; cases "snd (client_next 2000 foreign_client)") auto
  have "printable sample_posix (AddressV4 [192, 0, 2, 1])" using sample_posix_text(1) by (auto simp: printable_def)
  then have "effect_printable list_view sample_posix (TransactionOk 0 ep msg rtt)"
    using n(2,4) by (auto simp: message_printable_def split: option.splits)
  then show ?thesis
    using foreign_method_response_lost [OF js.js_values_axioms n(1)] n(3) by (simp add: binding_method_def)
qed

section \<open>The states of a client object\<close>

text \<open>The states that any sequence of JavaScript calls can lead a client object to, whatever the arguments.\<close>

inductive node_client_state :: "'v napi \<Rightarrow> ('g \<Rightarrow> u32 \<times> 'g) \<Rightarrow> client \<Rightarrow> bool" for n :: "'v napi" and r :: "'g \<Rightarrow> u32 \<times> 'g" where
  constructed: "node_client_constructor n cv this_arg info = Inr (v, c) \<Longrightarrow> node_client_state n r c"
| created: "node_client_state n r c \<Longrightarrow>
    node_client_create n r load cv ord px sha1 g now info (Inr c) = Some (g', Inr c', res) \<Longrightarrow> node_client_state n r c'"
| advanced: "node_client_state n r c \<Longrightarrow> node_client_next n cv px now (Inr c) = (Inr c', res') \<Longrightarrow> node_client_state n r c'"
| answered: "node_client_state n r c \<Longrightarrow> node_client_response n cv now info (Inr c) = (Inr c', res) \<Longrightarrow> node_client_state n r c'"

lemma node_create_reachable:
  assumes "reachable c" "node_client_create n r load cv ord px sha1 g now info (Inr c) = Some (g', Inr c', res)"
  shows "reachable c'"
proof (cases "rbind (rbind (info 0) (as_object n)) (node_request n cv px sha1)")
  case (Inl e)
  then show ?thesis using assms by (simp add: node_client_create_def Let_def)
next
  case (Inr rq)
  then obtain hr where "client_create r load cv ord g now rq c = Some (g', c', hr)"
    using assms(2) by (auto simp: node_client_create_def Let_def)
  then show ?thesis using assms(1) by (blast intro: reachable.step client_create_step)
qed

lemma node_response_reachable:
  assumes "reachable c" "node_client_response n cv now info (Inr c) = (Inr c', res)"
  shows "reachable c'"
proof (cases "rbind (info 0) (as_buffer n)")
  case (Inl e)
  then show ?thesis using assms by (simp add: node_client_response_def Let_def)
next
  case (Inr view)
  then have "response cv now view None c = (c', snd (response cv now view None c))"
    using assms(2) by (auto simp: node_client_response_def Let_def split: prod.splits)
  then show ?thesis using assms(1) by (blast intro: reachable.step client_step.respond)
qed

lemma node_state_reachable: "node_client_state n r c \<Longrightarrow> reachable c"
proof (induction rule: node_client_state.induct)
  case (constructed cv this_arg info v c)
  then show ?case by (auto simp: node_client_constructor_def combine2_eq_Inr Let_def intro: reachable.start)
next
  case (advanced c cv px now c' res)
  then have "client_next now c = (c', snd (client_next now c))" by (auto simp: node_client_next_def split: prod.splits)
  then show ?case using advanced.IH by (blast intro: reachable.step client_step.tick)
qed (auto intro: node_create_reachable node_response_reachable)

lemma typed_object_unique: "typed_object n t obj \<Longrightarrow> typed_object n t' obj \<Longrightarrow> t' = t"
  by (auto simp: typed_object_def)

context js_values
begin

lemma created_typed:
  assumes "create_object n ((''type'', Some (create_string n t)) # es) = Inr obj" "distinct (''type'' # map fst es)" "ascii t"
  shows "typed_object n t obj"
proof -
  obtain v where v: "create_string n t = Inr v" "as_string n v = Inr t" using create_string_ok [of t] assms(3) by blast
  then show ?thesis using create_object_Inr(3) [OF assms(1)] assms(2) by (simp add: typed_object_def)
qed

lemma node_effect_typed:
  assumes "node_effect n cv px e = Some (Inr obj)"
  shows "typed_object n (effect_name e) obj"
proof (cases e)
  case (TransactionOk h ep msg rtt)
  then show ?thesis using assms effect_name_ascii [of e]
    by (auto simp: node_transaction_ok_def intro: created_typed split: bind_splits)
qed (use assms effect_name_ascii [of e] in
  \<open>auto simp: node_send_data_def node_transaction_failed_def node_sleep_def intro: created_typed\<close>)

end

text \<open>
  C13.  A JavaScript program that stops when it sees an \<open>idle\<close> object leaves nothing behind: in every state
  that calls of the class can lead to, \<open>next\<close> returns an object of type \<open>idle\<close> only if no transaction is
  left and no effect is queued.
\<close>

theorem node_idle_when_done:
  assumes "js_values n" "node_client_state n r c" "node_client_next n cv px now (Inr c) = (Inr c', Some (Inr obj))"
    and "typed_object n ''idle'' obj"
  shows "cl_tmap c' = Map.empty \<and> cl_tid_to_handle c' = Map.empty \<and> cl_effects c' = []"
proof -
  obtain e where e: "client_next now c = (c', e)" "node_effect n cv px e = Some (Inr obj)"
    using assms(3) by (auto simp: node_client_next_def split: prod.splits)
  have "effect_name e = ''idle''"
    using typed_object_unique [OF assms(4) js_values.node_effect_typed [OF assms(1) e(2)]] .
  then have "e = Idle" by (cases e) simp_all
  then show ?thesis using idle_empty [OF reachable_inv [OF node_state_reachable [OF assms(2)]]] e(1) by simp
qed

theorem node_idle_when_done_witness:
  "\<exists>c c' obj. node_client_constructor js_napi list_view (JObject []) (js_args [JObject []]) = Inr (JObject [], c)
     \<and> node_client_next js_napi list_view sample_posix 5 (Inr c) = (Inr c', Some (Inr obj)) \<and> cl_tmap c' = Map.empty"
proof -
  let ?c = "client_new default_settings"
  have new: "node_client_constructor js_napi list_view (JObject []) (js_args [JObject []]) = Inr (JObject [], ?c)"
    by (simp add: node_client_constructor_def node_settings_def js_args_def js_napi_def default_settings_def)
  have "client_next 5 ?c = (?c, Idle)" by (simp add: client_next_def next_loop.simps client_new_def)
  then have nx: "node_client_next js_napi list_view sample_posix 5 (Inr ?c) = (Inr ?c, Some (Inr (JObject [(''type'', JString ''idle'')])))"
    by (simp add: node_client_next_def js_napi_def)
  have "typed_object js_napi ''idle'' (JObject [(''type'', JString ''idle'')])" by (simp add: typed_object_def js_napi_def)
  from node_idle_when_done [OF js.js_values_axioms node_client_state.constructed [OF new, of "\<lambda>g :: u32. (g, g)"] nx this] new nx
  show ?thesis by blast
qed

end
