(* ===== verification/Node_Server.thy ===== *)
theory Node_Server
  imports Node_Message Node_Openssl Stun_Server
begin

text \<open>
  The stateless server as a JavaScript class: \<open>node/node_stun/node_stun_server_stateless.cpp\<close>.  As for the
  client, \<open>self\<close> is what \<open>unwrap\<close> of the receiver gives and an operation returns it with its new state.
\<close>

definition node_server_constructor :: "'v napi \<Rightarrow> hash_func \<Rightarrow> 'v \<Rightarrow> ('v \<times> server) result" where
  "node_server_constructor n sha1 this_arg =
     rbind (as_object n this_arg) (\<lambda>obj. rmap (\<lambda>v. (v, stateless sha1 None)) (wrap n obj))"

definition node_extract_rinfo :: "'v napi \<Rightarrow> craftpp \<Rightarrow> posix \<Rightarrow> 'v \<Rightarrow> endpoint result" where
  "node_extract_rinfo n cv px v =
     (let v_as_obj = as_object n v;
          addr_rv = rbind (rbind (rbind v_as_obj (named_property n ''address'')) (as_string n)) (ip_from_string px);
          port_rv = rbind (rbind v_as_obj (named_property n ''port'')) (as_int32 n)
      in combine2 cv (\<lambda>addr port. Inr (UdpEndpoint \<lparr>ep_address = addr, ep_port = ucast port\<rparr>)) addr_rv port_rv)"

fun node_process_result ::
    "'v napi \<Rightarrow> craftpp \<Rightarrow> (attr_map \<Rightarrow> attr_map) \<Rightarrow> posix \<Rightarrow> process_result \<Rightarrow> 'v result option" where
  "node_process_result n cv ord px (Ignore maybe_msg) =
     map_option (\<lambda>msg. create_object n [(''result'', Some (create_string n ''ignore'')), (''message'', msg)])
       (omaybe maybe_msg (node_message n cv px))"
| "node_process_result n cv ord px (Error err) = Some (Inl err)"
| "node_process_result n cv ord px (Respond rsp _ maybe_integrity) =
     Some (create_object n
       [(''result'', Some (create_string n ''respond'')),
        (''data'', Some (rbind (message_build cv ord rsp maybe_integrity) (create_buffer n)))])"

definition node_server_process ::
    "'v napi \<Rightarrow> craftpp \<Rightarrow> (attr_map \<Rightarrow> attr_map) \<Rightarrow> posix \<Rightarrow> (nat \<Rightarrow> 'v result) \<Rightarrow> server result
     \<Rightarrow> server result \<times> 'v result option" where
  "node_server_process n cv ord px info self =
     (let buffer_rv = rbind (info 0) (as_buffer n);
          rinfo_rv = rbind (info 1) (node_extract_rinfo n cv px)
      in case (buffer_rv, rinfo_rv, self) of
           (Inr msg, Inr endpoint, Inr server) \<Rightarrow>
             (let (server, result) = server_process cv endpoint msg server
              in (Inr server, node_process_result n cv ord px result))
         | _ \<Rightarrow> (self, Some (Inl (pick_err cv (err_list buffer_rv @ err_list rinfo_rv @ err_list self)))))"

definition node_server_add_user ::
    "'v napi \<Rightarrow> craftpp \<Rightarrow> hash_func \<Rightarrow> (nat \<Rightarrow> 'v result) \<Rightarrow> server result \<Rightarrow> server result \<times> 'v result" where
  "node_server_add_user n cv sha1 info self =
     (let username_rv = rmap str_bytes (rbind (info 0) (as_string n));
          password_rv = rbind (rbind (info 1) (as_string n)) (\<lambda>str. short_term cv (str_bytes str) sha1)
      in case (username_rv, password_rv, self) of
           (Inr username, Inr password, Inr server) \<Rightarrow> (Inr (add_user username password server), create_undefined n)
         | _ \<Rightarrow> (self, Inl (pick_err cv (err_list username_rv @ err_list password_rv @ err_list self))))"

section \<open>Reading the remote endpoint\<close>

text \<open>The remote information that Node.js passes with a datagram.\<close>

definition rinfo_of :: "'v napi \<Rightarrow> 'v \<Rightarrow> string \<Rightarrow> u32 \<Rightarrow> bool" where
  "rinfo_of n v t p \<longleftrightarrow> (\<exists>obj a q. as_object n v = Inr obj \<and> named_property n ''address'' obj = Inr a \<and> as_string n a = Inr t
     \<and> named_property n ''port'' obj = Inr q \<and> as_int32 n q = Inr p)"

lemma extract_rinfo_text:
  assumes "rinfo_of n v t p" "ip_text px a t" "address_wf a"
  shows "node_extract_rinfo n cv px v = Inr (UdpEndpoint \<lparr>ep_address = a, ep_port = ucast p\<rparr>)"
  using assms(1) ip_from_text [OF assms(2,3)] by (auto simp: node_extract_rinfo_def rinfo_of_def)

definition result_object :: "'v napi \<Rightarrow> string \<Rightarrow> 'v \<Rightarrow> bool" where
  "result_object n t obj \<longleftrightarrow> (\<exists>v. named_property n ''result'' obj = Inr v \<and> as_string n v = Inr t)"

context js_values
begin

lemma node_respond_ok:
  assumes "message_build cv ord rsp mi = Inr out"
  obtains obj where "node_process_result n cv ord px (Respond rsp msg mi) = Some (Inr obj)" "result_object n ''respond'' obj"
    "\<exists>v. named_property n ''data'' obj = Inr v \<and> as_buffer n v = Inr out"
proof -
  obtain v where v: "create_string n ''respond'' = Inr v" "as_string n v = Inr ''respond''"
    using create_string_ok [of "''respond''"] by (auto simp: ascii_def)
  obtain b where b: "create_buffer n out = Inr b" "as_buffer n b = Inr out" using create_buffer_ok by blast
  let ?es = "[(''result'', Some (Inr v :: 'v result)), (''data'', Some (Inr b))]"
  have "concat (map entry_err ?es) = []" "distinct (map fst ?es)" by simp_all
  then obtain obj where "create_object n ?es = Inr obj" "as_object n obj = Inr obj"
    "list_all (\<lambda>(k, m). \<forall>v. m = Some (Inr v) \<longrightarrow> named_property n k obj = Inr v) ?es"
    by (rule object_of)
  then show ?thesis using that [of obj] v b by (simp add: assms result_object_def)
qed

lemma node_ignore_ok:
  assumes "omaybe m (node_message n cv px) = Some msg" "entry_err (''message'', msg) = []"
  obtains obj where "node_process_result n cv ord px (Ignore m) = Some (Inr obj)" "result_object n ''ignore'' obj"
proof -
  obtain v where v: "create_string n ''ignore'' = Inr v" "as_string n v = Inr ''ignore''"
    using create_string_ok [of "''ignore''"] by (auto simp: ascii_def)
  let ?es = "[(''result'', Some (Inr v :: 'v result)), (''message'', msg)]"
  have "concat (map entry_err ?es) = []" "distinct (map fst ?es)" using assms(2) by simp_all
  then obtain obj where "create_object n ?es = Inr obj" "as_object n obj = Inr obj"
    "list_all (\<lambda>(k, m). \<forall>v. m = Some (Inr v) \<longrightarrow> named_property n k obj = Inr v) ?es"
    by (rule object_of)
  then show ?thesis using that [of obj] v by (simp add: assms(1) result_object_def)
qed

lemma node_respond_refused:
  assumes "message_build cv ord rsp mi = Inl e"
  shows "node_process_result n cv ord px (Respond rsp msg mi) = Some (Inl e)"
  using create_object_err [of "[(''result'', Some (create_string n ''respond'')), (''data'', Some (Inl e))]"] assms
  by simp

lemma node_ignore_message:
  assumes "message_printable cv px msg"
  shows "if h_method (m_header msg) = binding_method
    then \<exists>obj. node_process_result n cv ord px (Ignore (Some msg)) = Some (Inr obj) \<and> result_object n ''ignore'' obj
    else node_process_result n cv ord px (Ignore (Some msg)) = Some (Inl (NodeError unknown_stun_method))"
proof (cases "h_method (m_header msg) = binding_method")
  case True
  obtain m where "node_message n cv px msg = Some (Inr m)" by (rule node_message_Inr [OF assms True])
  then obtain obj where "node_process_result n cv ord px (Ignore (Some msg)) = Some (Inr obj)" "result_object n ''ignore'' obj"
    using node_ignore_ok [of "Some msg" cv px "Some (Inr m)"] by simp metis
  then show ?thesis using True by auto
next
  case False
  have "create_object n [(''result'', Some (create_string n ''ignore'')), (''message'', Some (Inl (NodeError unknown_stun_method)))]
      = Inl (NodeError unknown_stun_method)"
    using create_object_err [of "[(''result'', Some (create_string n ''ignore'')),
        (''message'', Some (Inl (NodeError unknown_stun_method)))]"] by simp
  then show ?thesis using False node_message_Inl [OF assms False] by simp
qed

end

section \<open>Properties\<close>

text \<open>
  C14.  What \<open>process\<close> gives JavaScript for a datagram and its remote information: the state changes as the
  server's \<open>process\<close> says, the port is the low 16 bits of the number, a reply becomes a \<open>respond\<close>
  object with exactly the bytes of the built reply, a failed build or hash is an error, and a
  datagram that is no STUN message is an \<open>ignore\<close> object.  A message that the server ignores is an
  \<open>ignore\<close> object only if it is of the binding method; any other makes the call fail.
\<close>

theorem node_process_outcome:
  assumes "js_values n" "info 0 = Inr mv" "as_buffer n mv = Inr view" "info 1 = Inr rv" "rinfo_of n rv t p"
    and "ip_text px a t" "address_wf a"
    and "server_process cv (UdpEndpoint \<lparr>ep_address = a, ep_port = of_nat (unat p mod 65536)\<rparr>) view s = (s', result)"
  shows "\<exists>r. node_server_process n cv ord px info (Inr s) = (Inr s', r) \<and>
    (case result of
       Respond rsp msg mi \<Rightarrow>
         (case message_build cv ord rsp mi of
            Inl e \<Rightarrow> r = Some (Inl e)
          | Inr out \<Rightarrow> \<exists>obj v. r = Some (Inr obj) \<and> result_object n ''respond'' obj
              \<and> named_property n ''data'' obj = Inr v \<and> as_buffer n v = Inr out)
     | Error e \<Rightarrow> r = Some (Inl e)
     | Ignore None \<Rightarrow> \<exists>obj. r = Some (Inr obj) \<and> result_object n ''ignore'' obj
     | Ignore (Some msg) \<Rightarrow> message_printable cv px msg \<longrightarrow>
         (if h_method (m_header msg) = binding_method then \<exists>obj. r = Some (Inr obj) \<and> result_object n ''ignore'' obj
          else r = Some (Inl (NodeError unknown_stun_method))))"
proof -
  have port: "(of_nat (unat p mod 65536) :: port) = ucast p"
    by (simp add: word_unat_eq_iff unsigned_ucast_eq unat_of_nat take_bit_eq_mod)
  have step: "node_server_process n cv ord px info (Inr s) = (Inr s', node_process_result n cv ord px result)"
    using assms(2-4,8) extract_rinfo_text [OF assms(5-7), of cv] unfolding port by (simp add: node_server_process_def)
  show ?thesis
  proof (cases result)
    case (Respond rsp msg mi)
    then show ?thesis
      using js_values.node_respond_refused [OF assms(1), of cv ord rsp mi _ px msg]
        js_values.node_respond_ok [OF assms(1), of cv ord rsp mi _ px msg] step
      by (cases "message_build cv ord rsp mi") (simp_all del: node_process_result.simps, metis)
  next
    case (Ignore mm)
    then show ?thesis
    proof (cases mm)
      case None
      then show ?thesis
        using js_values.node_ignore_ok [OF assms(1), of None] step Ignore by (simp del: node_process_result.simps) metis
    next
      case (Some msg)
      then show ?thesis
        using js_values.node_ignore_message [OF assms(1), of cv px msg ord] step Ignore
        by (simp del: node_process_result.simps split: if_splits)
    qed
  qed (use step in simp)
qed

definition foreign_datagram :: bytes where
  "foreign_datagram = [0, 2, 0, 0, 0x21, 0x12, 0xA4, 0x42, 1, 2, 3, 4, 5, 6, 7, 8, 9, 10, 11, 12]"

lemma foreign_datagram_ignored:
  "\<exists>s' msg. server_process list_view (UdpEndpoint \<lparr>ep_address = AddressV4 [192, 0, 2, 1], ep_port = 5000\<rparr>) foreign_datagram
     (stateless buffer_sha1 None) = (s', Ignore (Some msg)) \<and> h_method (m_header msg) = 2 \<and> get_xor_mapped (m_attribute_set msg) = None"
proof -
  have "case snd (server_process list_view (UdpEndpoint \<lparr>ep_address = AddressV4 [192, 0, 2, 1], ep_port = 5000\<rparr>) foreign_datagram
      (stateless buffer_sha1 None)) of
      Ignore (Some msg) \<Rightarrow> h_method (m_header msg) = 2 \<and> get_xor_mapped (m_attribute_set msg) = None | _ \<Rightarrow> False"
    by code_simp
  then show ?thesis by (simp split: process_result.splits option.splits) (metis prod.collapse)
qed

theorem node_process_outcome_witness:
  "\<exists>s'. node_server_process js_napi list_view rev sample_posix
      (js_args [JBuffer foreign_datagram, JObject [(''address'', JString ''192.0.2.1''), (''port'', JNumber 70536)]])
      (Inr (stateless buffer_sha1 None)) = (Inr s', Some (Inl (NodeError unknown_stun_method)))"
proof -
  let ?rv = "JObject [(''address'', JString ''192.0.2.1''), (''port'', JNumber 70536)]"
  let ?info = "js_args [JBuffer foreign_datagram, ?rv]"
  have args: "?info 0 = Inr (JBuffer foreign_datagram)" "as_buffer js_napi (JBuffer foreign_datagram) = Inr foreign_datagram"
    "?info 1 = Inr ?rv" "rinfo_of js_napi ?rv ''192.0.2.1'' 70536"
    by (simp_all add: js_args_def js_napi_def rinfo_of_def)
  obtain s' msg where sv: "server_process list_view (UdpEndpoint \<lparr>ep_address = AddressV4 [192, 0, 2, 1],
      ep_port = of_nat (unat (70536 :: u32) mod 65536)\<rparr>) foreign_datagram (stateless buffer_sha1 None) = (s', Ignore (Some msg))"
    "h_method (m_header msg) = 2" "get_xor_mapped (m_attribute_set msg) = None"
    using foreign_datagram_ignored by auto
  have wf: "address_wf (AddressV4 [192, 0, 2, 1])" by simp
  show ?thesis
    using node_process_outcome [where info = ?info, OF js.js_values_axioms args sample_posix_text(1) wf sv(1), of rev] sv(2,3)
    by (auto simp: message_printable_def binding_method_def)
qed

end
