(* ===== verification/Node_Exchange.thy ===== *)
theory Node_Exchange
  imports Node_Client Node_Server
begin

text \<open>
  The two JavaScript classes together: the steps that lead from \<open>create\<close> on a new client through
  \<open>process\<close> of the server to the effect that reports the discovered address.
\<close>

section \<open>The request of a new client\<close>

lemma not_err_Inr: "\<not> is_err r \<Longrightarrow> \<exists>x. r = Inr x"
  by (cases r) simp_all

lemma message_build_total:
  assumes "\<And>i xs. mi = Some i \<Longrightarrow> \<not> is_err (id_hash i xs)"
  shows "\<exists>out. message_build cv ord m mi = Inr out"
proof -
  have hmac: "\<exists>d. hmac_digest xs op ip h = Inr d" if total: "\<And>xs. \<not> is_err (h xs)" for xs op ip and h :: hash_func
  proof -
    obtain d1 where "h (ip # xs) = Inr d1" using not_err_Inr [OF total] by blast
    moreover obtain d2 where "h [op, d1] = Inr d2" using not_err_Inr [OF total] by blast
    ultimately show ?thesis by (simp add: hmac_digest_def)
  qed
  show ?thesis
  proof (cases mi)
    case (Some i)
    let ?b = "fold (add_unknown cv) (as_unknown (m_attribute_set m)) (fold (add_known cv) (ord (as_map (m_attribute_set m))) ([], 0))"
    have "\<exists>b'. add_integrity cv (m_header m) i b = Inr b'" for b
      using hmac [of "id_hash i" "header_build cv (m_header m) (unat (snd b) + STUN_ATTR_HEADER_SIZE + sha1_size) # fst b"
          "pw_opad (id_password i)" "pw_ipad (id_password i)"] assms [OF Some]
      by (cases b) (auto simp: add_integrity_def Let_def ac_simps)
    then obtain b' where "add_integrity cv (m_header m) i ?b = Inr b'" by blast
    then show ?thesis using Some by (simp add: message_build_def set_build_def Let_def split_beta)
  qed (simp add: message_build_def set_build_def Let_def split_beta)
qed

lemma fresh_client [simp]:
  "cl_tid_to_handle (client_new st) tid = None" "cl_tmap (client_new st) h = None" "cl_timeline (client_new st) = []"
  "cl_effects (client_new st) = []" "cl_settings (client_new st) = st"
  by (simp_all add: client_new_def)

lemma created_timeline:
  assumes "do_create cv ord now tid rq (client_new st) = Some (c', Inr h)"
  shows "cl_timeline c' = [(advance now (rto (rq_path rq) (cl_rto_calc (client_new st))), h)]"
proof -
  obtain dat c1 where d: "allocate_handle (client_new st) = Some (c1, h)" "c' = start_transaction now tid rq dat c1 h"
    using assms by (auto simp: do_create_def split: sum.splits)
  obtain k where "c1 = (client_new st)\<lparr>cl_next_handle := k\<rparr>" using allocate_handle_fields [OF d(1)] by blast
  then show ?thesis by (simp add: d(2) client_simps)
qed

text \<open>A response leaves the timers alone.\<close>

lemma response_timeline: "response cv now view mm c = (c', r) \<Longrightarrow> cl_timeline c' = cl_timeline c"
  by (cases rule: response_cases)
    (auto simp: dispatch_def handle_success_response_def handle_error_response_def handle_alternate_def
      handle_error_code_def fail_unknown_def response_effect_def push_effect_def upd_stat_def Let_def
      split: option.splits prod.splits if_splits process_5xx_result.splits)

lemma next_pops:
  assumes "cl_timeline c = [(tp, h)]" "is_after tp now" "cl_effects c = e # es"
  shows "snd (client_next now c) = e" "cl_timeline (fst (client_next now c)) = [(tp, h)]"
    "cl_effects (fst (client_next now c)) = es"
    "(\<And>k dat. e = SendData k dat \<Longrightarrow> fst (client_next now c) = c\<lparr>cl_effects := es\<rparr>)"
  using next_loop_early [OF assms(1,2)] assms(1,3)
  by (auto simp: client_next_def cleanup_def Let_def split: effect.splits option.splits)

text \<open>Every request that the binding makes is acceptable to a server that knows its user.\<close>

definition known_user :: "server \<Rightarrow> request \<Rightarrow> bool" where
  "known_user s rq \<longleftrightarrow>
     (\<forall>a. rq_maybe_auth rq = Some a \<longrightarrow> length (au_username a) \<le> 65000 \<and> id_hash (au_integrity a) = srv_sha1 s
        \<and> srv_users s (au_username a) = Some (id_password (au_integrity a)))"

lemma request_attrs:
  assumes "rq_attrs rq = []" "rq_unknown_attrs rq = []"
  shows "as_map (m_attribute_set (request_message st tid rq)) =
      (if cs_use_fingerprint st then [(FINGERPRINT, attribute_create (FingerprintAttribute 0))] else []) @
      (case rq_maybe_auth rq of Some a \<Rightarrow> [(USERNAME, attribute_create (UsernameAttribute (au_username a)))] | None \<Rightarrow> [])
    \<or> as_map (m_attribute_set (request_message st tid rq)) =
      (case rq_maybe_auth rq of Some a \<Rightarrow> [(USERNAME, attribute_create (UsernameAttribute (au_username a)))] | None \<Rightarrow> []) @
      (if cs_use_fingerprint st then [(FINGERPRINT, attribute_create (FingerprintAttribute 0))] else [])"
    "as_unknown (m_attribute_set (request_message st tid rq)) = []"
  using assms
  by (auto simp: request_message_def set_create_def emplace_def empty_set_def attribute_create_def Let_def split: option.splits)

lemma node_request_acceptable:
  assumes "rq_attrs rq = []" "rq_unknown_attrs rq = []" "length tid = TRANSACTION_ID_SIZE" "known_user s rq"
  shows "acceptable_request cv s st tid rq"
proof -
  note a = request_attrs [OF assms(1,2), of st tid]
  have "set_buildable cv (m_attribute_set (request_message st tid rq))"
    using a assms(4) by (cases "rq_maybe_auth rq")
      (auto simp: set_buildable_def attrs_wf_def attribute_wf_def attribute_create_def body_size_def set_items_def known_items_def
        map_filter_def length_tlv padding_of_def known_user_def)
  moreover have "get_username (m_attribute_set (request_message st tid rq)) = map_option au_username (rq_maybe_auth rq)"
    using a by (cases "rq_maybe_auth rq") (auto simp: get_username_def access_def attribute_create_def split: if_splits)
  ultimately show ?thesis
    using a(2) assms(3,4) by (simp add: acceptable_request_def known_user_def unknown_comprehension_required_def Let_def)
qed

section \<open>The exchange below the bindings\<close>

lemma reply_header_kept:
  assumes "binary_view cv" "map_order ord" "sha1_function (srv_sha1 s)" "address_wf (endpoint_address ep)"
    and "accepted view msg" "\<not> m_is_rfc3489 msg"
    and "success_reply cv s ep msg i = Respond rsp msg' i'" "\<forall>d. i = Some d \<longrightarrow> id_hash d = srv_sha1 s"
    and "message_build cv ord rsp i' = Inr out" "message_parse cv out st = (st', Inr m')"
  shows "h_method (m_header m') = binding_method"
proof -
  note h = success_reply_header [OF assms(7,5,6)]
  have "h_method (m_header rsp) = binding_method"
    using assms(7) by (auto simp: success_reply_def Let_def split: if_splits)
  moreover obtain st2 m2 where "message_parse cv out st = (st2, Inr m2)" "m_header m2 = m_header rsp"
    using binary_view.build_parse_any [OF assms(1,2) _ binary_view.success_reply_buildable [OF assms(1,7,6,4)] _ assms(9), of st]
      h assms(3,8) by metis
  ultimately show ?thesis using assms(10) by simp
qed

lemma exchange_below:
  fixes st :: client_settings and ord :: "attr_map \<Rightarrow> attr_map"
  defines "mi rq \<equiv> map_option au_integrity (rq_maybe_auth rq)"
  assumes "binary_view cv" "map_order ord" "sha1_function (srv_sha1 s)" "\<And>xs. \<not> is_err (srv_sha1 s xs)"
    and "address_wf (endpoint_address ep)" "acceptable_request cv s st tid rq"
    and "do_create cv ord now tid rq (client_new st) = Some (c', Inr h)"
    and "R = rto (rq_path rq) (cl_rto_calc (client_new st))"
    and "is_after (advance now R) now" "is_after (advance now R) later"
  obtains dat c1 s' rsp msg i out c2 c3 m' rtt a where "client_next now c' = (c1, SendData h dat)"
    "server_process cv ep dat s = (s', Respond rsp msg i)" "message_build cv ord rsp i = Inr out"
    "response cv later out None c1 = (c2, Inr ())"
    "client_next later c2 = (c3, TransactionOk h \<lparr>ep_address = endpoint_address ep, ep_port = endpoint_port ep\<rparr> m' rtt)"
    "h_method (m_header m') = binding_method" "get_xor_mapped (m_attribute_set m') = Some (a, endpoint_port ep)"
    "xored_to_address cv a (h_transaction_id (m_header m')) = endpoint_address ep"
proof -
  have new: "cl_tid_to_handle (client_new st) tid = None" by simp
  obtain dat t where cr: "message_build cv ord (request_message (cl_settings (client_new st)) tid rq) (mi rq) = Inr dat"
      "cl_effects c' = cl_effects (client_new st) @ [SendData h dat]" "cl_tid_to_handle c' tid = Some h" "cl_tmap c' h = Some t"
      "tr_hnd t = h" "tr_maybe_auth t = rq_maybe_auth rq"
    unfolding mi_def by (rule created_transaction [OF assms(8) new])
  note tl = created_timeline [OF assms(8), folded assms(9)]
  define c1 where "c1 = c'\<lparr>cl_effects := []\<rparr>"
  have eff: "cl_effects c' = [SendData h dat]" using cr(2) by simp
  have n1: "client_next now c' = (c1, SendData h dat)"
    using next_pops [OF tl assms(10) eff] by (simp add: prod_eq_iff c1_def)
  obtain s' rsp msg where sv: "server_process cv ep dat s = (s', Respond rsp msg (mi rq))"
      "success_reply cv s ep msg (mi rq) = Respond rsp msg (mi rq)" "accepted dat msg" "\<not> m_is_rfc3489 msg"
      "h_transaction_id (m_header msg) = tid"
    unfolding mi_def
    by (rule server_accepts_request [OF assms(2,3,4,7) cr(1) [unfolded mi_def fresh_client(5)]])
  have hs: "\<forall>d. mi rq = Some d \<longrightarrow> id_hash d = srv_sha1 s"
    using assms(7) by (auto simp: acceptable_request_def Let_def mi_def)
  obtain out where out: "message_build cv ord rsp (mi rq) = Inr out"
    using message_build_total [of "mi rq" cv ord rsp] hs assms(5) by auto
  obtain m' a where m': "message_parse cv out (st_parse (cl_stat c1)) =
        ((st_parse (cl_stat c1))\<lparr>ps_success := ps_success (st_parse (cl_stat c1)) + 1\<rparr>, Inr m')"
      "h_cls (m_header m') = SUCCESS_RESPONSE" "h_transaction_id (m_header m') = tid"
      "get_xor_mapped (m_attribute_set m') = Some (a, endpoint_port ep)"
      "xored_to_address cv a tid = endpoint_address ep" "unknown_comprehension_required (m_attribute_set m') = []"
      "\<forall>d. mi rq = Some d \<longrightarrow> message_is_valid cv m' out d = Inr (Some True)"
    using success_reply_discovers [OF assms(2-4,6) sv(3,4,2) hs out, of "st_parse (cl_stat c1)"] sv(5)
    by (elim exE conjE) simp
  have c1: "cl_tid_to_handle c1 tid = Some h" "cl_tmap c1 h = Some t" "cl_timeline c1 = [(advance now R, h)]" "cl_effects c1 = []"
    using cr(3,4) tl by (simp_all add: c1_def)
  obtain c2 rtt where c2: "response cv later out None c1 = (c2, Inr ())"
      "cl_effects c2 = [TransactionOk h \<lparr>ep_address = endpoint_address ep, ep_port = endpoint_port ep\<rparr> m' rtt]"
    using client_takes_response [OF c1(1,2) cr(5) _ m'(2,3,6,4), where cv = cv and out = out and now = later] m'(1,5,7) cr(6) c1(4)
    by (auto simp: mi_def)
  have tl2: "cl_timeline c2 = [(advance now R, h)]" using response_timeline [OF c2(1)] c1(3) by simp
  obtain c3 where "client_next later c2 = (c3, TransactionOk h \<lparr>ep_address = endpoint_address ep, ep_port = endpoint_port ep\<rparr> m' rtt)"
    using next_pops(1) [OF tl2 assms(11) c2(2)] by (metis prod.collapse)
  moreover have "h_method (m_header m') = binding_method"
    by (rule reply_header_kept [OF assms(2-4,6) sv(3,4,2) hs out m'(1)])
  ultimately show ?thesis using that n1 sv(1) out c2(1) m'(3-5) by blast
qed

section \<open>The exchange in JavaScript\<close>

lemma node_request_fields:
  assumes "node_request n cv px sha1 obj = Inr rq"
  shows "rq_attrs rq = [] \<and> rq_unknown_attrs rq = [] \<and> (\<forall>a. rq_maybe_auth rq = Some a \<longrightarrow> id_hash (au_integrity a) = sha1)"
  using assms
  by (auto simp: node_request_def node_parse_auth_def combine3_eq_Inr combine2_eq_Inr Let_def split: option.splits)

lemma port_int32: "unat (p :: u32) < 65536 \<Longrightarrow> ucast (ucast p :: u16) = p"
  by (simp add: word_unat_eq_iff unsigned_ucast_eq) (simp add: take_bit_small)

lemma node_create_succeeds:
  assumes "js_values n" "rbind (rbind (info 0) (as_object n)) (node_request n cv px sha1) = Inr rq" "\<And>xs. \<not> is_err (sha1 xs)"
  obtains c' h hv where "node_client_create n r load cv ord px sha1 g now info (Inr (client_new st)) =
      Some (snd (tid_generate r load g), Inr c', Inr hv)"
    "do_create cv ord now (fst (tid_generate r load g)) rq (client_new st) = Some (c', Inr h)" "node_handle n h = Inr hv"
proof -
  let ?tid = "fst (tid_generate r load g)"
  have au: "id_hash i = sha1" if "map_option au_integrity (rq_maybe_auth rq) = Some i" for i
    using assms(2) that node_request_fields by fastforce
  obtain dat where "message_build cv ord (request_message st ?tid rq) (map_option au_integrity (rq_maybe_auth rq)) = Inr dat"
    using message_build_total [of "map_option au_integrity (rq_maybe_auth rq)" cv ord] au assms(3) by metis
  moreover obtain c1 h where "allocate_handle (client_new st) = Some (c1, h)"
    using allocate_handle_total [of "client_new st"] by auto
  ultimately obtain c' where c': "do_create cv ord now ?tid rq (client_new st) = Some (c', Inr h)"
    by (simp add: do_create_def)
  have "client_create r load cv ord g now rq (client_new st) = Some (snd (tid_generate r load g), c', Inr h)"
    using c' by (subst client_create.simps) (simp add: Let_def split_beta)
  moreover obtain hv where "node_handle n h = Inr hv" using js_values.node_handle_ok [OF assms(1)] by blast
  ultimately show ?thesis using that c' assms(2) by (simp add: node_client_create_def)
qed

text \<open>
  C12.  Client and server objects together, seen from JavaScript: \<open>create\<close> on a new client succeeds, \<open>next\<close> then
  returns a \<open>send_data\<close> object; \<open>process\<close> of a server that knows the user, called with its message and the
  remote information of the datagram, answers with a \<open>respond\<close> object; and after \<open>response\<close> with its data,
  before the first retransmission is due, \<open>next\<close> returns a \<open>transaction_ok\<close> object whose result has
  exactly the address text and the port of the remote information.
\<close>

theorem node_exchange_discovers_endpoint:
  assumes "js_values n" "binary_view cv" "map_order ord" "sha1_function sha1" "\<And>xs. \<not> is_err (sha1 xs)"
    and "\<And>w. length (load w) = 4"
    and "rbind (rbind (info 0) (as_object n)) (node_request n cv px sha1) = Inr rq" "srv_sha1 s = sha1" "known_user s rq"
    and "rinfo_of n rinfo t p" "ip_text px a t" "ascii t" "address_wf a" "unat p < 65536"
    and "R = rto (rq_path rq) (cl_rto_calc (client_new st))"
    and "is_after (advance now R) now" "is_after (advance now R) later"
  shows "\<exists>g' c' hv c1 eff msgv s' reply datav c2 u c3 done_obj res av pv.
      node_client_create n r load cv ord px sha1 g now info (Inr (client_new st)) = Some (g', Inr c', Inr hv)
    \<and> node_client_next n cv px now (Inr c') = (Inr c1, Some (Inr eff))
    \<and> typed_object n ''send_data'' eff \<and> named_property n ''message'' eff = Inr msgv
    \<and> node_server_process n cv ord px (\<lambda>i. if i = 0 then Inr msgv else Inr rinfo) (Inr s) = (Inr s', Some (Inr reply))
    \<and> result_object n ''respond'' reply \<and> named_property n ''data'' reply = Inr datav
    \<and> node_client_response n cv later (\<lambda>_. Inr datav) (Inr c1) = (Inr c2, Inr u)
    \<and> node_client_next n cv px later (Inr c2) = (Inr c3, Some (Inr done_obj))
    \<and> typed_object n ''transaction_ok'' done_obj \<and> named_property n ''result'' done_obj = Inr res
    \<and> named_property n ''addr'' res = Inr av \<and> as_string n av = Inr t
    \<and> named_property n ''port'' res = Inr pv \<and> as_int32 n pv = Inr p"
proof -
  let ?ep = "UdpEndpoint \<lparr>ep_address = a, ep_port = ucast p\<rparr>" and ?tid = "fst (tid_generate r load g)"
  have rq: "rq_attrs rq = []" "rq_unknown_attrs rq = []" using assms(7) node_request_fields by fastforce+
  have tid: "length ?tid = TRANSACTION_ID_SIZE" by (simp add: tid_generate_def length_random_words assms(6))
  obtain c' h hv where cr: "node_client_create n r load cv ord px sha1 g now info (Inr (client_new st)) =
      Some (snd (tid_generate r load g), Inr c', Inr hv)"
    and h: "do_create cv ord now ?tid rq (client_new st) = Some (c', Inr h)"
    by (rule node_create_succeeds [where info = info, OF assms(1,7,5)])
  have hash: "sha1_function (srv_sha1 s)" "\<And>xs. \<not> is_err (srv_sha1 s xs)" using assms(4,5,8) by simp_all
  have wf: "address_wf (endpoint_address ?ep)" using assms(13) by simp
  note acc = node_request_acceptable [OF rq tid assms(9), of cv st]
  obtain dat c1 s' rsp msg i out c2 c3 m' rtt b where ex: "client_next now c' = (c1, SendData h dat)"
    "server_process cv ?ep dat s = (s', Respond rsp msg i)" "message_build cv ord rsp i = Inr out"
    "response cv later out None c1 = (c2, Inr ())"
    "client_next later c2 = (c3, TransactionOk h \<lparr>ep_address = endpoint_address ?ep, ep_port = endpoint_port ?ep\<rparr> m' rtt)"
    "h_method (m_header m') = binding_method" "get_xor_mapped (m_attribute_set m') = Some (b, endpoint_port ?ep)"
    "xored_to_address cv b (h_transaction_id (m_header m')) = endpoint_address ?ep"
    by (rule exchange_below [OF assms(2,3) hash wf acc h assms(15-17)])
  obtain eff msgv where eff: "node_send_data n dat = Inr eff" "typed_object n ''send_data'' eff"
    "named_property n ''message'' eff = Inr msgv" "as_buffer n msgv = Inr dat"
    using js_values.node_send_data_ok [OF assms(1), of dat] by metis
  obtain reply datav where reply: "node_process_result n cv ord px (Respond rsp msg i) = Some (Inr reply)"
    "result_object n ''respond'' reply" "named_property n ''data'' reply = Inr datav" "as_buffer n datav = Inr out"
    using js_values.node_respond_ok [OF assms(1) ex(3), of px msg] by metis
  have pr: "message_printable cv px m'" using ex(7,8) assms(11) by (auto simp: message_printable_def printable_def)
  obtain done_obj res where d: "node_transaction_ok n cv px \<lparr>ep_address = a, ep_port = ucast p\<rparr> m' rtt = Some (Inr done_obj)"
    "typed_object n ''transaction_ok'' done_obj" "named_property n ''result'' done_obj = Inr res"
    "\<exists>v. named_property n ''addr'' res = Inr v \<and> (ascii t \<longrightarrow> as_string n v = Inr t)"
    "\<exists>v. named_property n ''port'' res = Inr v \<and> as_int32 n v = Inr (ucast (ep_port \<lparr>ep_address = a, ep_port = ucast p\<rparr>))"
    by (rule js_values.node_transaction_ok_ok [OF assms(1) _ pr ex(6), of "\<lparr>ep_address = a, ep_port = ucast p\<rparr>" t rtt])
      (use assms(11) in auto)
  obtain u where u: "create_undefined n = Inr u" using js_values.create_undefined_ok [OF assms(1)] by blast
  have "node_client_next n cv px now (Inr c') = (Inr c1, Some (Inr eff))" using ex(1) eff(1) by (simp add: node_client_next_def)
  moreover have "node_server_process n cv ord px (\<lambda>i. if i = 0 then Inr msgv else Inr rinfo) (Inr s) = (Inr s', Some (Inr reply))"
    using eff(4) extract_rinfo_text [OF assms(10,11,13)] ex(2) reply(1) by (simp add: node_server_process_def)
  moreover have "node_client_response n cv later (\<lambda>_. Inr datav) (Inr c1) = (Inr c2, Inr u)"
    using reply(4) ex(4) u by (simp add: node_client_response_def)
  moreover have "node_client_next n cv px later (Inr c2) = (Inr c3, Some (Inr done_obj))"
    using ex(5) d(1) by (simp add: node_client_next_def)
  ultimately show ?thesis
    using cr eff(2,3) reply(2,3) d(2-5) assms(12) port_int32 [OF assms(14)] by auto
qed

text \<open>A concrete run: a user that \<open>addUser\<close> has registered asks from an IPv6 address.\<close>

definition js_request :: js where
  "js_request = JObject
     [(''source'', JString ''192.0.2.1''), (''target'', JString ''192.0.2.1''),
      (''auth'', JObject [(''username'', JString ''alice''), (''password'', JString ''secret'')])]"

definition js_rinfo :: js where
  "js_rinfo = JObject [(''address'', JString ''2001:db8::1''), (''port'', JNumber 3478)]"

definition js_server :: server where
  "js_server =
     (case node_server_add_user js_napi list_view node_buffer_sha1 (js_args [JString ''alice'', JString ''secret''])
             (Inr (stateless node_buffer_sha1 None)) of
        (Inr s, _) \<Rightarrow> s
      | _ \<Rightarrow> stateless node_buffer_sha1 None)"

definition js_credentials :: auth where
  "js_credentials = \<lparr>au_username = str_bytes ''alice'',
     au_integrity = \<lparr>id_password = projr (short_term list_view (str_bytes ''secret'') node_buffer_sha1), id_hash = node_buffer_sha1\<rparr>\<rparr>"

lemma js_password: "short_term cv (str_bytes ''secret'') node_buffer_sha1 = Inr (id_password (au_integrity js_credentials))"
  by (simp add: js_credentials_def short_term_def pad_key_from_key_def str_bytes_def)

lemma js_request_value:
  "rbind (rbind (js_args [js_request] 0) (as_object js_napi)) (node_request js_napi list_view sample_posix node_buffer_sha1) =
   Inr \<lparr>rq_path = \<lparr>p_source = AddressV4 [192, 0, 2, 1], p_target = AddressV4 [192, 0, 2, 1]\<rparr>, rq_attrs = [], rq_unknown_attrs = [],
        rq_maybe_auth = Some js_credentials\<rparr>"
proof -
  have ip: "ip_from_string sample_posix ''192.0.2.1'' = Inr (AddressV4 [192, 0, 2, 1])"
    by (rule ip_from_text [OF sample_posix_text(1)]) simp
  have "id_hash (au_integrity js_credentials) = node_buffer_sha1" "au_username js_credentials = str_bytes ''alice''"
    by (simp_all add: js_credentials_def)
  then show ?thesis
    by (simp add: js_args_def js_request_def js_napi_def node_request_def node_parse_auth_def ip js_password)
qed

lemma js_server_user:
  "srv_users js_server (str_bytes ''alice'') = Some (id_password (au_integrity js_credentials))" "srv_sha1 js_server = node_buffer_sha1"
  by (simp_all add: js_server_def node_server_add_user_def js_args_def js_napi_def js_password add_user_def stateless_def)

theorem node_exchange_discovers_endpoint_witness:
  "\<exists>c2 c3 obj res av pv. node_client_next js_napi list_view sample_posix 2000 (Inr c2) = (Inr c3, Some (Inr obj))
     \<and> typed_object js_napi ''transaction_ok'' obj \<and> named_property js_napi ''result'' obj = Inr res
     \<and> named_property js_napi ''addr'' res = Inr av \<and> as_string js_napi av = Inr ''2001:db8::1''
     \<and> named_property js_napi ''port'' res = Inr pv \<and> as_int32 js_napi pv = Inr 3478"
proof -
  let ?rq = "\<lparr>rq_path = \<lparr>p_source = AddressV4 [192, 0, 2, 1], p_target = AddressV4 [192, 0, 2, 1]\<rparr>, rq_attrs = [], rq_unknown_attrs = [],
        rq_maybe_auth = Some js_credentials\<rparr>"
  have total: "\<not> is_err (node_buffer_sha1 xs)" for xs by (simp add: node_buffer_sha1_eq buffer_sha1_eq)
  have sha: "sha1_function node_buffer_sha1" by (simp add: node_buffer_sha1_eq sha1_buffer)
  have ru: "rinfo_of js_napi js_rinfo ''2001:db8::1'' 3478" by (simp add: rinfo_of_def js_rinfo_def js_napi_def)
  have known: "known_user js_server ?rq"
    using js_server_user by (simp add: known_user_def js_credentials_def str_bytes_def)
  have rto: "rto \<lparr>p_source = AddressV4 [192, 0, 2, 1], p_target = AddressV4 [192, 0, 2, 1]\<rparr> (cl_rto_calc (client_new default_settings)) = 500000"
    by code_simp
  have later: "is_after (advance 1000 500000) 1000" "is_after (advance 1000 500000) 2000" by code_simp+
  have asc: "ascii ''2001:db8::1''" by (simp add: ascii_def)
  have prem: "length (be_encode 4 w) = 4" "unat (3478 :: u32) < 65536"
    "address_wf (AddressV6 [0x20, 1, 0xd, 0xb8, 0, 0, 0, 0, 0, 0, 0, 0, 0, 0, 0, 1])" for w :: u32
    by simp_all
  have rto': "500000 = rto (rq_path ?rq) (cl_rto_calc (client_new default_settings))" using rto by simp
  from node_exchange_discovers_endpoint [where load = "be_encode 4" and g = "0 :: u32" and r = "\<lambda>g. (g, g + 1)" and info = "js_args [js_request]",
      OF js.js_values_axioms binary_view_list_view map_order_rev sha total prem(1) js_request_value js_server_user(2) known ru
        sample_posix_text(2) asc prem(3,2) rto' later]
  show ?thesis by (elim exE conjE) (intro exI conjI)
qed

end
