(* ===== verification/Node_Ice.thy ===== *)
theory Node_Ice
  imports Napi Ice_Sdp
begin

text \<open>
  ICE candidates as JavaScript objects: \<open>node/node_ice/node_ice_candidate.cpp\<close>.  The result of the parser
  is an object with a \<open>result\<close> and an \<open>error\<close>, one of which is null.
\<close>

definition node_cand_address :: "'v napi \<Rightarrow> posix \<Rightarrow> cand_address \<Rightarrow> 'v result option" where
  "node_cand_address n px addr = obind (cand_address_to_string px addr) (\<lambda>str. Some (create_string n str))"

definition node_extension :: "'v napi \<Rightarrow> extension \<Rightarrow> 'v result" where
  "node_extension n ext =
     create_object n
       [(''name'', Some (create_string n (att_name ext))),
        (''value'', Some (create_string n (att_value ext)))]"

definition node_candidate :: "'v napi \<Rightarrow> posix \<Rightarrow> candidate \<Rightarrow> extension list \<Rightarrow> 'v result option" where
  "node_candidate n px c extensions =
     Option.bind (node_cand_address n px (c_address c)) (\<lambda>host.
     Option.bind (omaybe (c_related_address c) (node_cand_address n px)) (\<lambda>raddr.
       Some (create_object n
         [(''host'', Some host),
          (''port'', Some (create_int32 n (ucast (c_port c)))),
          (''type'', Some (create_string n (cand_type_to_string (c_type c)))),
          (''transport'', Some (create_string n (transport_type_to_string (c_transport_type c)))),
          (''foundation'', Some (create_string n (c_foundation c))),
          (''component'', Some (create_int32 n (c_component c))),
          (''raddr'', raddr),
          (''rport'', map_option (\<lambda>rport. create_int32 n (ucast rport)) (c_related_port c)),
          (''extensions'', Some (create_array n (map (node_extension n) extensions)))])))"

definition ice_candidate_to_object :: "'v napi \<Rightarrow> posix \<Rightarrow> candidate \<Rightarrow> extension list \<Rightarrow> 'v result option" where
  "ice_candidate_to_object n px c extensions =
     map_option (\<lambda>result. create_object n [(''result'', Some result), (''error'', Some (create_null n))])
       (node_candidate n px c extensions)"

definition ice_candidate_parse :: "'v napi \<Rightarrow> craftpp \<Rightarrow> posix \<Rightarrow> (nat \<Rightarrow> 'v result) \<Rightarrow> 'v result option" where
  "ice_candidate_parse n cv px ci =
     obind (Some (rbind (ci 0) (as_string n))) (\<lambda>str.
     obind (parse_sdp_attr cv px str) (\<lambda>c.
       case c of
         Supported c extensions \<Rightarrow> ice_candidate_to_object n px c extensions
       | Unsupported e \<Rightarrow>
           Some (create_object n
             [(''result'', Some (create_null n)),
              (''error'', Some (create_string n (error_text n e)))])))"

section \<open>Reading the object\<close>

definition shows_string :: "'v napi \<Rightarrow> 'v \<Rightarrow> string \<Rightarrow> string \<Rightarrow> bool" where
  "shows_string n obj k s \<longleftrightarrow> (\<exists>v. named_property n k obj = Inr v \<and> as_string n v = Inr s)"

definition shows_int :: "'v napi \<Rightarrow> 'v \<Rightarrow> string \<Rightarrow> u32 \<Rightarrow> bool" where
  "shows_int n obj k i \<longleftrightarrow> (\<exists>v. named_property n k obj = Inr v \<and> as_int32 n v = Inr i)"

definition shows_candidate :: "'v napi \<Rightarrow> (cand_address \<Rightarrow> string) \<Rightarrow> 'v \<Rightarrow> candidate \<Rightarrow> bool" where
  "shows_candidate n atext obj c \<longleftrightarrow>
     shows_string n obj ''host'' (atext (c_address c)) \<and> shows_int n obj ''port'' (ucast (c_port c))
     \<and> shows_string n obj ''type'' (cand_type_to_string (c_type c))
     \<and> shows_string n obj ''transport'' (transport_type_to_string (c_transport_type c))
     \<and> shows_string n obj ''foundation'' (c_foundation c) \<and> shows_int n obj ''component'' (c_component c)
     \<and> (\<forall>a. c_related_address c = Some a \<longrightarrow> shows_string n obj ''raddr'' (atext a))
     \<and> (\<forall>p. c_related_port c = Some p \<longrightarrow> shows_int n obj ''rport'' (ucast p))"

lemma ascii_texts:
  "ascii (cand_type_to_string k)" "ascii (transport_type_to_string tt)" "list_all is_ice_char f \<Longrightarrow> ascii f"
proof -
  show "ascii (cand_type_to_string k)" by (cases k) (simp_all add: ascii_def)
  show "ascii (transport_type_to_string tt)" by (cases tt) (simp add: ascii_def)
  show "list_all is_ice_char f \<Longrightarrow> ascii f"
    by (auto simp: ascii_def list_all_iff is_ice_char_def is_ALPHA_def is_DIGIT_def)
qed

context js_values
begin

lemma stringE:
  assumes "ascii s"
  obtains v where "create_string n s = Inr v" "as_string n v = Inr s"
  using create_string_ok [of s] assms by blast

lemma intE: obtains v where "create_int32 n i = Inr v" "as_int32 n v = Inr i"
  using create_int32_ok by blast

lemma extensions_ok: "\<exists>v. create_array n (map (node_extension n) exts) = Inr v"
proof (rule create_array_ok, rule ballI)
  fix r assume "r \<in> set (map (node_extension n) exts)"
  then obtain x where r: "r = node_extension n x" by auto
  obtain v w where "create_string n (att_name x) = Inr v" "create_string n (att_value x) = Inr w"
    using create_string_ok by blast
  then show "\<not> is_err r"
    using create_object_ok [of "[(''name'', Some (Inr v)), (''value'', Some (Inr w))]"] unfolding r node_extension_def by auto
qed

lemma cand_addressE:
  assumes "cand_address_text px a t" "ascii t"
  obtains v where "node_cand_address n px a = Some (Inr v)" "as_string n v = Inr t"
  using stringE [OF assms(2)] that by (auto simp: node_cand_address_def cand_address_to_text [OF assms(1)])

lemma raddrE:
  assumes "\<And>a. c_related_address c = Some a \<Longrightarrow> cand_address_text px a (atext a) \<and> ascii (atext a)"
  obtains m where "omaybe (c_related_address c) (node_cand_address n px) = Some m" "entry_err (k, m) = []"
    "\<forall>a. c_related_address c = Some a \<longrightarrow> (\<exists>v. m = Some (Inr v) \<and> as_string n v = Inr (atext a))"
proof (cases "c_related_address c")
  case None
  then show ?thesis using that [of None] by simp
next
  case (Some a)
  then obtain v where "node_cand_address n px a = Some (Inr v)" "as_string n v = Inr (atext a)"
    using cand_addressE assms by blast
  then show ?thesis using that [of "Some (Inr v)"] Some by simp
qed

lemma rportE:
  obtains m where "map_option (\<lambda>rport. create_int32 n (ucast rport)) (rp :: port option) = m" "entry_err (k, m) = []"
    "\<forall>p. rp = Some p \<longrightarrow> (\<exists>v. m = Some (Inr v) \<and> as_int32 n v = Inr (ucast p))"
proof (cases rp)
  case (Some p)
  obtain v where "create_int32 n (ucast p) = Inr v" "as_int32 n v = Inr (ucast p)" by (rule intE)
  then show ?thesis using that Some by simp
qed (use that in simp)

lemma node_candidate_ok:
  assumes "candidate_ok c exts" "list_all (\<lambda>a. cand_address_text px a (atext a) \<and> ascii (atext a)) (cand_addresses c)"
  obtains res where "node_candidate n px c exts = Some (Inr res)" "shows_candidate n atext res c"
proof -
  have addr: "cand_address_text px (c_address c) (atext (c_address c))" "ascii (atext (c_address c))"
    "\<And>a. c_related_address c = Some a \<Longrightarrow> cand_address_text px a (atext a) \<and> ascii (atext a)"
    using assms(2) by (simp_all add: cand_addresses_def)
  obtain h where h: "node_cand_address n px (c_address c) = Some (Inr h)" "as_string n h = Inr (atext (c_address c))"
    by (rule cand_addressE [OF addr(1,2)])
  obtain p where p: "create_int32 n (ucast (c_port c)) = Inr p" "as_int32 n p = Inr (ucast (c_port c))" by (rule intE)
  obtain ty where ty: "create_string n (cand_type_to_string (c_type c)) = Inr ty" "as_string n ty = Inr (cand_type_to_string (c_type c))"
    by (rule stringE [OF ascii_texts(1)])
  obtain tr where tr: "create_string n (transport_type_to_string (c_transport_type c)) = Inr tr"
    "as_string n tr = Inr (transport_type_to_string (c_transport_type c))" by (rule stringE [OF ascii_texts(2)])
  have asc: "ascii (c_foundation c)" using assms(1) by (intro ascii_texts(3)) (simp add: candidate_ok_def)
  obtain f where f: "create_string n (c_foundation c) = Inr f" "as_string n f = Inr (c_foundation c)" by (rule stringE [OF asc])
  obtain k where k: "create_int32 n (c_component c) = Inr k" "as_int32 n k = Inr (c_component c)" by (rule intE)
  obtain ra where ra: "omaybe (c_related_address c) (node_cand_address n px) = Some ra" "entry_err (''raddr'', ra) = []"
    "\<forall>a. c_related_address c = Some a \<longrightarrow> (\<exists>v. ra = Some (Inr v) \<and> as_string n v = Inr (atext a))"
    by (rule raddrE [where k = "''raddr''", OF addr(3)])
  obtain rp where rp: "map_option (\<lambda>rport. create_int32 n (ucast rport)) (c_related_port c) = rp" "entry_err (''rport'', rp) = []"
    "\<forall>p. c_related_port c = Some p \<longrightarrow> (\<exists>v. rp = Some (Inr v) \<and> as_int32 n v = Inr (ucast p))"
    by (rule rportE [where k = "''rport''"])
  obtain ar where ar: "create_array n (map (node_extension n) exts) = Inr ar" using extensions_ok by blast
  let ?es = "[(''host'', Some (Inr h :: 'v result)), (''port'', Some (Inr p)), (''type'', Some (Inr ty)), (''transport'', Some (Inr tr)),
      (''foundation'', Some (Inr f)), (''component'', Some (Inr k)), (''raddr'', ra), (''rport'', rp), (''extensions'', Some (Inr ar))]"
  have ok: "concat (map entry_err ?es) = []" "distinct (map fst ?es)" using ra(2) rp(2) by simp_all
  obtain res where res: "create_object n ?es = Inr res" "as_object n res = Inr res"
    "list_all (\<lambda>(k, m). \<forall>v. m = Some (Inr v) \<longrightarrow> named_property n k res = Inr v) ?es"
    by (rule object_of [OF ok])
  have shown: "named_property n ''host'' res = Inr h" "named_property n ''port'' res = Inr p" "named_property n ''type'' res = Inr ty"
    "named_property n ''transport'' res = Inr tr" "named_property n ''foundation'' res = Inr f" "named_property n ''component'' res = Inr k"
    "\<forall>v. ra = Some (Inr v) \<longrightarrow> named_property n ''raddr'' res = Inr v" "\<forall>v. rp = Some (Inr v) \<longrightarrow> named_property n ''rport'' res = Inr v"
    using res(3) by simp_all
  have "shows_candidate n atext res c"
    using h(2) p(2) ty(2) tr(2) f(2) k(2) ra(3) rp(3) shown(7,8)
    unfolding shows_candidate_def shows_string_def shows_int_def by (auto simp: shown(1-6))
  then show ?thesis
    using that [of res] res(1) h(1) p(1) ty(1) tr(1) f(1) k(1) ra(1) rp(1) ar by (simp add: node_candidate_def)
qed

lemma candidate_object:
  assumes "candidate_ok c exts" "list_all (\<lambda>a. cand_address_text px a (atext a) \<and> ascii (atext a)) (cand_addresses c)"
  obtains obj res where "ice_candidate_to_object n px c exts = Some (Inr obj)" "named_property n ''result'' obj = Inr res"
    "shows_candidate n atext res c"
proof -
  obtain res where res: "node_candidate n px c exts = Some (Inr res)" "shows_candidate n atext res c"
    by (rule node_candidate_ok [OF assms])
  obtain nul where nul: "create_null n = Inr nul" using create_null_ok by blast
  let ?es = "[(''result'', Some (Inr res :: 'v result)), (''error'', Some (Inr nul))]"
  have ok: "concat (map entry_err ?es) = []" "distinct (map fst ?es)" by simp_all
  obtain obj where "create_object n ?es = Inr obj" "as_object n obj = Inr obj"
    "list_all (\<lambda>(k, m). \<forall>v. m = Some (Inr v) \<longrightarrow> named_property n k obj = Inr v) ?es"
    by (rule object_of [OF ok])
  then show ?thesis using that [of obj res] res nul by (simp add: ice_candidate_to_object_def)
qed

end

section \<open>Properties\<close>

text \<open>
  C25.  A candidate with values in range, given to JavaScript as an SDP line, comes back as an object whose
  \<open>result\<close> has the candidate's address text, port, type, transport, foundation, component and related
  address and port.
\<close>

theorem node_candidate_roundtrip:
  assumes "js_values n" "ci 0 = Inr v" "as_string n v = Inr (sdp_line atext c exts)" "candidate_ok c exts"
    and "list_all (\<lambda>a. cand_address_text px a (atext a) \<and> is_word (atext a) \<and> ascii (atext a)) (cand_addresses c)"
  shows "\<exists>obj res. ice_candidate_parse n cv px ci = Some (Inr obj) \<and> named_property n ''result'' obj = Inr res
    \<and> shows_candidate n atext res c"
proof -
  have a: "list_all (\<lambda>a. cand_address_text px a (atext a) \<and> is_word (atext a)) (cand_addresses c)"
    "list_all (\<lambda>a. cand_address_text px a (atext a) \<and> ascii (atext a)) (cand_addresses c)"
    using assms(5) by (simp_all add: list_all_iff)
  obtain obj res where "ice_candidate_to_object n px c exts = Some (Inr obj)" "named_property n ''result'' obj = Inr res"
    "shows_candidate n atext res c"
    by (rule js_values.candidate_object [OF assms(1,4) a(2)])
  then show ?thesis using assms(2,3) sdp_line_parses [OF assms(4) a(1), of cv] by (simp add: ice_candidate_parse_def)
qed

text \<open>The object says nothing of the candidate's priority.\<close>

theorem node_candidate_without_priority:
  "ice_candidate_to_object n px (c\<lparr>c_priority := p\<rparr>) exts = ice_candidate_to_object n px c exts"
  by (simp add: ice_candidate_to_object_def node_candidate_def)

lemma sample_line:
  "sdp_line sample_txt sample_candidate [\<lparr>att_name = ''generation'', att_value = ''0''\<rparr>] =
   ''candidate:2 1 udp 1694498815 192.0.2.1 45664 typ srflx raddr host-7.example rport 8998 generation 0''"
  by (simp add: sdp_line_def sdp_words_def sdp_pairs_def sample_candidate_def sample_txt_def dec_string.simps join_Cons char_of_def bit_0)

theorem node_candidate_roundtrip_witness:
  "\<exists>obj res. ice_candidate_parse js_napi list_view sample_posix (js_args [JString
       ''candidate:2 1 udp 1694498815 192.0.2.1 45664 typ srflx raddr host-7.example rport 8998 generation 0'']) = Some (Inr obj)
     \<and> named_property js_napi ''result'' obj = Inr res \<and> shows_int js_napi res ''port'' 45664
     \<and> shows_string js_napi res ''raddr'' ''host-7.example''"
proof -
  let ?x = "[\<lparr>att_name = ''generation'', att_value = ''0''\<rparr>]"
  let ?ci = "js_args [JString ''candidate:2 1 udp 1694498815 192.0.2.1 45664 typ srflx raddr host-7.example rport 8998 generation 0'']"
  have ok: "candidate_ok sample_candidate ?x" by code_simp
  have addrs: "list_all (\<lambda>a. cand_address_text sample_posix a (sample_txt a) \<and> is_word (sample_txt a) \<and> ascii (sample_txt a))
      (cand_addresses sample_candidate)"
    using sample_posix_text(1) sample_fqdn
    by (simp add: cand_addresses_def sample_candidate_def sample_txt_def is_word_def c_str_def sample_posix_def ascii_def)
  have ci: "?ci 0 = Inr (JString (sdp_line sample_txt sample_candidate ?x))"
    "as_string js_napi (JString (sdp_line sample_txt sample_candidate ?x)) = Inr (sdp_line sample_txt sample_candidate ?x)"
    unfolding sample_line by (simp_all add: js_args_def js_napi_def)
  have "shows_int js_napi res ''port'' 45664 \<and> shows_string js_napi res ''raddr'' ''host-7.example''"
    if "shows_candidate js_napi sample_txt res sample_candidate" for res
    using that by (simp add: shows_candidate_def sample_candidate_def sample_txt_def)
  then show ?thesis
    using node_candidate_roundtrip [where ci = ?ci, OF js.js_values_axioms ci ok addrs, of list_view] by blast
qed

end
