(* ===== verification/Spec2Isabelle.thy ===== *)
theory Spec2Isabelle
  imports Stun_Parse_Spec Stun_Exchange Stun_Client_Drain Rtp Ice_Sdp Hashing Error_Texts Node_Exchange Node_Ice
begin

text \<open>
  \<^bold>\<open>Verification of freewebrtc.\<close>  The program is a C++ library for the protocols under WebRTC; its
  sources are under \<open>src/src/\<close>, and its bindings for Node.js under \<open>src/node/\<close>.  This development models
  the protocol code: the STUN codec, its cryptography, the stateless STUN server and the STUN client over
  UDP, the RTP packet parser and the parser of ICE candidates, with the utilities they are built on; and
  the JavaScript classes and functions that the bindings make of them.  File names below are relative to
  \<open>src/src/\<close>, those that begin with \<open>node/\<close> to \<open>src/\<close>.

  \<^bold>\<open>How the parts interact.\<close>  A \<open>stun::Message\<close> is a header and an \<open>AttributeSet\<close>; \<open>Message::build\<close>
  writes it as a list of byte views, with MESSAGE-INTEGRITY (an HMAC) and FINGERPRINT (a CRC) computed
  over what is before them; \<open>Message::parse\<close> reads it back.  \<open>server::Stateless::process\<close> parses a
  request, checks it against its users and answers with a message.  \<open>client_udp::ClientUDP\<close> keeps
  transactions in two tables and a timeline; \<open>create\<close> and \<open>response\<close> change it, \<open>next\<close> returns one effect
  for the caller (send, wait, done, failed).  The timeouts come from a calculator of round-trip times
  that remembers paths in an intrusive list, oldest first.  \<open>rtp::Packet::parse\<close> and
  \<open>ice::candidate::parse_sdp_attr\<close> are pure parsers.  The bindings read arguments from JavaScript values, call
  the client, the server or a parser with the clock and OpenSSL's hash, and turn effects, messages and
  candidates into objects.

  \<^bold>\<open>Theories, in the order of their imports.\<close>
  \<^item> \<open>Prelude\<close>: machine words, results, big-endian encoding.
  \<^item> \<open>Errors\<close>: the error enumerations (\<open>stun/stun_error.hpp\<close>, \<open>net/net_error.hpp\<close>, \<open>rtp/rtp_error.hpp\<close>,
    \<open>ice/candidate/ice_candidate_error.hpp\<close>, \<open>util/util_token_stream.hpp\<close>) and their union.
  \<^item> \<open>Binary_View\<close>: the views of the external package as the record \<open>craftpp\<close>, with the locale
    \<open>binary_view\<close> for what the sources rely on, interpreted for \<open>list_view\<close>; \<open>concat\<close>.
    Its field \<open>stale_view\<close> is what a view reads whose object is gone; the contract says only its length.
  \<^item> \<open>Clock\<close>: \<open>clock/clock_timepoint.hpp\<close> (a wrapping 64-bit microsecond clock), \<open>clock/clock_std.hpp\<close>
    and \<open>stat/stat_counter.hpp\<close>.  Order and difference across the wrap-around; the converter does not drift.
  \<^item> \<open>Net\<close>: addresses, endpoints, paths.
  \<^item> \<open>Crypto\<close>: \<open>crypto/crypto_hmac.hpp\<close>, \<open>crypto/crypto_hash.hpp\<close>, \<open>stun/stun_password.cpp\<close>,
    \<open>crypto/openssl/openssl_hash.cpp\<close>.  The digest is the HMAC of RFC 2104 for passwords of at
    most 64 octets (the pads of a longer one are made of a stale view); the locale \<open>sha1_function\<close>
    is the contract of a hash function, which the OpenSSL wrapper meets over the contract \<open>evp_sha1\<close>.
  \<^item> \<open>Sha1\<close>: SHA-1 of FIPS 180-4, a function that meets the contract and can be evaluated.
  \<^item> \<open>Stun_Types\<close>, \<open>Stun_Fingerprint\<close>, \<open>Stun_Address\<close>, \<open>Stun_Attribute\<close>, \<open>Stun_Attribute_Set\<close>,
    \<open>Stun_Message\<close>: the codec, file by file as in \<open>stun/\<close> and \<open>stun/details/\<close>.  The bit layout of the
    message type, the table-driven CRC against polynomial division, the XORed addresses, every attribute
    there and back.  The iteration order of the \<open>unordered_map\<close> is a parameter with the locale \<open>map_order\<close>.
  \<^item> \<open>Stun_Roundtrip\<close>: building then parsing returns the message, signed or not, in any iteration order.
  \<^item> \<open>Stun_Parse_Sound\<close>, \<open>Stun_Parse_Spec\<close>: what an accepted message satisfies, on every input; the format
    of a message as a relation between bytes and message (\<open>message_reads\<close>), which every success meets.
  \<^item> \<open>Stun_Rfc5769\<close>: the sample messages of RFC 5769, which the tests of the repository use: the model
    parses them, finds their FINGERPRINT and their MESSAGE-INTEGRITY valid, and unmasks their addresses.
  \<^item> \<open>Stun_Server\<close>: \<open>stun/stun_server_stateless.cpp\<close>; its answer to every datagram in terms of the message, the users
    and the HMAC, where it departs from RFC 5389 10.1.2 included, and authentication of what it serves.
  \<^item> \<open>Intrusive_List\<close>: \<open>util/util_intrusive_list.hpp\<close> over an explicit store of links; a refinement of
    sequences, with the locale \<open>recency_list\<close> for the use that the calculator makes of it.
  \<^item> \<open>Stun_Rto\<close>: \<open>stun/details/stun_client_udp_rto.cpp\<close>; the timeout as a function of the recent events of its
    path, after RFC 6298, over any interleaving of events.
  \<^item> \<open>Stun_Client\<close>, \<open>Stun_Client_Inv\<close>, \<open>Stun_Client_Run\<close>: \<open>stun/stun_client_udp.cpp\<close>, its settings and
    effects; the step relation \<open>client_step\<close>, the invariant of all reachable states, which responses
    take effect and what effect, the schedule of retransmissions over a whole run, and what can follow the
    final effect of a transaction.
  \<^item> \<open>Stun_Client_Limits\<close>, \<open>Stun_Client_Drain\<close>: the limits that the settings put on retransmissions, and
    that every transaction of every reachable client ends.  The locale \<open>draining\<close> is what \<open>next\<close>
    promises to a caller that repeats it, in terms of a potential; the client implements it.
  \<^item> \<open>Stun_Exchange\<close>: a request through the server and back.
  \<^item> \<open>Rtp\<close>: \<open>rtp/rtp_packet.cpp\<close> against the wire format of RFC 3550, with the one kind of packet beyond it that is
    accepted (\<open>rtp_zero_padded\<close>).
  \<^item> \<open>Text_Streams\<close>: \<open>abnf/abnf.hpp\<close>, \<open>util/util_string_view.hpp\<close>, \<open>util/util_token_stream.hpp\<close>.
  \<^item> \<open>Net_Names\<close>: \<open>net/net_fqdn.cpp\<close>, \<open>net/net_port.cpp\<close>, \<open>net/ip/ip_address.cpp\<close> against their grammars;
    \<open>inet_pton\<close> and \<open>inet_ntop\<close> are the record \<open>posix\<close>.
  \<^item> \<open>Ice_Candidate\<close>, \<open>Ice_Sdp\<close>: \<open>ice/ice_abnf.hpp\<close> and \<open>ice/candidate/\<close>: the values and preferences of a
    candidate and the parser of its SDP line, against the grammar of RFC 8839 (\<open>abnf_shape\<close>,
    \<open>abnf_values\<close>) and its printer; \<open>sdp_accepts\<close> is the larger set of lines that the loop takes.
  \<^item> \<open>Hashing\<close>: \<open>util/util_hash_murmur.cpp\<close> and the hashes made with it, \<open>util/util_hash_dynamic.hpp\<close>; which
    keys cannot collide.
  \<^item> \<open>Error_Texts\<close>: the numbers, categories and texts of the errors (\<open>stun/stun_error.cpp\<close> and the like,
    \<open>util/util_error.cpp\<close>, \<open>node/node_stun/node_stun_error.cpp\<close>, and the two categories of OpenSSL's codes);
    code and text identify an error.
  \<^item> \<open>Node_Openssl\<close>: \<open>node/openssl/node_openssl_hash.cpp\<close>, compared with the library's hash function.
  \<^item> \<open>Napi\<close>: JavaScript values.  The external package \<open>craftnapi\<close> is the record \<open>napi\<close>, with the locale
    \<open>js_values\<close> for what the bindings rely on, interpreted for the datatype \<open>js\<close>.
  \<^item> \<open>Node_Message\<close>, \<open>Node_Client\<close>, \<open>Node_Server\<close>, \<open>Node_Ice\<close>: \<open>node/node_stun/\<close> and \<open>node/node_ice/\<close>: messages,
    effects and candidates as objects, and the operations of the two classes on the object behind \<open>self\<close>;
    what each returns to JavaScript on every branch, and that the states of a client object are reachable
    states of the client.
  \<^item> \<open>Node_Exchange\<close>: an exchange between the client class and the server class, seen from JavaScript.
  \<^item> This theory: the property that spans client, server and codec.

  \<^bold>\<open>Correspondence.\<close>  A class is a record or datatype with the members of the class; a method takes the
  object and returns it changed.  \<open>Result\<close> is a sum with the error on the left, \<open>Maybe\<close> an option.  Names
  are those of the sources, with a prefix where several classes share a name (\<open>rx_\<close> for the
  retransmission algorithm, \<open>il_\<close> for the list, \<open>cand_\<close> for candidates, \<open>node_\<close> for the bindings).  The clock,
  the random device and the hash that the bindings take from their surroundings are arguments.

  \<^bold>\<open>Loops and bounds.\<close>  There is no fuel in the models of the sources.  Loops whose end is a fact of their
  arguments are \<open>function\<close> with a measure (among them the loop of \<open>ClientUDP::next\<close>, whose measure counts
  the retransmissions that can still fall due).  Four loops are partial functions with \<open>None\<close> for not
  returning: the searches for a free handle and an unused identifier, which return under the conditions
  of \<open>client_create_returns\<close>; the growing buffer of \<open>Address::to_string\<close>, which returns under the contract
  of \<open>inet_ntop\<close>; and the attribute loop of \<open>parse_sdp_attr\<close>, which always returns.  \<open>drive\<close>, the caller
  that performs effects in \<open>Stun_Client_Run\<close>, and \<open>run_late\<close>, the one of \<open>Stun_Client_Drain\<close> that may be late,
  are bounded by a number of steps; \<open>retransmission_schedule\<close> and \<open>client_drains\<close> hold for every
  sufficient number, and \<open>client_drains\<close> gives one in terms of the settings and the state.  The assertion in the RTP parser and the
  calls of \<open>std::abort\<close> in the list are \<open>None\<close>, and theorems say when they are not reached.  Machine
  integers keep their width wherever they can wrap around; sizes of buffers are natural numbers.  Durations
  are integers without bound, where the code has signed 64-bit counts of microseconds: an overflow there
  (about 290000 years) is undefined in C++, and the theorem on the schedule of retransmissions assumes durations below
  \<open>2 ^ 63\<close>.  The timeline is an insertion into a sorted list for \<open>std::priority_queue\<close>: the two give the
  same first entry while all entries are less than \<open>2 ^ 63\<close> microseconds apart, where the order of
  timepoints is total, and up to the order of entries with the same time.

  \<^bold>\<open>Not modelled.\<close>  The code of the external packages (\<open>craftpp\<close>, \<open>craftnapi\<close>, OpenSSL, the operating
  system) is a parameter with a contract.  The lifetime of views is not modelled: a view is the bytes it
  points at, except for the pads of a long password; the view in a \<open>SendData\<close> that comes after its transaction is
  erased is a finding of the manifest.  Errors are compared as the code compares them, by their code: the
  context strings that they collect on their way by \<open>add_context\<close> are taken not to take part in this
  comparison, and are left out.  \<open>attr_encode\<close> of \<open>Stun_Attribute\<close>, the value octets of an attribute, is a
  device of the proofs: \<open>set_build\<close> uses the visitor \<open>visit_value\<close> of the code.  The calls of \<open>std::hash\<close>,
  thread-local instances, the opaque string wrapper, type-level helpers, the registration of classes with
  the JavaScript engine and the examples are left out; the manifest gives the reason for each.
\<close>

section \<open>Properties of the components together\<close>

text \<open>
  C4.  A binding transaction end to end: the bytes that the client queues for an acceptable request,
  handed to the server with the source address of the datagram, get a success reply; and when that
  reply is built, in any order of its attributes, and handed to the client, the client accepts it and
  queues exactly one effect, which reports the transaction as done with the address and the port that
  the server saw.
\<close>

theorem binding_transaction_discovers_address:
  assumes "binary_view cv" "map_order ord" "map_order ord'" "sha1_function (srv_sha1 s)"
    and "address_wf (endpoint_address ep)" "cl_tid_to_handle c tid = None"
    and "do_create cv ord now tid rq c = Some (c', Inr h)" "acceptable_request cv s (cl_settings c) tid rq"
  shows "\<exists>dat s' rsp msg i. cl_effects c' = cl_effects c @ [SendData h dat]
    \<and> server_process cv ep dat s = (s', Respond rsp msg i)
    \<and> (\<forall>out. message_build cv ord' rsp i = Inr out \<longrightarrow>
         (\<exists>c'' m' rtt. response cv later out None c' = (c'', Inr ())
            \<and> cl_effects c'' = cl_effects c' @
                [TransactionOk h \<lparr>ep_address = endpoint_address ep, ep_port = endpoint_port ep\<rparr> m' rtt]))"
proof -
  let ?mi = "map_option au_integrity (rq_maybe_auth rq)"
  obtain dat t where cr: "message_build cv ord (request_message (cl_settings c) tid rq) ?mi = Inr dat"
      "cl_effects c' = cl_effects c @ [SendData h dat]" "cl_tid_to_handle c' tid = Some h" "cl_tmap c' h = Some t"
      "tr_hnd t = h" "tr_maybe_auth t = rq_maybe_auth rq"
    by (rule created_transaction [OF assms(7,6)])
  obtain s' rsp msg where sv: "server_process cv ep dat s = (s', Respond rsp msg ?mi)"
      "success_reply cv s ep msg ?mi = Respond rsp msg ?mi" "accepted dat msg" "\<not> m_is_rfc3489 msg"
      "h_transaction_id (m_header msg) = tid"
    by (rule server_accepts_request [OF assms(1,2,4,8) cr(1)])
  have hs: "\<forall>d. ?mi = Some d \<longrightarrow> id_hash d = srv_sha1 s" using assms(8) by (auto simp: acceptable_request_def Let_def)
  have "\<exists>c'' m' rtt. response cv later out None c' = (c'', Inr ())
      \<and> cl_effects c'' = cl_effects c' @
          [TransactionOk h \<lparr>ep_address = endpoint_address ep, ep_port = endpoint_port ep\<rparr> m' rtt]"
    if out: "message_build cv ord' rsp ?mi = Inr out" for out
  proof -
    obtain m' a where m': "message_parse cv out (st_parse (cl_stat c')) =
          ((st_parse (cl_stat c'))\<lparr>ps_success := ps_success (st_parse (cl_stat c')) + 1\<rparr>, Inr m')"
        "h_cls (m_header m') = SUCCESS_RESPONSE" "h_transaction_id (m_header m') = tid"
        "get_xor_mapped (m_attribute_set m') = Some (a, endpoint_port ep)"
        "xored_to_address cv a tid = endpoint_address ep" "unknown_comprehension_required (m_attribute_set m') = []"
        "\<forall>d. ?mi = Some d \<longrightarrow> message_is_valid cv m' out d = Inr (Some True)"
      using success_reply_discovers [OF assms(1,3,4,5) sv(3,4,2) hs out, of "st_parse (cl_stat c')"] sv(5)
      by (elim exE conjE) simp
    show ?thesis
      using client_takes_response [OF cr(3-5) _ m'(2,3,6,4), where cv = cv and out = out and now = later] m'(1,5,7) cr(6)
      by auto
  qed
  then show ?thesis using cr(2) sv(1) by blast
qed

definition quiet_server :: server where
  "quiet_server = add_user [0x61] \<lparr>pw_ipad = [1], pw_opad = [2]\<rparr> (stateless const_sha1 (Some False))"

lemma sample_exchange_builds:
  "case cl_effects sample_client of
     [SendData h dat] \<Rightarrow>
       (case server_process list_view sample_endpoint dat quiet_server of
          (_, Respond rsp msg i) \<Rightarrow> (case message_build list_view rev rsp i of Inr _ \<Rightarrow> True | Inl _ \<Rightarrow> False)
        | _ \<Rightarrow> False)
   | _ \<Rightarrow> False"
  by code_simp

theorem binding_transaction_discovers_address_witness:
  "\<exists>dat s' rsp msg i out c'' m' rtt. cl_effects sample_client = [SendData 0 dat]
     \<and> server_process list_view sample_endpoint dat quiet_server = (s', Respond rsp msg i)
     \<and> message_build list_view rev rsp i = Inr out \<and> response list_view 2000 out None sample_client = (c'', Inr ())
     \<and> cl_effects c'' = [SendData 0 dat, TransactionOk 0 \<lparr>ep_address = AddressV4 [10, 0, 0, 1], ep_port = 5000\<rparr> m' rtt]"
proof -
  let ?c = "client_new (default_settings\<lparr>cs_use_fingerprint := False\<rparr>)"
  let ?a = "m_attribute_set (request_message (cl_settings ?c) sample_tid sample_request)"
  have "length sample_tid = TRANSACTION_ID_SIZE \<and> set_buildable list_view ?a \<and> unknown_comprehension_required ?a = []
      \<and> get_username ?a = Some [0x61]" by code_simp
  then have acc: "acceptable_request list_view quiet_server (cl_settings ?c) sample_tid sample_request"
    by (simp add: acceptable_request_def Let_def sample_request_def quiet_server_def add_user_def stateless_def const_sha1_def)
  have ok: "address_wf (endpoint_address sample_endpoint)" "sha1_function (srv_sha1 quiet_server)" "cl_tid_to_handle ?c sample_tid = None"
    by (simp_all add: sample_endpoint_def quiet_server_def add_user_def stateless_def const.sha1_function_axioms client_new_def)
  have id: "map_order (\<lambda>m. m)" by unfold_locales simp
  obtain dat s' rsp msg i where ex: "cl_effects sample_client = cl_effects ?c @ [SendData 0 dat]"
      "server_process list_view sample_endpoint dat quiet_server = (s', Respond rsp msg i)"
      "\<And>out. message_build list_view rev rsp i = Inr out \<Longrightarrow>
         \<exists>c'' m' rtt. response list_view 2000 out None sample_client = (c'', Inr ())
            \<and> cl_effects c'' = cl_effects sample_client @
                [TransactionOk 0 \<lparr>ep_address = endpoint_address sample_endpoint, ep_port = endpoint_port sample_endpoint\<rparr> m' rtt]"
    using binding_transaction_discovers_address [OF binary_view_list_view id map_order_rev ok(2,1,3) sample_client_result acc, of 2000]
    by blast
  have eff: "cl_effects sample_client = [SendData 0 dat]" using ex(1) by (simp add: client_new_def)
  then obtain out where "message_build list_view rev rsp i = Inr out"
    using sample_exchange_builds ex(2) by (auto split: sum.splits)
  then show ?thesis using ex(2,3) eff by (fastforce simp: sample_endpoint_def)
qed

end
